(* ===== verification/Rust_String.thy ===== *)
theory Rust_String
  imports Rust_Base
begin

text \<open>
  The string functions of the Rust standard library that the crates call, over UTF-8 byte
  lists: ASCII classes and case, prefixes and suffixes, \<open>trim\<close>, \<open>replace\<close>, integer printing and
  \<open>str::parse\<close>, and \<open>Duration\<close> with its \<open>Debug\<close> output.
\<close>

type_synonym str = string

section \<open>ASCII classes and case\<close>

abbreviation code :: "char \<Rightarrow> nat" where
  "code c \<equiv> of_char c"

definition is_ascii_digit :: "char \<Rightarrow> bool" where
  "is_ascii_digit c \<longleftrightarrow> 48 \<le> code c \<and> code c \<le> 57"

definition ascii_lower :: "char \<Rightarrow> char" where
  "ascii_lower c = (if 65 \<le> code c \<and> code c \<le> 90 then char_of (code c + 32) else c)"

definition ascii_upper :: "char \<Rightarrow> char" where
  "ascii_upper c = (if 97 \<le> code c \<and> code c \<le> 122 then char_of (code c - 32) else c)"

definition to_ascii_lowercase :: "str \<Rightarrow> str" where
  "to_ascii_lowercase s = map ascii_lower s"

definition to_ascii_uppercase :: "str \<Rightarrow> str" where
  "to_ascii_uppercase s = map ascii_upper s"

definition eq_ignore_ascii_case :: "str \<Rightarrow> str \<Rightarrow> bool" where
  "eq_ignore_ascii_case a b \<longleftrightarrow> to_ascii_lowercase a = to_ascii_lowercase b"

section \<open>Searching\<close>

definition starts_with :: "str \<Rightarrow> str \<Rightarrow> bool" where
  "starts_with p s \<longleftrightarrow> take (length p) s = p"

definition strip_prefix :: "str \<Rightarrow> str \<Rightarrow> str option" where
  "strip_prefix p s = (if starts_with p s then Some (drop (length p) s) else None)"

definition strip_suffix :: "str \<Rightarrow> str \<Rightarrow> str option" where
  "strip_suffix p s =
     (if length p \<le> length s \<and> drop (length s - length p) s = p
      then Some (take (length s - length p) s) else None)"

fun contains :: "str \<Rightarrow> str \<Rightarrow> bool" where
  "contains p [] = (p = [])"
| "contains p (c # s) = (starts_with p (c # s) \<or> contains p s)"

definition replace_char :: "char \<Rightarrow> str \<Rightarrow> str \<Rightarrow> str" where
  "replace_char c r s = concat (map (\<lambda>x. if x = c then r else [x]) s)"

lemma contains_iff: "contains p s \<longleftrightarrow> (\<exists>u v. s = u @ p @ v)"
proof (induction s)
  case (Cons c s)
  have "starts_with p (c # s) \<longleftrightarrow> (\<exists>v. c # s = p @ v)"
    unfolding starts_with_def by (metis append_eq_conv_conj append_take_drop_id)
  moreover have "(\<exists>u v. c # s = u @ p @ v) \<longleftrightarrow> (\<exists>v. c # s = p @ v) \<or> (\<exists>u v. s = u @ p @ v)"
    by (metis append_Cons append_Nil list.exhaust list.inject)
  ultimately show ?case using Cons by simp
qed auto

lemma strip_suffix_append [simp]: "strip_suffix p (s @ p) = Some s"
  by (simp add: strip_suffix_def)

lemma strip_suffix_Some: "strip_suffix p s = Some r \<longleftrightarrow> s = r @ p"
  by (auto simp: strip_suffix_def append_take_drop_id split: if_splits)
    (metis append_take_drop_id)

section \<open>Trimming\<close>

text \<open>
  The code points with the Unicode property White_Space, by the bytes of their UTF-8 encoding:
  U+0009 to U+000D and U+0020; U+0085 and U+00A0; U+1680, U+2000 to U+200A, U+2028, U+2029,
  U+202F, U+205F and U+3000. UTF-8 is self-synchronising, so matching these bytes at either end
  of valid UTF-8 matches whole characters.
\<close>

definition ws1 :: "char \<Rightarrow> bool" where
  "ws1 a \<longleftrightarrow> (9 \<le> code a \<and> code a \<le> 13) \<or> code a = 32"

definition ws2 :: "char \<Rightarrow> char \<Rightarrow> bool" where
  "ws2 a b \<longleftrightarrow> code a = 0xC2 \<and> (code b = 0x85 \<or> code b = 0xA0)"

definition ws3 :: "char \<Rightarrow> char \<Rightarrow> char \<Rightarrow> bool" where
  "ws3 a b c \<longleftrightarrow>
     (code a = 0xE1 \<and> code b = 0x9A \<and> code c = 0x80) \<or>
     (code a = 0xE2 \<and> code b = 0x80 \<and>
        ((0x80 \<le> code c \<and> code c \<le> 0x8A) \<or> code c = 0xA8 \<or> code c = 0xA9 \<or> code c = 0xAF)) \<or>
     (code a = 0xE2 \<and> code b = 0x81 \<and> code c = 0x9F) \<or>
     (code a = 0xE3 \<and> code b = 0x80 \<and> code c = 0x80)"

fun trim_with :: "(char \<Rightarrow> char \<Rightarrow> bool) \<Rightarrow> (char \<Rightarrow> char \<Rightarrow> char \<Rightarrow> bool) \<Rightarrow> str \<Rightarrow> str" where
  "trim_with p2 p3 [] = []"
| "trim_with p2 p3 (a # s) =
     (if ws1 a then trim_with p2 p3 s
      else (case s of
        [] \<Rightarrow> a # s
      | b # t \<Rightarrow>
          if p2 a b then trim_with p2 p3 t
          else (case t of
            [] \<Rightarrow> a # s
          | c # u \<Rightarrow> if p3 a b c then trim_with p2 p3 u else a # s)))"

definition trim_start :: "str \<Rightarrow> str" where
  "trim_start = trim_with ws2 ws3"

definition trim_end :: "str \<Rightarrow> str" where
  "trim_end s = rev (trim_with (\<lambda>a b. ws2 b a) (\<lambda>a b c. ws3 c b a) (rev s))"

definition trim :: "str \<Rightarrow> str" where
  "trim s = trim_end (trim_start s)"

text \<open>A byte that neither is nor belongs to white space: printable ASCII.\<close>

definition printable :: "char \<Rightarrow> bool" where
  "printable c \<longleftrightarrow> 33 \<le> code c \<and> code c \<le> 126"

lemma trim_with_printable:
  assumes "printable a" "\<And>b. \<not> p2 a b" "\<And>b c. \<not> p3 a b c"
  shows "trim_with p2 p3 (a # s) = a # s"
  using assms by (auto simp: printable_def ws1_def split: list.split)

lemma trim_start_printable: "printable a \<Longrightarrow> trim_start (a # s) = a # s"
  unfolding trim_start_def
  by (rule trim_with_printable) (auto simp: printable_def ws2_def ws3_def)

lemma trim_end_printable: "printable a \<Longrightarrow> trim_end (s @ [a]) = s @ [a]"
  unfolding trim_end_def
  by (subst rev_append, simp only: rev.simps append_Nil append_Cons, subst trim_with_printable)
    (auto simp: printable_def ws2_def ws3_def)

text \<open>A string whose first and last bytes are printable ASCII is not changed by \<open>trim\<close>.\<close>

lemma trim_id:
  assumes "s \<noteq> []" "printable (hd s)" "printable (last s)"
  shows "trim s = s"
proof -
  from assms have "trim_start s = s"
    by (cases s) (auto simp: trim_start_printable)
  moreover from assms have "trim_end s = s"
    by (metis append_butlast_last_id trim_end_printable)
  ultimately show ?thesis by (simp add: trim_def)
qed

lemma trim_Nil [simp]: "trim [] = []"
  by (simp add: trim_def trim_start_def trim_end_def)

text \<open>\<open>trim_matches\<close> and \<open>trim_start_matches\<close> with a one-byte character.\<close>

definition trim_start_matches :: "char \<Rightarrow> str \<Rightarrow> str" where
  "trim_start_matches c s = dropWhile (\<lambda>x. x = c) s"

definition trim_matches :: "char \<Rightarrow> str \<Rightarrow> str" where
  "trim_matches c s = rev (dropWhile (\<lambda>x. x = c) (rev (dropWhile (\<lambda>x. x = c) s)))"

section \<open>Decimal numbers\<close>

definition digit_val :: "char \<Rightarrow> nat" where
  "digit_val c = code c - 48"

definition digit_char :: "nat \<Rightarrow> char" where
  "digit_char d = char_of (48 + d)"

fun show_nat :: "nat \<Rightarrow> str" where
  "show_nat n = (if n < 10 then [digit_char n] else show_nat (n div 10) @ [digit_char (n mod 10)])"

declare show_nat.simps [simp del]

definition parse_nat :: "str \<Rightarrow> nat option" where
  "parse_nat s =
     (if s \<noteq> [] \<and> list_all is_ascii_digit s
      then Some (foldl (\<lambda>n c. 10 * n + digit_val c) 0 s) else None)"

text \<open>
  \<open>str::parse\<close> for an unsigned integer type: one leading \<open>+\<close> is accepted, the rest must be a
  non-empty list of ASCII digits whose value fits the type.
\<close>

definition parse_unsigned :: "str \<Rightarrow> 'a::len word option" where
  "parse_unsigned s =
     (case parse_nat (if s \<noteq> [] \<and> hd s = CHR ''+'' then tl s else s) of
        None \<Rightarrow> None
      | Some n \<Rightarrow> if n < 2 ^ LENGTH('a) then Some (of_nat n) else None)"

definition show_unsigned :: "'a::len word \<Rightarrow> str" where
  "show_unsigned w = show_nat (unat w)"

definition show_int :: "int \<Rightarrow> str" where
  "show_int i = (if i < 0 then CHR ''-'' # show_nat (nat (- i)) else show_nat (nat i))"

lemma code_digit_char: "d < 10 \<Longrightarrow> code (digit_char d) = 48 + d"
  by (simp add: digit_char_def)

lemma digit_char_digit: "d < 10 \<Longrightarrow> is_ascii_digit (digit_char d)"
  by (simp add: is_ascii_digit_def code_digit_char)

lemma digit_val_digit_char: "d < 10 \<Longrightarrow> digit_val (digit_char d) = d"
  by (simp add: digit_val_def code_digit_char)

lemma show_nat_nonempty [simp]: "show_nat n \<noteq> []"
  by (subst show_nat.simps) simp

lemma show_nat_digits: "list_all is_ascii_digit (show_nat n)"
proof (induction n rule: show_nat.induct)
  case (1 n)
  then show ?case
    by (subst show_nat.simps) (simp add: digit_char_digit)
qed

lemma foldl_show_nat: "foldl (\<lambda>n c. 10 * n + digit_val c) 0 (show_nat n) = n"
proof (induction n rule: show_nat.induct)
  case (1 n)
  then show ?case
    by (subst show_nat.simps) (simp add: digit_val_digit_char)
qed

lemma parse_nat_show_nat [simp]: "parse_nat (show_nat n) = Some n"
  by (simp add: parse_nat_def show_nat_digits foldl_show_nat)

lemma digit_not_plus: "is_ascii_digit c \<Longrightarrow> c \<noteq> CHR ''+''"
  by (auto simp: is_ascii_digit_def)

lemma hd_show_nat: "is_ascii_digit (hd (show_nat n))"
  using show_nat_digits [of n] by (cases "show_nat n") auto

lemma parse_unsigned_show [simp]: "parse_unsigned (show_unsigned w) = Some w"
proof -
  have "hd (show_nat (unat w)) \<noteq> CHR ''+''"
    by (rule digit_not_plus [OF hd_show_nat])
  then show ?thesis
    by (simp add: parse_unsigned_def show_unsigned_def)
qed

lemma parse_unsigned_digits:
  assumes "list_all is_ascii_digit d"
  shows "parse_unsigned d = Some (w :: 'a::len word) \<longleftrightarrow> parse_nat d = Some (unat w)"
proof -
  have "d = [] \<or> hd d \<noteq> CHR ''+''"
    using assms by (cases d) (auto simp: is_ascii_digit_def)
  then have "parse_unsigned d = (case parse_nat d of
      None \<Rightarrow> None | Some n \<Rightarrow> if n < 2 ^ LENGTH('a) then Some (of_nat n :: 'a word) else None)"
    by (auto simp: parse_unsigned_def)
  moreover have "\<And>n. n < 2 ^ LENGTH('a) \<Longrightarrow> of_nat n = w \<longleftrightarrow> n = unat w"
    by (auto simp: of_nat_inverse)
  moreover have "unat w < 2 ^ LENGTH('a)" by simp
  ultimately show ?thesis
    by (auto split: option.splits if_splits)
qed

lemma parse_nat_digits: "parse_nat d = Some n \<Longrightarrow> d \<noteq> [] \<and> list_all is_ascii_digit d"
  by (auto simp: parse_nat_def split: if_splits)

lemma parse_unsigned_last: "parse_unsigned s = Some w \<Longrightarrow> s \<noteq> [] \<and> is_ascii_digit (last s)"
  by (cases s)
    (auto simp: parse_unsigned_def list_all_iff last_tl dest!: parse_nat_digits
      split: if_splits option.splits)

lemma digit_printable: "is_ascii_digit c \<Longrightarrow> printable c"
  by (auto simp: is_ascii_digit_def printable_def)

section \<open>Durations\<close>

text \<open>A \<open>Duration\<close> as its number of nanoseconds; the constructors take the words of the source.\<close>

type_synonym duration = nat

definition from_nanos :: "u64 \<Rightarrow> duration" where
  "from_nanos n = unat n"

definition from_millis :: "u64 \<Rightarrow> duration" where
  "from_millis n = unat n * 1000000"

definition from_secs :: "u64 \<Rightarrow> duration" where
  "from_secs n = unat n * 1000000000"

text \<open>\<open>Duration::MAX\<close>: \<open>u64::MAX\<close> seconds and 999999999 nanoseconds.\<close>

definition duration_max :: duration where
  "duration_max = (2 ^ 64 - 1) * 1000000000 + 999999999"

text \<open>
  \<open>Debug\<close> of a duration: whole part, then the fraction without trailing zeros, then the unit;
  \<open>width\<close> is the number of fraction digits the unit has.
\<close>

definition pad_left :: "nat \<Rightarrow> str \<Rightarrow> str" where
  "pad_left n s = replicate (n - length s) (CHR ''0'') @ s"

definition show_fraction :: "nat \<Rightarrow> nat \<Rightarrow> str" where
  "show_fraction width f =
     (if f = 0 then []
      else CHR ''.'' # rev (dropWhile (\<lambda>c. c = CHR ''0'') (rev (pad_left width (show_nat f)))))"

definition debug_duration :: "duration \<Rightarrow> str" where
  "debug_duration d =
     (let secs = d div 1000000000; nanos = d mod 1000000000 in
      if secs > 0 then show_nat secs @ show_fraction 9 nanos @ ''s''
      else if nanos \<ge> 1000000
        then show_nat (nanos div 1000000) @ show_fraction 6 (nanos mod 1000000) @ ''ms''
      else if nanos \<ge> 1000
        then show_nat (nanos div 1000) @ show_fraction 3 (nanos mod 1000)
               @ [char_of (0xC2::nat), char_of (0xB5::nat), CHR ''s'']
      else show_nat nanos @ ''ns'')"

section \<open>Message fragments\<close>

definition quoted :: "str \<Rightarrow> str" where
  "quoted s = CHR 0x27 # s @ [CHR 0x27]"

text \<open>The prefix almost every message of the crates starts with: \<open>pipeline '{}' ...\<close>.\<close>

definition pipeline_msg :: "str \<Rightarrow> str \<Rightarrow> str" where
  "pipeline_msg pid rest = ''pipeline '' @ quoted pid @ '' '' @ rest"

end
