(* ===== verification/Caml_Error.thy ===== *)
theory Caml_Error
  imports Rust_String
begin

text \<open>
  \<^verbatim>\<open>crates/caml-core/src/error.rs\<close>: the error types of the core crate with their \<open>Display\<close>
  texts. An I/O or YAML error of another crate is carried as its own \<open>Display\<close> text.
\<close>

datatype manifest_error = Io str | Yaml str | Validation str

fun manifest_error_display :: "manifest_error \<Rightarrow> str" where
  "manifest_error_display (Io e) = ''failed to read manifest: '' @ e"
| "manifest_error_display (Yaml e) = ''failed to parse manifest YAML: '' @ e"
| "manifest_error_display (Validation m) = m"

datatype compile_error =
    HardwareMismatch str
  | InvalidConfiguration str
  | DuplicatePipelineId str
  | UnsupportedCapability str
  | ProbeFailure str
  | ResourceLimitExceeded (configured_limit: u64) (estimated_usage: u64)

fun compile_error_display :: "compile_error \<Rightarrow> str" where
  "compile_error_display (HardwareMismatch m) = ''hardware constraint violation: '' @ m"
| "compile_error_display (InvalidConfiguration m) = ''invalid configuration: '' @ m"
| "compile_error_display (DuplicatePipelineId m) = ''duplicate pipeline id: '' @ m"
| "compile_error_display (UnsupportedCapability m) = ''unsupported capability: '' @ m"
| "compile_error_display (ProbeFailure m) = ''capability probe failed: '' @ m"
| "compile_error_display (ResourceLimitExceeded c e) =
     ''resource limit exceeded: configured limit is '' @ show_unsigned c
       @ '' bytes, but estimated usage is '' @ show_unsigned e @ '' bytes''"

datatype runtime_error =
    Adapter str
  | Recoverable str
  | Source str
  | Transform str
  | Sink str
  | Pipeline str
  | Join str

fun runtime_error_display :: "runtime_error \<Rightarrow> str" where
  "runtime_error_display (Adapter m) = ''adapter error: '' @ m"
| "runtime_error_display (Recoverable m) = ''recoverable runtime error: '' @ m"
| "runtime_error_display (Source m) = ''source error: '' @ m"
| "runtime_error_display (Transform m) = ''transform error: '' @ m"
| "runtime_error_display (Sink m) = ''sink error: '' @ m"
| "runtime_error_display (Pipeline m) = ''pipeline error: '' @ m"
| "runtime_error_display (Join m) = ''task join error: '' @ m"

fun is_recoverable :: "runtime_error \<Rightarrow> bool" where
  "is_recoverable (Recoverable m) = True"
| "is_recoverable _ = False"

lemma is_recoverable_iff: "is_recoverable e \<longleftrightarrow> (\<exists>m. e = Recoverable m)"
  by (cases e) auto

end
