(* ===== verification/Caml_Units.thy ===== *)
theory Caml_Units
  imports Rust_String
begin

text \<open>
  \<^verbatim>\<open>crates/caml-core/src/units.rs\<close>: the unit types of the manifest. \<open>ByteSize\<close> and \<open>Bitrate\<close> are
  newtypes over \<open>u64\<close> with the derived order; each has a parser of a digit run followed by a unit
  and a \<open>Display\<close> that prints the base unit. Durations are parsed by suffix.
\<close>

section \<open>The newtypes\<close>

datatype byte_size = ByteSize (as_bytes: u64)

datatype bitrate = Bitrate (as_bits_per_second: u64)

instantiation byte_size :: linorder
begin

definition less_eq_byte_size :: "byte_size \<Rightarrow> byte_size \<Rightarrow> bool" where
  "less_eq_byte_size a b \<longleftrightarrow> as_bytes a \<le> as_bytes b"

definition less_byte_size :: "byte_size \<Rightarrow> byte_size \<Rightarrow> bool" where
  "less_byte_size a b \<longleftrightarrow> as_bytes a < as_bytes b"

instance
  by standard (auto simp: less_eq_byte_size_def less_byte_size_def intro: byte_size.expand)

end

instantiation bitrate :: linorder
begin

definition less_eq_bitrate :: "bitrate \<Rightarrow> bitrate \<Rightarrow> bool" where
  "less_eq_bitrate a b \<longleftrightarrow> as_bits_per_second a \<le> as_bits_per_second b"

definition less_bitrate :: "bitrate \<Rightarrow> bitrate \<Rightarrow> bool" where
  "less_bitrate a b \<longleftrightarrow> as_bits_per_second a < as_bits_per_second b"

instance
  by standard (auto simp: less_eq_bitrate_def less_bitrate_def intro: bitrate.expand)

end

definition byte_size_display :: "byte_size \<Rightarrow> str" where
  "byte_size_display b = show_unsigned (as_bytes b) @ ''B''"

definition bitrate_display :: "bitrate \<Rightarrow> str" where
  "bitrate_display b = show_unsigned (as_bits_per_second b) @ ''bps''"

section \<open>Parsing a number with a unit\<close>

text \<open>
  \<open>trimmed.find(|c| !c.is_ascii_digit())\<close> followed by \<open>split_at\<close>: the leading digits and the
  rest, if there is a non-digit.
\<close>

definition split_digits :: "str \<Rightarrow> (str \<times> str) option" where
  "split_digits s =
     (if list_all is_ascii_digit s then None
      else Some (takeWhile is_ascii_digit s, dropWhile is_ascii_digit s))"

definition byte_unit :: "str \<Rightarrow> u64 option" where
  "byte_unit u =
     (if u = ''B'' then Some 1
      else if u = ''KB'' then Some 1000
      else if u = ''MB'' then Some 1000000
      else if u = ''GB'' then Some 1000000000
      else if u = ''KIB'' then Some 1024
      else if u = ''MIB'' then Some 1048576
      else if u = ''GIB'' then Some 1073741824
      else None)"

definition byte_size_from_str :: "str \<Rightarrow> str + byte_size" where
  "byte_size_from_str input =
     (let trimmed = trim input in
      if trimmed = [] then Inl ''Invalid byte size format. Value cannot be empty.''
      else res_bind (ok_or ''Invalid byte size format. Expected a unit suffix such as 'MB'.''
                      (split_digits trimmed))
        (\<lambda>(digits, unit_part).
           res_bind (ok_or (''Invalid byte size format. '' @ quoted digits
                              @ '' is not a valid integer.'') (parse_unsigned digits))
             (\<lambda>value. res_bind (ok_or (''Invalid byte size format. Unsupported unit ''
                                  @ quoted (trim unit_part) @ ''.'')
                                (byte_unit (to_ascii_uppercase (trim unit_part))))
                (\<lambda>multiplier. ok_or ''Invalid byte size format. Value exceeds supported range.''
                   (map_option ByteSize (checked_mul value multiplier))))))"

definition bitrate_unit :: "str \<Rightarrow> u64 option" where
  "bitrate_unit u =
     (if u = ''k'' \<or> u = ''kbps'' then Some 1000
      else if u = ''m'' \<or> u = ''mbps'' then Some 1000000
      else if u = ''g'' \<or> u = ''gbps'' then Some 1000000000
      else if u = ''bps'' then Some 1
      else None)"

definition bitrate_from_str :: "str \<Rightarrow> str + bitrate" where
  "bitrate_from_str input =
     (let trimmed = trim input in
      if trimmed = [] then Inl ''Invalid bitrate format. Value cannot be empty.''
      else res_bind (ok_or ''Invalid bitrate format. Expected a unit suffix such as 'k' or 'Mbps'.''
                      (split_digits trimmed))
        (\<lambda>(digits, unit_part).
           res_bind (ok_or (''Invalid bitrate format. '' @ quoted digits
                              @ '' is not a valid integer.'') (parse_unsigned digits))
             (\<lambda>value. res_bind (ok_or (''Invalid bitrate format. Unsupported unit ''
                                  @ quoted (trim unit_part) @ ''.'')
                                (bitrate_unit (to_ascii_lowercase (trim unit_part))))
                (\<lambda>multiplier. ok_or ''Invalid bitrate format. Value exceeds supported range.''
                   (map_option Bitrate (checked_mul value multiplier))))))"

section \<open>Durations\<close>

definition bad_duration :: "str \<Rightarrow> str \<Rightarrow> str" where
  "bad_duration v kind = ''Invalid duration format. '' @ quoted v @ '' is not a valid '' @ kind @ '' value.''"

definition parse_duration :: "str \<Rightarrow> str + duration" where
  "parse_duration input =
     (let trimmed = trim input in
      if trimmed = [] then Inl ''Invalid duration format. Value cannot be empty.''
      else case strip_suffix ''ms'' trimmed of
        Some v \<Rightarrow> map_sum id from_millis (ok_or (bad_duration v ''millisecond'') (parse_unsigned v))
      | None \<Rightarrow> (case strip_suffix ''s'' trimmed of
        Some v \<Rightarrow> map_sum id from_secs (ok_or (bad_duration v ''second'') (parse_unsigned v))
      | None \<Rightarrow> (case strip_suffix ''m'' trimmed of
        Some v \<Rightarrow> res_bind (ok_or (bad_duration v ''minute'') (parse_unsigned v))
                   (\<lambda>mins. ok_or ''Invalid duration format. Value exceeds supported range.''
                      (map_option from_secs (checked_mul mins 60)))
      | None \<Rightarrow> Inl ''Invalid duration format. Expected a suffix such as '10s' or '250ms'.'')))"

section \<open>Properties of the parsers\<close>

lemma split_digits_Some:
  "split_digits s = Some (d, u) \<longleftrightarrow>
     s = d @ u \<and> list_all is_ascii_digit d \<and> u \<noteq> [] \<and> \<not> is_ascii_digit (hd u)"
proof
  assume L: "split_digits s = Some (d, u)"
  then have "u \<noteq> []"
    by (auto simp: split_digits_def list_all_iff split: if_splits)
  with L show "s = d @ u \<and> list_all is_ascii_digit d \<and> u \<noteq> [] \<and> \<not> is_ascii_digit (hd u)"
    using hd_dropWhile [of is_ascii_digit s] set_takeWhileD [of _ is_ascii_digit s]
    by (auto simp: split_digits_def list_all_iff split: if_splits)
next
  assume R: "s = d @ u \<and> list_all is_ascii_digit d \<and> u \<noteq> [] \<and> \<not> is_ascii_digit (hd u)"
  then obtain c u' where "u = c # u'" "\<not> is_ascii_digit c" by (cases u) auto
  with R show "split_digits s = Some (d, u)"
    by (auto simp: split_digits_def list_all_iff takeWhile_append dropWhile_append)
qed

lemma trim_number_unit:
  "u \<noteq> [] \<Longrightarrow> printable (last u) \<Longrightarrow> trim (show_unsigned n @ u) = show_unsigned n @ u"
  by (rule trim_id) (simp_all add: show_unsigned_def digit_printable [OF hd_show_nat])

lemma show_unsigned_digits: "list_all is_ascii_digit (show_unsigned n)"
  by (simp add: show_unsigned_def show_nat_digits)

lemma ok_or_map_Inr: "ok_or e (map_option f x) = Inr y \<longleftrightarrow> (\<exists>v. x = Some v \<and> y = f v)"
  by (auto simp: ok_or_def split: option.splits)

text \<open>What a number with a unit means, for a table of units and a case normalisation.\<close>

definition denotes :: "(str \<Rightarrow> u64 option) \<Rightarrow> (str \<Rightarrow> str) \<Rightarrow> str \<Rightarrow> nat \<Rightarrow> bool" where
  "denotes units norm s v \<longleftrightarrow>
     (\<exists>d u n m. trim s = d @ u \<and> parse_nat d = Some n \<and> u \<noteq> [] \<and> \<not> is_ascii_digit (hd u) \<and>
        units (norm (trim u)) = Some m \<and> v = n * unat m)"

lemma number_with_unit:
  assumes pos: "\<And>u m. units u = Some m \<Longrightarrow> m \<noteq> 0"
  shows "(\<exists>d u n m. split_digits (trim s) = Some (d, u) \<and> parse_unsigned d = Some n \<and>
            units (norm (trim u)) = Some m \<and> checked_mul n m = Some w)
         \<longleftrightarrow> denotes units norm s (unat (w :: u64))" (is "?L \<longleftrightarrow> ?R")
proof
  assume ?L
  then obtain d u n m where split: "split_digits (trim s) = Some (d, u)"
    and n: "parse_unsigned d = Some n" and m: "units (norm (trim u)) = Some m"
    and w: "checked_mul n m = Some w"
    by blast
  from split have d: "list_all is_ascii_digit d" by (simp add: split_digits_Some)
  with n have "parse_nat d = Some (unat n)" by (simp add: parse_unsigned_digits)
  with split m w show ?R
    by (auto simp: denotes_def split_digits_Some checked_mul_Some_iff)
next
  assume ?R
  then obtain d u n m where s: "trim s = d @ u" and n: "parse_nat d = Some n"
    and u: "u \<noteq> []" "\<not> is_ascii_digit (hd u)"
    and m: "units (norm (trim u)) = Some m" and w: "unat w = n * unat m"
    by (auto simp: denotes_def)
  have d: "list_all is_ascii_digit d" using n by (simp add: parse_nat_digits)
  have "unat m \<noteq> 0" using pos [OF m] by (simp add: unat_eq_0)
  then have "n \<le> unat w" using w by (cases "unat m") auto
  then have "n < 2 ^ 64" 
    using unsigned_less [of w, where ?'a = nat] by simp
  then have nw: "unat (of_nat n :: u64) = n"
    by (simp add: unat_of_nat)
  have "parse_unsigned d = Some (of_nat n :: u64)"
    using n d by (simp add: parse_unsigned_digits nw)
  moreover have "checked_mul (of_nat n :: u64) m = Some w"
    using w by (simp add: checked_mul_Some_iff nw)
  ultimately show ?L
    using s d u m by (auto simp: split_digits_Some)
qed

lemma byte_unit_nonzero: "byte_unit u = Some m \<Longrightarrow> m \<noteq> 0"
  by (auto simp: byte_unit_def split: if_splits)

lemma bitrate_unit_nonzero: "bitrate_unit u = Some m \<Longrightarrow> m \<noteq> 0"
  by (auto simp: bitrate_unit_def split: if_splits)

lemma denotes_nonempty: "denotes units norm s v \<Longrightarrow> trim s \<noteq> []"
  by (auto simp: denotes_def)

lemma byte_size_from_str_denotes:
  "byte_size_from_str s = Inr b \<longleftrightarrow> denotes byte_unit to_ascii_uppercase s (unat (as_bytes b))"
proof -
  have "byte_size_from_str s = Inr b \<longleftrightarrow> trim s \<noteq> [] \<and>
     (\<exists>d u n m. split_digits (trim s) = Some (d, u) \<and> parse_unsigned d = Some n \<and>
        byte_unit (to_ascii_uppercase (trim u)) = Some m \<and> checked_mul n m = Some (as_bytes b))"
    by (cases b) (auto simp: byte_size_from_str_def Let_def result_simps ok_or_map_Inr)
  then show ?thesis
    using number_with_unit [of byte_unit s to_ascii_uppercase "as_bytes b"] byte_unit_nonzero
      denotes_nonempty
    by blast
qed

lemma bitrate_from_str_denotes:
  "bitrate_from_str s = Inr b \<longleftrightarrow>
     denotes bitrate_unit to_ascii_lowercase s (unat (as_bits_per_second b))"
proof -
  have "bitrate_from_str s = Inr b \<longleftrightarrow> trim s \<noteq> [] \<and>
     (\<exists>d u n m. split_digits (trim s) = Some (d, u) \<and> parse_unsigned d = Some n \<and>
        bitrate_unit (to_ascii_lowercase (trim u)) = Some m \<and>
        checked_mul n m = Some (as_bits_per_second b))"
    by (cases b) (auto simp: bitrate_from_str_def Let_def result_simps ok_or_map_Inr)
  then show ?thesis
    using number_with_unit [of bitrate_unit s to_ascii_lowercase "as_bits_per_second b"]
      bitrate_unit_nonzero denotes_nonempty
    by blast
qed

lemma denotes_show:
  assumes "u \<noteq> []" "printable (last u)" "\<not> is_ascii_digit (hd u)"
    "units (norm (trim u)) = Some m"
  shows "denotes units norm (show_unsigned (w :: u64) @ u) (unat w * unat m)"
  unfolding denotes_def
  using assms trim_number_unit [of u w] parse_nat_show_nat [of "unat w"]
  by (metis show_unsigned_def)

text \<open>What a duration text means: a count and one of three suffixes.\<close>

definition denotes_duration :: "str \<Rightarrow> duration \<Rightarrow> bool" where
  "denotes_duration s d \<longleftrightarrow>
     (\<exists>v. \<exists>n :: u64. parse_unsigned v = Some n \<and>
        (trim s = v @ ''ms'' \<and> d = unat n * 1000000 \<or>
         trim s = v @ ''s'' \<and> d = unat n * 1000000000 \<or>
         trim s = v @ ''m'' \<and> unat n * 60 < 2 ^ 64 \<and> d = unat n * 60 * 1000000000))"

lemma map_sum_id_Inr: "map_sum id f r = Inr y \<longleftrightarrow> (\<exists>x. r = Inr x \<and> y = f x)"
  by (cases r) auto

lemma checked_minutes:
  "ok_or e (map_option from_secs (checked_mul n 60)) = Inr d \<longleftrightarrow>
     unat n * 60 < 2 ^ 64 \<and> d = unat n * 60 * 1000000000"
  by (auto simp: ok_or_map_Inr checked_mul_def from_secs_def unat_word_ariths)

lemma append_ms: "v @ ''s'' = w @ ''ms'' \<longleftrightarrow> v = w @ ''m''"
  using append_same_eq [of v "''s''" "w @ ''m''"] by simp

lemma strip_suffix_None: "strip_suffix p s = None \<longleftrightarrow> (\<nexists>r. s = r @ p)"
  by (metis not_Some_eq strip_suffix_Some)

lemma strip_suffix_ms: "strip_suffix ''ms'' (v @ ''s'') = strip_suffix ''m'' v"
proof (cases "strip_suffix ''m'' v")
  case None
  then have "strip_suffix ''ms'' (v @ ''s'') = None" by (simp add: strip_suffix_None append_ms)
  with None show ?thesis by simp
next
  case (Some w)
  then show ?thesis by (simp add: strip_suffix_Some append_ms)
qed

lemma append_last_neq: "c \<noteq> d \<Longrightarrow> v @ [c] \<noteq> w @ [d]"
  by simp

lemma letters_not_digits: "\<not> is_ascii_digit (CHR ''m'')" "\<not> is_ascii_digit (CHR ''s'')"
  by (simp_all add: is_ascii_digit_def)

lemma parse_unsigned_m: "parse_unsigned (v @ ''m'') = None"
  using parse_unsigned_last [of "v @ ''m''"] letters_not_digits by fastforce

lemma parse_duration_s:
  assumes t: "trim s = v @ ''s''"
  shows "parse_duration s = Inr d \<longleftrightarrow> denotes_duration s d"
proof (cases "strip_suffix ''m'' v")
  case (Some w)
  then have v: "v = w @ ''m''" by (simp add: strip_suffix_Some)
  have "denotes_duration s d \<longleftrightarrow> (\<exists>n :: u64. parse_unsigned w = Some n \<and> d = unat n * 1000000)"
    using t v by (auto simp: denotes_duration_def append_ms parse_unsigned_m)
  then show ?thesis
    using t v Some
    by (auto simp: parse_duration_def strip_suffix_ms map_sum_id_Inr result_simps from_millis_def)
next
  case None
  then have "\<And>w. v \<noteq> w @ ''m''" by (simp add: strip_suffix_None)
  then have "denotes_duration s d \<longleftrightarrow> (\<exists>n :: u64. parse_unsigned v = Some n \<and> d = unat n * 1000000000)"
    using t by (auto simp: denotes_duration_def append_ms)
  then show ?thesis
    using t None
    by (auto simp: parse_duration_def strip_suffix_ms map_sum_id_Inr result_simps from_secs_def)
qed

lemma parse_duration_not_s:
  assumes t: "\<nexists>v. trim s = v @ ''s''"
  shows "parse_duration s = Inr d \<longleftrightarrow> denotes_duration s d"
proof -
  have "\<nexists>v. trim s = v @ ''ms''"
    using t by (metis append.assoc append_Cons append_Nil)
  then have strip: "strip_suffix ''ms'' (trim s) = None" "strip_suffix ''s'' (trim s) = None"
    using t by (simp_all add: strip_suffix_None)
  have "denotes_duration s d \<longleftrightarrow> (\<exists>v. \<exists>n :: u64. parse_unsigned v = Some n \<and>
      trim s = v @ ''m'' \<and> unat n * 60 < 2 ^ 64 \<and> d = unat n * 60 * 1000000000)"
    using \<open>\<nexists>v. trim s = v @ ''ms''\<close> t by (auto simp: denotes_duration_def)
  moreover have "parse_duration s = Inr d \<longleftrightarrow> (\<exists>v. \<exists>n :: u64. strip_suffix ''m'' (trim s) = Some v \<and>
      parse_unsigned v = Some n \<and> unat n * 60 < 2 ^ 64 \<and> d = unat n * 60 * 1000000000)"
  proof (cases "strip_suffix ''m'' (trim s)")
    case (Some v)
    then have "trim s \<noteq> []" by (auto simp: strip_suffix_Some)
    with Some strip show ?thesis
      by (simp add: parse_duration_def res_bind_Inr_iff checked_minutes) (simp add: ok_or_Inr_iff)
  qed (simp add: parse_duration_def Let_def strip)
  ultimately show ?thesis by (auto simp: strip_suffix_Some)
qed

lemma parse_duration_denotes: "parse_duration s = Inr d \<longleftrightarrow> denotes_duration s d"
  using parse_duration_s parse_duration_not_s by blast

lemma denotes_duration_max: "denotes_duration s d \<Longrightarrow> d \<le> duration_max"
proof -
  assume "denotes_duration s d"
  then obtain n :: u64 where
    "d = unat n * 1000000 \<or> d = unat n * 1000000000 \<or> unat n * 60 < 2 ^ 64 \<and> d = unat n * 60 * 1000000000"
    by (auto simp: denotes_duration_def)
  moreover have "unat n < 2 ^ 64"
    using unsigned_less [of n, where ?'a = nat] by simp
  ultimately show ?thesis
    by (auto simp: duration_max_def)
qed

section \<open>Claims\<close>

text \<open>
  Parsing what \<open>Display\<close> prints gives back the value, for every byte size and every bitrate
  (all of the \<open>u64\<close> range).
\<close>

theorem units_roundtrip:
  "byte_size_from_str (byte_size_display b) = Inr b \<and> bitrate_from_str (bitrate_display r) = Inr r"
proof -
  have units: "byte_unit (to_ascii_uppercase (trim ''B'')) = Some 1"
    "bitrate_unit (to_ascii_lowercase (trim ''bps'')) = Some 1"
    by code_simp+
  have "denotes byte_unit to_ascii_uppercase (byte_size_display b) (unat (as_bytes b) * unat (1 :: u64))"
    unfolding byte_size_display_def
    by (rule denotes_show) (auto simp: printable_def is_ascii_digit_def units)
  moreover have "denotes bitrate_unit to_ascii_lowercase (bitrate_display r)
      (unat (as_bits_per_second r) * unat (1 :: u64))"
    unfolding bitrate_display_def
    by (rule denotes_show) (auto simp: printable_def is_ascii_digit_def units)
  ultimately show ?thesis
    by (simp add: byte_size_from_str_denotes bitrate_from_str_denotes)
qed

text \<open>
  A text is accepted as a byte size, or as a bitrate, exactly if (after trimming) it is a
  digit run followed by a known unit in any case, and the value is then the mathematical product
  of count and unit: the parser never wraps around.
\<close>

theorem unit_parsers_exact:
  "(byte_size_from_str s = Inr b \<longleftrightarrow>
      denotes byte_unit to_ascii_uppercase s (unat (as_bytes b))) \<and>
   (bitrate_from_str s = Inr r \<longleftrightarrow>
      denotes bitrate_unit to_ascii_lowercase s (unat (as_bits_per_second r)))"
  by (simp add: byte_size_from_str_denotes bitrate_from_str_denotes)

text \<open>
  \<open>parse_duration\<close> accepts exactly a count with one of the suffixes \<open>ms\<close>, \<open>s\<close> and \<open>m\<close> (minutes
  only if their seconds fit a \<open>u64\<close>), gives the duration the text denotes, and that duration is
  representable.
\<close>

theorem parse_duration_exact:
  "(parse_duration s = Inr d \<longleftrightarrow> denotes_duration s d) \<and>
   \<not> (parse_duration s = Inr d \<and> d > duration_max)"
  using parse_duration_denotes [of s d] denotes_duration_max [of s d] by auto

end
