(* ===== verification/Caml_Frontend.thy ===== *)
theory Caml_Frontend
  imports Caml_Error Caml_Units
begin

text \<open>
  \<^verbatim>\<open>crates/caml-core/src/frontend.rs\<close>: the manifest data model and \<open>CamlManifest::validate\<close>.
  Records carry the fields of the structs with a prefix per struct; an \<open>Option\<close> is an \<open>option\<close>.
  The YAML deserialiser (crate \<^verbatim>\<open>serde_yaml\<close>) and \<open>Url::parse\<close> (crate \<^verbatim>\<open>url\<close>) are not part of the
  repository: they are parameters, with the error text or what the code reads of the result.
\<close>

section \<open>Data model\<close>

datatype hardware_target = RaspberryPi4 | RaspberryPi5 | GenericLinux

datatype input_type = Rtsp | Device

datatype stream_strategy = Passthrough | Transcode | HardwareDecode

datatype transport = Tcp | Udp

datatype input_backend = Auto | Ffmpeg | V4l2 | Libcamera

record network_profile =
  np_transport :: transport
  np_packet_size_limit :: usize
  np_stall_timeout :: duration

datatype drop_policy = Block | DropOldest | DropNewest

datatype output_profile =
    WebrtcRtp (wo_codec: "str option") (wo_payload_type: "u8 option") (wo_mtu: "usize option")
      (wo_ssrc: "str option") (wo_clock_rate: "u32 option")
      (out_queue_limit: "usize option") (out_drop_policy: drop_policy)
  | Recording (out_queue_limit: "usize option") (out_drop_policy: drop_policy)

record capture_profile =
  cp_width :: u32
  cp_height :: u32
  cp_pixel_format :: str
  cp_frame_rate :: u32

record processing_profile =
  pp_codec :: str
  pp_encoder :: str
  pp_preset :: str
  pp_tune :: str
  pp_frame_rate :: u32
  pp_bitrate :: bitrate
  pp_rotation :: "i32 option"

datatype overlay_position = TopLeft | TopRight | BottomLeft | BottomRight

datatype timestamp_source = WallClock

datatype overlay_timezone = Local | Utc

record text_overlay_style =
  st_font_size :: "u32 option"
  st_font_color :: "str option"
  st_background_color :: "str option"
  st_background_alpha :: "u8 option"
  st_padding :: "u32 option"
  st_margin :: "u32 option"

datatype overlay_layer =
    TimestampLayer overlay_position timestamp_source overlay_timezone "str option" text_overlay_style
  | TextLayer str overlay_position text_overlay_style
  | WatermarkLayer str overlay_position "u32 option" "u8 option" "u32 option"

record overlay_profile =
  ov_layers :: "overlay_layer list"

record pipeline_node =
  pn_id :: str
  pn_input :: str
  pn_input_type :: input_type
  pn_strategy :: stream_strategy
  pn_backend :: "input_backend option"
  pn_network :: "network_profile option"
  pn_capture :: "capture_profile option"
  pn_processing :: "processing_profile option"
  pn_overlay :: "overlay_profile option"
  pn_outputs :: "output_profile list"

record system_config =
  sc_hardware_target :: hardware_target
  sc_cma_allocation_limit :: "byte_size option"
  sc_media_memory_limit :: "byte_size option"

record caml_manifest =
  cm_version :: "u32 option"
  cm_system :: system_config
  cm_pipelines :: "pipeline_node list"

section \<open>Validation\<close>

text \<open>What the code reads of a parsed URL: the scheme and the host.\<close>

record parsed_url =
  url_scheme :: str
  url_host :: "str option"

type_synonym url_parser = "str \<Rightarrow> str + parsed_url"

definition invalid :: "str \<Rightarrow> manifest_error + 'a" where
  "invalid m = Inl (Validation m)"

definition validate_rtsp_input :: "url_parser \<Rightarrow> str \<Rightarrow> str \<Rightarrow> manifest_error + unit" where
  "validate_rtsp_input url_parse pid input =
     (case url_parse input of
        Inl e \<Rightarrow> invalid (pipeline_msg pid (''has an invalid rtsp input '' @ quoted input @ '': '' @ e))
      | Inr parsed \<Rightarrow>
          if url_scheme parsed \<noteq> ''rtsp'' \<or> url_host parsed = None
          then invalid (pipeline_msg pid ''must use an rtsp:// URL with a host'')
          else Inr ())"

definition validate_device_input :: "str \<Rightarrow> str \<Rightarrow> manifest_error + unit" where
  "validate_device_input pid input =
     (let looks_like_path =
            starts_with ''/'' input \<or> starts_with ''./'' input \<or> starts_with ''../'' input
      in if \<not> looks_like_path \<or> contains ''://'' input
         then invalid (pipeline_msg pid ''must use a filesystem-like path for device input'')
         else Inr ())"

definition validate_text_overlay_style :: "str \<Rightarrow> text_overlay_style \<Rightarrow> manifest_error + unit" where
  "validate_text_overlay_style pid style =
     (if is_some_and (\<lambda>v. v = 0) (st_font_size style)
      then invalid (pipeline_msg pid ''overlay font_size must be greater than 0'')
      else if is_some_and (\<lambda>v. v > 100) (st_background_alpha style)
      then invalid (pipeline_msg pid ''overlay background_alpha must be between 0 and 100'')
      else Inr ())"

fun validate_overlay_layer :: "str \<Rightarrow> overlay_layer \<Rightarrow> manifest_error + unit" where
  "validate_overlay_layer pid (TimestampLayer position source timezone format style) =
     res_bind (validate_text_overlay_style pid style) (\<lambda>_.
       if is_some_and (\<lambda>v. trim v = []) format
       then invalid (pipeline_msg pid ''timestamp overlay format cannot be empty'')
       else Inr ())"
| "validate_overlay_layer pid (TextLayer text position style) =
     validate_text_overlay_style pid style"
| "validate_overlay_layer pid (WatermarkLayer image_path position max_width_px opacity margin) =
     (if trim image_path = []
      then invalid (pipeline_msg pid ''watermark overlay image_path cannot be empty'')
      else if contains ''://'' image_path
      then invalid (pipeline_msg pid ''watermark overlay image_path must reference a local file'')
      else if is_some_and (\<lambda>v. v = 0) max_width_px
      then invalid (pipeline_msg pid ''watermark overlay max_width_px must be greater than 0'')
      else if is_some_and (\<lambda>v. v > 100) opacity
      then invalid (pipeline_msg pid ''watermark overlay opacity must be between 0 and 100'')
      else Inr ())"

definition validate_overlay_profile :: "str \<Rightarrow> overlay_profile \<Rightarrow> manifest_error + unit" where
  "validate_overlay_profile pid overlay =
     (if ov_layers overlay = []
      then invalid (pipeline_msg pid ''defines overlay but provides no layers'')
      else try_each (validate_overlay_layer pid) (ov_layers overlay))"

definition validate_strategy :: "pipeline_node \<Rightarrow> manifest_error + unit" where
  "validate_strategy p =
     (case pn_strategy p of
        Passthrough \<Rightarrow>
          if pn_network p = None
          then invalid (pipeline_msg (pn_id p) ''uses passthrough and requires a network profile'')
          else if pn_processing p \<noteq> None
          then invalid (pipeline_msg (pn_id p) ''defines processing but is marked as passthrough'')
          else if pn_overlay p \<noteq> None
          then invalid (pipeline_msg (pn_id p)
                 ''defines overlay but overlays require transcode or hardware_decode'')
          else Inr ()
      | Transcode \<Rightarrow>
          if pn_processing p = None
          then invalid (pipeline_msg (pn_id p) ''uses transcode and requires a processing profile'')
          else Inr ()
      | HardwareDecode \<Rightarrow>
          if pn_processing p = None
          then invalid (pipeline_msg (pn_id p) ''uses hardware_decode and requires a processing profile'')
          else Inr ())"

definition validate_input :: "url_parser \<Rightarrow> pipeline_node \<Rightarrow> manifest_error + unit" where
  "validate_input url_parse p =
     (case pn_input_type p of
        Rtsp \<Rightarrow>
          if is_some_and (\<lambda>b. \<not> (b = Auto \<or> b = Ffmpeg)) (pn_backend p)
          then invalid (pipeline_msg (pn_id p)
                 ''uses an rtsp input and only supports 'auto' or 'ffmpeg' backends'')
          else validate_rtsp_input url_parse (pn_id p) (pn_input p)
      | Device \<Rightarrow> validate_device_input (pn_id p) (pn_input p))"

text \<open>The body of the loop over the pipelines.\<close>

definition validate_node :: "url_parser \<Rightarrow> pipeline_node \<Rightarrow> manifest_error + unit" where
  "validate_node url_parse p =
     res_bind (validate_strategy p) (\<lambda>_.
       res_bind (case pn_overlay p of
                   None \<Rightarrow> Inr () | Some overlay \<Rightarrow> validate_overlay_profile (pn_id p) overlay) (\<lambda>_.
         validate_input url_parse p))"

definition validate_manifest :: "url_parser \<Rightarrow> caml_manifest \<Rightarrow> manifest_error + unit" where
  "validate_manifest url_parse m =
     (if sc_cma_allocation_limit (cm_system m) = None \<and> sc_media_memory_limit (cm_system m) = None
      then invalid ''Either cma_allocation_limit or media_memory_limit must be specified''
      else if cm_pipelines m = []
      then invalid ''manifest must define at least one pipeline''
      else try_each (validate_node url_parse) (cm_pipelines m))"

text \<open>\<open>from_yaml_str\<close> and \<open>from_reader\<close>; \<open>yaml\<close> is the deserialiser, \<open>raw\<close> what reading gave.\<close>

definition from_yaml_str ::
  "(str \<Rightarrow> str + caml_manifest) \<Rightarrow> url_parser \<Rightarrow> str \<Rightarrow> manifest_error + caml_manifest" where
  "from_yaml_str yaml url_parse input =
     res_bind (map_err Yaml (yaml input)) (\<lambda>manifest.
       res_bind (validate_manifest url_parse manifest) (\<lambda>_. Inr manifest))"

definition from_reader ::
  "(str \<Rightarrow> str + caml_manifest) \<Rightarrow> url_parser \<Rightarrow> str + str \<Rightarrow> manifest_error + caml_manifest" where
  "from_reader yaml url_parse raw =
     res_bind (map_err Io raw) (from_yaml_str yaml url_parse)"

section \<open>What a valid manifest is\<close>

definition style_ok :: "text_overlay_style \<Rightarrow> bool" where
  "style_ok style \<longleftrightarrow>
     (\<forall>v. st_font_size style = Some v \<longrightarrow> 0 < v) \<and>
     (\<forall>v. st_background_alpha style = Some v \<longrightarrow> v \<le> 100)"

fun layer_ok :: "overlay_layer \<Rightarrow> bool" where
  "layer_ok (TimestampLayer position source timezone format style) \<longleftrightarrow>
     style_ok style \<and> (\<forall>v. format = Some v \<longrightarrow> trim v \<noteq> [])"
| "layer_ok (TextLayer text position style) \<longleftrightarrow> style_ok style"
| "layer_ok (WatermarkLayer image_path position max_width_px opacity margin) \<longleftrightarrow>
     trim image_path \<noteq> [] \<and> \<not> contains ''://'' image_path \<and>
     (\<forall>v. max_width_px = Some v \<longrightarrow> 0 < v) \<and> (\<forall>v. opacity = Some v \<longrightarrow> v \<le> 100)"

definition profiles_ok :: "pipeline_node \<Rightarrow> bool" where
  "profiles_ok p \<longleftrightarrow>
     (if pn_strategy p = Passthrough
      then pn_network p \<noteq> None \<and> pn_processing p = None \<and> pn_overlay p = None
      else pn_processing p \<noteq> None)"

definition input_ok :: "url_parser \<Rightarrow> pipeline_node \<Rightarrow> bool" where
  "input_ok url_parse p \<longleftrightarrow>
     (if pn_input_type p = Rtsp
      then pn_backend p \<in> {None, Some Auto, Some Ffmpeg} \<and>
           (\<exists>u h. url_parse (pn_input p) = Inr u \<and> url_scheme u = ''rtsp'' \<and> url_host u = Some h)
      else (starts_with ''/'' (pn_input p) \<or> starts_with ''./'' (pn_input p)
              \<or> starts_with ''../'' (pn_input p)) \<and> \<not> contains ''://'' (pn_input p))"

definition node_ok :: "url_parser \<Rightarrow> pipeline_node \<Rightarrow> bool" where
  "node_ok url_parse p \<longleftrightarrow>
     profiles_ok p \<and> input_ok url_parse p \<and>
     (\<forall>ov. pn_overlay p = Some ov \<longrightarrow> ov_layers ov \<noteq> [] \<and> (\<forall>l \<in> set (ov_layers ov). layer_ok l))"

definition manifest_ok :: "url_parser \<Rightarrow> caml_manifest \<Rightarrow> bool" where
  "manifest_ok url_parse m \<longleftrightarrow>
     (sc_cma_allocation_limit (cm_system m) \<noteq> None \<or> sc_media_memory_limit (cm_system m) \<noteq> None) \<and>
     cm_pipelines m \<noteq> [] \<and> (\<forall>p \<in> set (cm_pipelines m). node_ok url_parse p)"

lemma invalid_neq_Inr [simp]: "invalid m \<noteq> Inr x"
  by (simp add: invalid_def)

lemma is_some_and_iff: "is_some_and p x \<longleftrightarrow> (\<exists>v. x = Some v \<and> p v)"
  by (cases x) auto

lemma validate_text_overlay_style_ok:
  "validate_text_overlay_style pid style = Inr () \<longleftrightarrow> style_ok style"
  by (auto simp: validate_text_overlay_style_def style_ok_def is_some_and_iff word_gt_0
      simp flip: not_le)

lemma validate_overlay_layer_ok: "validate_overlay_layer pid l = Inr () \<longleftrightarrow> layer_ok l"
  by (cases l)
    (auto simp: result_simps validate_text_overlay_style_ok is_some_and_iff word_gt_0
      simp flip: not_le)

lemma validate_strategy_ok: "validate_strategy p = Inr () \<longleftrightarrow> profiles_ok p"
  by (cases "pn_strategy p") (auto simp: validate_strategy_def profiles_ok_def)

lemma validate_input_ok: "validate_input url_parse p = Inr () \<longleftrightarrow> input_ok url_parse p"
proof (cases "pn_input_type p")
  case Rtsp
  then show ?thesis
    by (cases "pn_backend p"; cases "url_parse (pn_input p)")
      (auto simp: validate_input_def input_ok_def validate_rtsp_input_def not_None_eq)
next
  case Device
  then show ?thesis
    by (auto simp: validate_input_def input_ok_def validate_device_input_def Let_def)
qed

lemma validate_node_ok: "validate_node url_parse p = Inr () \<longleftrightarrow> node_ok url_parse p"
  by (cases "pn_overlay p")
    (auto simp: validate_node_def node_ok_def result_simps validate_strategy_ok validate_input_ok
      validate_overlay_profile_def validate_overlay_layer_ok)

lemma validate_manifest_ok: "validate_manifest url_parse m = Inr () \<longleftrightarrow> manifest_ok url_parse m"
  by (auto simp: validate_manifest_def manifest_ok_def result_simps validate_node_ok)

lemma from_yaml_str_Inr:
  "from_yaml_str yaml url_parse s = Inr m \<longleftrightarrow> yaml s = Inr m \<and> manifest_ok url_parse m"
  by (auto simp: from_yaml_str_def result_simps validate_manifest_ok)

lemma validate_strategy_names_pipeline:
  "validate_strategy p = Inl e \<Longrightarrow> \<exists>rest. e = Validation (pipeline_msg (pn_id p) rest)"
  by (cases "pn_strategy p") (auto simp: validate_strategy_def invalid_def split: if_splits)

lemma validate_style_names_pipeline:
  "validate_text_overlay_style pid style = Inl e \<Longrightarrow> \<exists>rest. e = Validation (pipeline_msg pid rest)"
  by (auto simp: validate_text_overlay_style_def invalid_def split: if_splits)

lemma validate_layer_names_pipeline:
  "validate_overlay_layer pid l = Inl e \<Longrightarrow> \<exists>rest. e = Validation (pipeline_msg pid rest)"
  by (cases l)
    (auto simp: invalid_def result_simps dest: validate_style_names_pipeline split: if_splits)

lemma validate_overlay_names_pipeline:
  "validate_overlay_profile pid ov = Inl e \<Longrightarrow> \<exists>rest. e = Validation (pipeline_msg pid rest)"
  by (auto simp: validate_overlay_profile_def invalid_def try_each_Inl_iff
      dest: validate_layer_names_pipeline split: if_splits)

lemma validate_input_names_pipeline:
  "validate_input url_parse p = Inl e \<Longrightarrow> \<exists>rest. e = Validation (pipeline_msg (pn_id p) rest)"
  by (cases "pn_input_type p")
    (auto simp: validate_input_def validate_rtsp_input_def validate_device_input_def invalid_def
      Let_def split: if_splits sum.splits)

lemma validate_node_names_pipeline:
  "validate_node url_parse p = Inl e \<Longrightarrow> \<exists>rest. e = Validation (pipeline_msg (pn_id p) rest)"
  by (auto simp: validate_node_def result_simps split: option.splits
      dest: validate_strategy_names_pipeline validate_overlay_names_pipeline
        validate_input_names_pipeline)

section \<open>Claims\<close>

text \<open>
  C25: loading a manifest succeeds exactly if the text can be read, the YAML deserialiser accepts
  it and the manifest it yields is valid in the declarative sense of \<open>manifest_ok\<close> (a memory limit,
  at least one pipeline, and for every pipeline the profiles its strategy needs and none it
  forbids, a well-formed input for its type and backend, and well-formed overlay layers); the
  manifest is returned unchanged.
\<close>

theorem manifest_loading_exact:
  "from_reader yaml url_parse raw = Inr m \<longleftrightarrow>
     (\<exists>s. raw = Inr s \<and> yaml s = Inr m \<and> manifest_ok url_parse m)"
  by (auto simp: from_reader_def result_simps from_yaml_str_Inr)

text \<open>
  C26: a manifest with a memory limit and pipelines is rejected exactly because of its first
  invalid pipeline: every pipeline before it is valid, and the error is the one of that pipeline
  and names it.
\<close>

theorem manifest_first_error:
  assumes "sc_cma_allocation_limit (cm_system m) \<noteq> None \<or> sc_media_memory_limit (cm_system m) \<noteq> None"
    and "cm_pipelines m \<noteq> []"
  shows "validate_manifest url_parse m = Inl e \<longleftrightarrow>
    (\<exists>before p after. cm_pipelines m = before @ p # after \<and> list_all (node_ok url_parse) before \<and>
       \<not> node_ok url_parse p \<and> validate_node url_parse p = Inl e \<and>
       (\<exists>rest. e = Validation (pipeline_msg (pn_id p) rest)))"
proof -
  have rej: "\<not> node_ok url_parse p \<and> (\<exists>rest. e = Validation (pipeline_msg (pn_id p) rest))"
    if "validate_node url_parse p = Inl e" for p
    using that validate_node_names_pipeline [OF that] by (metis validate_node_ok Inl_Inr_False)
  have "validate_manifest url_parse m = Inl e \<longleftrightarrow>
      try_each (validate_node url_parse) (cm_pipelines m) = Inl e"
    using assms by (auto simp: validate_manifest_def)
  also have "\<dots> \<longleftrightarrow> (\<exists>before p after. cm_pipelines m = before @ p # after \<and>
      list_all (node_ok url_parse) before \<and> validate_node url_parse p = Inl e)"
    by (simp add: try_each_Inl_iff validate_node_ok list_all_iff)
  finally show ?thesis
    using rej by metis
qed

definition example_style :: text_overlay_style where
  "example_style = \<lparr> st_font_size = None, st_font_color = None, st_background_color = None,
     st_background_alpha = None, st_padding = None, st_margin = None \<rparr>"

definition example_device :: "str \<Rightarrow> pipeline_node" where
  "example_device pid =
     \<lparr> pn_id = pid, pn_input = ''/dev/video0'', pn_input_type = Device, pn_strategy = Transcode,
       pn_backend = None, pn_network = None, pn_capture = None,
       pn_processing = Some \<lparr> pp_codec = ''h264'', pp_encoder = ''libx264'', pp_preset = ''fast'',
         pp_tune = ''zerolatency'', pp_frame_rate = 30, pp_bitrate = Bitrate 2000000,
         pp_rotation = None \<rparr>,
       pn_overlay = Some \<lparr> ov_layers = [TextLayer ''{camera_id}'' TopLeft example_style] \<rparr>,
       pn_outputs = [] \<rparr>"

definition example_manifest :: "pipeline_node list \<Rightarrow> caml_manifest" where
  "example_manifest ps =
     \<lparr> cm_version = None,
       cm_system = \<lparr> sc_hardware_target = GenericLinux,
         sc_cma_allocation_limit = Some (ByteSize 67108864), sc_media_memory_limit = None \<rparr>,
       cm_pipelines = ps \<rparr>"

theorem manifest_first_error_witness:
  "\<exists>e before p after.
     validate_manifest (\<lambda>s. Inl []) (example_manifest [example_device ''a'',
         example_device ''b''\<lparr>pn_processing := None\<rparr>]) = Inl e \<and>
     [example_device ''a'', example_device ''b''\<lparr>pn_processing := None\<rparr>] = before @ p # after \<and>
     \<not> node_ok (\<lambda>s. Inl []) p"
proof -
  let ?m = "example_manifest [example_device ''a'', example_device ''b''\<lparr>pn_processing := None\<rparr>]"
  obtain e where e: "validate_manifest (\<lambda>s. Inl []) ?m = Inl e"
  proof -
    have "\<not> node_ok (\<lambda>s. Inl []) (example_device ''b''\<lparr>pn_processing := None\<rparr>)"
      by (simp add: node_ok_def profiles_ok_def example_device_def)
    then have "validate_manifest (\<lambda>s. Inl []) ?m \<noteq> Inr ()"
      by (auto simp: validate_manifest_ok manifest_ok_def example_manifest_def)
    then show thesis using that by (cases "validate_manifest (\<lambda>s. Inl []) ?m") auto
  qed
  then show ?thesis
    using manifest_first_error [of ?m "\<lambda>s. Inl []" e]
    by (auto simp: example_manifest_def)
qed

end
