(* ===== verification/Caml_Capability.thy ===== *)
theory Caml_Capability
  imports Caml_Frontend "HOL-Library.Multiset"
begin

text \<open>
  The capability half of \<^verbatim>\<open>crates/caml-core/src/compiler.rs\<close>: what a host offers
  (\<open>HostCapabilities\<close>), how the results of several probes are merged, and what a pipeline
  requires. A \<open>dyn CapabilityProbe\<close> is the function its \<open>capabilities\<close> method computes.

  The interface between the merge and the composite probe is the locale \<open>partial_join\<close>: a
  commutative, associative and idempotent operation that may fail. From these laws alone the
  result of folding a list does not depend on its order; \<open>HostCapabilities::merge\<close> interprets it.
\<close>

section \<open>Interface: a partial join\<close>

fun join_all :: "('a \<Rightarrow> 'a \<Rightarrow> 'a option) \<Rightarrow> 'a \<Rightarrow> 'a list \<Rightarrow> 'a option" where
  "join_all join acc [] = Some acc"
| "join_all join acc (x # xs) = Option.bind (join acc x) (\<lambda>acc'. join_all join acc' xs)"

locale partial_join =
  fixes join :: "'a \<Rightarrow> 'a \<Rightarrow> 'a option"
    and unit :: 'a
  assumes join_comm: "join a b = join b a"
    and join_assoc: "Option.bind (join a b) (\<lambda>x. join x c) = Option.bind (join b c) (join a)"
    and join_unit: "join unit a = Some a"
    and join_idem: "join a a = Some a"
begin

lemma join_all_shift:
  "join_all join acc (x # xs) = Option.bind (join_all join acc xs) (\<lambda>y. join y x)"
proof (induction xs arbitrary: acc)
  case (Cons y ys)
  have "join_all join acc (x # y # ys) =
      Option.bind (Option.bind (join acc x) (\<lambda>a. join a y)) (\<lambda>a. join_all join a ys)"
    by (cases "join acc x") auto
  also have "Option.bind (join acc x) (\<lambda>a. join a y) = Option.bind (join acc y) (\<lambda>a. join a x)"
    by (metis join_assoc join_comm)
  also have "Option.bind (Option.bind (join acc y) (\<lambda>a. join a x)) (\<lambda>a. join_all join a ys) =
      Option.bind (join acc y) (\<lambda>a. join_all join a (x # ys))"
    by (cases "join acc y") auto
  also have "\<dots> = Option.bind (join acc y) (\<lambda>a. Option.bind (join_all join a ys) (\<lambda>z. join z x))"
    using Cons by simp
  also have "\<dots> = Option.bind (join_all join acc (y # ys)) (\<lambda>z. join z x)"
    by (cases "join acc y") auto
  finally show ?case .
qed auto

lemma join_all_append:
  "join_all join acc (xs @ ys) = Option.bind (join_all join acc xs) (\<lambda>a. join_all join a ys)"
proof (induction xs arbitrary: acc)
  case (Cons x xs)
  then show ?case by (cases "join acc x") auto
qed simp

lemma join_all_perm: "mset xs = mset ys \<Longrightarrow> join_all join acc xs = join_all join acc ys"
proof (induction xs arbitrary: ys acc)
  case (Cons x xs)
  then have "x \<in> set ys" by (metis list.set_intros(1) set_mset_mset)
  then obtain us vs where ys: "ys = us @ x # vs" by (meson split_list)
  with Cons.prems have "mset xs = mset (us @ vs)" by simp
  from Cons.IH [OF this] have "join_all join acc (x # xs) = join_all join acc (x # us @ vs)"
    by (cases "join acc x") (simp_all add: Cons.IH [OF \<open>mset xs = mset (us @ vs)\<close>])
  also have "\<dots> = join_all join acc ys"
  proof (cases "join_all join acc us")
    case (Some a)
    have "join_all join acc (x # us @ vs) =
        Option.bind (join_all join acc (x # us)) (\<lambda>b. join_all join b vs)"
      using join_all_append [of acc "x # us" vs] by simp
    also have "\<dots> = join_all join acc ys"
      unfolding join_all_shift [of acc x us] using Some by (simp add: ys join_all_append)
    finally show ?thesis .
  next
    case None
    then have "join_all join acc (x # us) = None"
      by (simp add: join_all_shift del: join_all.simps)
    then have "join_all join acc (x # us @ vs) = None"
      using join_all_append [of acc "x # us" vs] by (simp del: join_all.simps)
    with None ys show ?thesis by (simp add: join_all_append)
  qed
  finally show ?case .
qed simp

lemma join_all_absorb:
  "join_all join acc xs = Some y \<Longrightarrow> x \<in> set xs \<Longrightarrow> join y x = Some y"
proof -
  assume y: "join_all join acc xs = Some y" and x: "x \<in> set xs"
  have "mset xs = mset (x # remove1 x xs)" using x by simp
  then have "join_all join acc (x # remove1 x xs) = Some y"
    using y by (metis join_all_perm)
  then obtain z where z: "join z x = Some y"
    by (auto simp: join_all_shift bind_eq_Some_conv simp del: join_all.simps)
  have "Option.bind (join z x) (\<lambda>a. join a x) = Option.bind (join x x) (join z)"
    by (rule join_assoc)
  then show "join y x = Some y" by (simp add: z join_idem)
qed

end

section \<open>Host capabilities and probes\<close>

datatype pi_model = Pi4 | Pi5

fun pi_model_debug :: "pi_model \<Rightarrow> str" where
  "pi_model_debug Pi4 = ''Pi4''"
| "pi_model_debug Pi5 = ''Pi5''"

record host_capabilities =
  ffmpeg_available :: bool
  v4l2_available :: bool
  libcamera_available :: bool
  rtp_packetization_available :: bool
  host_pi_model :: "pi_model option"
  has_pi4_h264_encoder :: bool
  has_pi5_stateless_decoder :: bool
  has_drawtext_filter :: bool
  has_overlay_filter :: bool
  has_scale_filter :: bool
  has_color_channel_mixer_filter :: bool

definition default_capabilities :: host_capabilities where
  "default_capabilities =
     \<lparr> ffmpeg_available = False, v4l2_available = False, libcamera_available = False,
       rtp_packetization_available = False, host_pi_model = None, has_pi4_h264_encoder = False,
       has_pi5_stateless_decoder = False, has_drawtext_filter = False, has_overlay_filter = False,
       has_scale_filter = False, has_color_channel_mixer_filter = False \<rparr>"

fun merge_pi_model :: "pi_model option \<Rightarrow> pi_model option \<Rightarrow> compile_error + pi_model option" where
  "merge_pi_model (Some l) (Some r) =
     (if l \<noteq> r
      then Inl (ProbeFailure (''capability probes disagreed on the detected Raspberry Pi model: ''
                                @ pi_model_debug l @ '' vs '' @ pi_model_debug r))
      else Inr (Some l))"
| "merge_pi_model (Some l) None = Inr (Some l)"
| "merge_pi_model None (Some r) = Inr (Some r)"
| "merge_pi_model None None = Inr None"

definition merge_capabilities ::
  "host_capabilities \<Rightarrow> host_capabilities \<Rightarrow> compile_error + host_capabilities" where
  "merge_capabilities a b =
     res_bind (merge_pi_model (host_pi_model a) (host_pi_model b)) (\<lambda>model. Inr
       \<lparr> ffmpeg_available = ffmpeg_available a \<or> ffmpeg_available b,
         v4l2_available = v4l2_available a \<or> v4l2_available b,
         libcamera_available = libcamera_available a \<or> libcamera_available b,
         rtp_packetization_available =
           rtp_packetization_available a \<or> rtp_packetization_available b,
         host_pi_model = model,
         has_pi4_h264_encoder = has_pi4_h264_encoder a \<or> has_pi4_h264_encoder b,
         has_pi5_stateless_decoder = has_pi5_stateless_decoder a \<or> has_pi5_stateless_decoder b,
         has_drawtext_filter = has_drawtext_filter a \<or> has_drawtext_filter b,
         has_overlay_filter = has_overlay_filter a \<or> has_overlay_filter b,
         has_scale_filter = has_scale_filter a \<or> has_scale_filter b,
         has_color_channel_mixer_filter =
           has_color_channel_mixer_filter a \<or> has_color_channel_mixer_filter b \<rparr>)"

type_synonym capability_probe = "hardware_target \<Rightarrow> compile_error + host_capabilities"

definition static_probe :: "host_capabilities \<Rightarrow> capability_probe" where
  "static_probe capabilities target = Inr capabilities"

fun composite_loop ::
  "hardware_target \<Rightarrow> host_capabilities \<Rightarrow> capability_probe list \<Rightarrow> compile_error + host_capabilities" where
  "composite_loop target merged [] = Inr merged"
| "composite_loop target merged (probe # probes) =
     res_bind (probe target) (\<lambda>capabilities.
       res_bind (merge_capabilities merged capabilities) (\<lambda>merged'.
         composite_loop target merged' probes))"

definition composite_probe :: "capability_probe list \<Rightarrow> capability_probe" where
  "composite_probe probes target = composite_loop target default_capabilities probes"

section \<open>The merge is a partial join\<close>

definition ok :: "'e + 'a \<Rightarrow> 'a option" where
  "ok r = (case r of Inl e \<Rightarrow> None | Inr x \<Rightarrow> Some x)"

definition capability_join ::
  "host_capabilities \<Rightarrow> host_capabilities \<Rightarrow> host_capabilities option" where
  "capability_join a b = ok (merge_capabilities a b)"

lemma ok_simps [simp]: "ok (Inl e) = None" "ok (Inr x) = Some x"
  by (simp_all add: ok_def)

lemma ok_Some_iff: "ok r = Some x \<longleftrightarrow> r = Inr x"
  by (cases r) auto

lemma ok_res_bind: "ok (res_bind r f) = Option.bind (ok r) (\<lambda>x. ok (f x))"
  by (cases r) auto

lemma ok_merge_pi_model:
  "ok (merge_pi_model a b) =
     (case a of None \<Rightarrow> Some b
      | Some l \<Rightarrow> (case b of None \<Rightarrow> Some a | Some r \<Rightarrow> if l = r then Some a else None))"
  by (cases a; cases b) auto

lemmas capability_join_unfold =
  capability_join_def merge_capabilities_def ok_res_bind ok_merge_pi_model

interpretation caps: partial_join capability_join default_capabilities
proof
  fix a b c :: host_capabilities
  show "capability_join a b = capability_join b a"
    by (auto simp: capability_join_unfold split: option.splits)
  show "Option.bind (capability_join a b) (\<lambda>x. capability_join x c) =
      Option.bind (capability_join b c) (capability_join a)"
    by (auto simp: capability_join_unfold split: option.splits)
  show "capability_join default_capabilities a = Some a"
    by (simp add: capability_join_unfold default_capabilities_def split: option.split)
  show "capability_join a a = Some a"
    by (simp add: capability_join_unfold split: option.split)
qed


section \<open>Composite probes\<close>

lemma composite_loop_join:
  "list_all2 (\<lambda>probe c. probe target = Inr c) probes cs \<Longrightarrow>
     ok (composite_loop target merged probes) = join_all capability_join merged cs"
proof (induction probes arbitrary: merged cs)
  case (Cons probe probes)
  then obtain c cs' where cs: "cs = c # cs'" "probe target = Inr c"
    "list_all2 (\<lambda>probe c. probe target = Inr c) probes cs'"
    by (auto simp: list_all2_Cons1)
  then show ?case
    using Cons.IH [OF cs(3)] by (simp add: ok_res_bind capability_join_def)
qed simp

lemma composite_loop_Inr:
  "composite_loop target merged probes = Inr c \<Longrightarrow>
     \<exists>cs. list_all2 (\<lambda>probe c. probe target = Inr c) probes cs"
proof (induction probes arbitrary: merged)
  case (Cons probe probes)
  then show ?case by (fastforce simp: result_simps list_all2_Cons1)
qed auto

lemma list_all2_probe_perm:
  fixes probes :: "capability_probe list"
  assumes "mset probes = mset probes'" "list_all2 (\<lambda>probe c. probe target = Inr c) probes cs"
  shows "\<exists>cs'. list_all2 (\<lambda>probe c. probe target = Inr c) probes' cs' \<and> mset cs' = mset cs"
proof (intro exI conjI)
  let ?f = "\<lambda>probe :: capability_probe. projr (probe target)"
  have cs: "cs = map ?f probes"
    using assms(2) by (induction rule: list_all2_induct) auto
  have "\<forall>p \<in> set probes. probe_ok p" if "probe_ok = (\<lambda>p. p target = Inr (?f p))" for probe_ok
    using assms(2) that by (induction rule: list_all2_induct) auto
  then show "list_all2 (\<lambda>probe c. probe target = Inr c) probes' (map ?f probes')"
    using mset_eq_setD [OF assms(1)] by (auto simp: list_all2_map2 intro!: list.rel_refl_strong)
  show "mset (map ?f probes') = mset cs"
    using assms(1) cs by (metis mset_map)
qed

lemma composite_probe_perm:
  assumes "mset probes = mset probes'"
  shows "ok (composite_probe probes target) = ok (composite_probe probes' target)"
proof -
  have le: "ok (composite_probe ps target) = Some c \<Longrightarrow> ok (composite_probe ps' target) = Some c"
    if perm: "mset ps = mset ps'" for ps ps' c
  proof -
    assume c: "ok (composite_probe ps target) = Some c"
    then have "composite_loop target default_capabilities ps = Inr c"
      by (simp add: composite_probe_def ok_Some_iff)
    from composite_loop_Inr [OF this] obtain cs
      where cs: "list_all2 (\<lambda>probe c. probe target = Inr c) ps cs" ..
    obtain cs' where cs': "list_all2 (\<lambda>probe c. probe target = Inr c) ps' cs'" "mset cs' = mset cs"
      using list_all2_probe_perm [OF perm cs] by blast
    show "ok (composite_probe ps' target) = Some c"
      using c composite_loop_join [OF cs] composite_loop_join [OF cs'(1)] caps.join_all_perm [OF cs'(2)]
      by (simp add: composite_probe_def)
  qed
  show ?thesis
    using le [OF assms] le [OF assms [symmetric]] by (metis not_Some_eq)
qed

text \<open>
  The outcome of a composite probe does not depend on the order of its probes: permuting
  them gives the same capabilities, and if it fails in one order (a probe fails, or two probes
  disagree on the Raspberry Pi model) it fails in every order.
\<close>

theorem composite_probe_order_irrelevant:
  assumes "mset probes = mset probes'"
  shows "ok (composite_probe probes target) = ok (composite_probe probes' target)"
  using assms by (rule composite_probe_perm)

theorem composite_probe_order_irrelevant_witness:
  "ok (composite_probe [static_probe (default_capabilities\<lparr>host_pi_model := Some Pi4\<rparr>),
          static_probe (default_capabilities\<lparr>ffmpeg_available := True\<rparr>)] GenericLinux) =
   ok (composite_probe [static_probe (default_capabilities\<lparr>ffmpeg_available := True\<rparr>),
          static_probe (default_capabilities\<lparr>host_pi_model := Some Pi4\<rparr>)] GenericLinux)"
  by (rule composite_probe_order_irrelevant) simp

text \<open>
  A composite probe that succeeds reports everything each of its probes reports: merging any
  probe's capabilities into the result again changes nothing (so no reported capability is lost
  and the reported Raspberry Pi models all agree with the result).
\<close>

theorem composite_probe_upper_bound:
  assumes "composite_probe probes target = Inr c"
    and "probe \<in> set probes"
  shows "\<exists>p. probe target = Inr p \<and> merge_capabilities c p = Inr c"
proof -
  obtain cs where cs: "list_all2 (\<lambda>probe c. probe target = Inr c) probes cs"
    using composite_loop_Inr [OF assms(1) [unfolded composite_probe_def]] ..
  obtain i where "i < length probes" "probes ! i = probe"
    using assms(2) by (auto simp: in_set_conv_nth)
  with cs have p: "cs ! i \<in> set cs" "probe target = Inr (cs ! i)"
    by (auto simp: list_all2_conv_all_nth)
  have "join_all capability_join default_capabilities cs = Some c"
    using assms(1) composite_loop_join [OF cs, of default_capabilities] by (simp add: composite_probe_def)
  then have "capability_join c (cs ! i) = Some c"
    using p(1) by (rule caps.join_all_absorb)
  then show ?thesis
    using p(2) by (simp add: capability_join_def ok_Some_iff)
qed

theorem composite_probe_upper_bound_witness:
  "\<exists>p. static_probe (default_capabilities\<lparr>v4l2_available := True\<rparr>) GenericLinux = Inr p \<and>
     merge_capabilities (default_capabilities\<lparr>v4l2_available := True, ffmpeg_available := True\<rparr>) p =
       Inr (default_capabilities\<lparr>v4l2_available := True, ffmpeg_available := True\<rparr>)"
proof -
  let ?v = "static_probe (default_capabilities\<lparr>v4l2_available := True\<rparr>)"
  let ?f = "static_probe (default_capabilities\<lparr>ffmpeg_available := True\<rparr>)"
  have "composite_probe [?v, ?f] GenericLinux =
      Inr (default_capabilities\<lparr>v4l2_available := True, ffmpeg_available := True\<rparr>)"
    by (simp add: composite_probe_def static_probe_def merge_capabilities_def default_capabilities_def)
  moreover have "?v \<in> set [?v, ?f]" by simp
  ultimately show ?thesis by (rule composite_probe_upper_bound)
qed

section \<open>Requirements\<close>

datatype capability_requirement =
    ReqFfmpeg
  | ReqV4l2
  | ReqLibcamera
  | RtpPacketization
  | Pi4HardwareEncoder
  | Pi5StatelessDecoder
  | DrawTextFilter
  | OverlayFilter
  | ScaleFilter
  | ColorChannelMixerFilter

definition unsupported :: "str \<Rightarrow> str \<Rightarrow> compile_error + 'a" where
  "unsupported pid rest = Inl (UnsupportedCapability (pipeline_msg pid rest))"

definition require :: "bool \<Rightarrow> str \<Rightarrow> str \<Rightarrow> compile_error + unit" where
  "require available pid rest = (if \<not> available then unsupported pid rest else Inr ())"

fun validate_for ::
  "capability_requirement \<Rightarrow> str \<Rightarrow> host_capabilities \<Rightarrow> compile_error + unit" where
  "validate_for ReqFfmpeg pid caps =
     require (ffmpeg_available caps) pid
       ''requires FFmpeg but no FFmpeg capability probe was available''"
| "validate_for ReqV4l2 pid caps =
     require (v4l2_available caps) pid
       ''requires a V4L2 backend but no V4L2 capability was detected''"
| "validate_for ReqLibcamera pid caps =
     require (libcamera_available caps) pid
       ''requires a libcamera backend but no libcamera capability was detected''"
| "validate_for RtpPacketization pid caps =
     require (rtp_packetization_available caps) pid
       ''requires RTP packetization support but none was detected''"
| "validate_for Pi4HardwareEncoder pid caps =
     require (has_pi4_h264_encoder caps) pid
       ''requires a Raspberry Pi 4 hardware encoder that was not detected''"
| "validate_for Pi5StatelessDecoder pid caps =
     require (has_pi5_stateless_decoder caps) pid
       ''requires a Raspberry Pi 5 stateless decoder that was not detected''"
| "validate_for DrawTextFilter pid caps =
     require (has_drawtext_filter caps) pid
       ''requires the FFmpeg drawtext filter but it was not detected''"
| "validate_for OverlayFilter pid caps =
     require (has_overlay_filter caps) pid
       ''requires the FFmpeg overlay filter but it was not detected''"
| "validate_for ScaleFilter pid caps =
     require (has_scale_filter caps) pid
       ''requires the FFmpeg scale filter but it was not detected''"
| "validate_for ColorChannelMixerFilter pid caps =
     require (has_color_channel_mixer_filter caps) pid
       ''requires the FFmpeg colorchannelmixer filter but it was not detected''"

text \<open>The capability a requirement asks for.\<close>

fun provides :: "host_capabilities \<Rightarrow> capability_requirement \<Rightarrow> bool" where
  "provides caps ReqFfmpeg = ffmpeg_available caps"
| "provides caps ReqV4l2 = v4l2_available caps"
| "provides caps ReqLibcamera = libcamera_available caps"
| "provides caps RtpPacketization = rtp_packetization_available caps"
| "provides caps Pi4HardwareEncoder = has_pi4_h264_encoder caps"
| "provides caps Pi5StatelessDecoder = has_pi5_stateless_decoder caps"
| "provides caps DrawTextFilter = has_drawtext_filter caps"
| "provides caps OverlayFilter = has_overlay_filter caps"
| "provides caps ScaleFilter = has_scale_filter caps"
| "provides caps ColorChannelMixerFilter = has_color_channel_mixer_filter caps"

lemma validate_for_ok: "validate_for r pid caps = Inr () \<longleftrightarrow> provides caps r"
  by (cases r) (auto simp: require_def unsupported_def)

end
