(* ===== verification/Caml_Template.thy ===== *)
theory Caml_Template
  imports Caml_Error
begin

text \<open>
  The overlay templates of \<^verbatim>\<open>crates/caml-core/src/compiler.rs\<close>: \<open>expand_overlay_template\<close> and
  \<open>overlay_variables_for_pipeline\<close>. A \<open>HashMap<String, String>\<close> is a map. The braces are ASCII,
  so scanning UTF-8 bytes finds the same braces as scanning characters.
\<close>

section \<open>The expansion\<close>

text \<open>
  The inner loop: read up to the closing brace. \<open>None\<close> is an unterminated placeholder, otherwise
  the key and what is left of the template.
\<close>

fun scan_key :: "str \<Rightarrow> (str \<times> str) option" where
  "scan_key [] = None"
| "scan_key (c # cs) =
     (if c = CHR ''}'' then Some ([], cs)
      else map_option (\<lambda>(key, rest). (c # key, rest)) (scan_key cs))"

lemma scan_key_length: "scan_key cs = Some (key, rest) \<Longrightarrow> length rest < length cs"
  by (induction cs arbitrary: key) (fastforce split: if_splits)+

definition template_error :: "str \<Rightarrow> str \<Rightarrow> compile_error + 'a" where
  "template_error pid rest = Inl (InvalidConfiguration (pipeline_msg pid rest))"

function expand_overlay_template ::
  "str \<Rightarrow> (str \<rightharpoonup> str) \<Rightarrow> str \<Rightarrow> compile_error + str" where
  "expand_overlay_template pid vars [] = Inr []"
| "expand_overlay_template pid vars (ch # chars) =
     (if ch = CHR ''{''
      then (case scan_key chars of
          None \<Rightarrow> template_error pid
                    ''overlay template contains an unterminated variable placeholder''
        | Some (raw_key, rest) \<Rightarrow>
            let key = trim raw_key in
            case vars key of
              None \<Rightarrow> template_error pid
                        (''overlay template references unknown variable '' @ quoted key)
            | Some v \<Rightarrow> res_bind (expand_overlay_template pid vars rest) (\<lambda>out. Inr (v @ out)))
      else if ch = CHR ''}''
      then template_error pid ''overlay template contains an unmatched closing brace''
      else res_bind (expand_overlay_template pid vars chars) (\<lambda>out. Inr (ch # out)))"
  by pat_completeness auto
termination
  by (relation "measure (\<lambda>(pid, vars, chars). length chars)")
    (auto dest: scan_key_length)

definition overlay_variables_for_pipeline :: "str \<Rightarrow> (str \<rightharpoonup> str) \<Rightarrow> (str \<rightharpoonup> str)" where
  "overlay_variables_for_pipeline pid vars =
     vars(''camera_id'' \<mapsto> pid, ''pipeline_id'' \<mapsto> pid)"

section \<open>What a template means\<close>

text \<open>
  A template is a sequence of literal characters and placeholders; expanding it replaces each
  placeholder by the value of its trimmed key.
\<close>

datatype segment = Lit char | Var str

fun render :: "segment \<Rightarrow> str" where
  "render (Lit c) = [c]"
| "render (Var key) = CHR ''{'' # key @ ''}''"

fun segment_ok :: "(str \<rightharpoonup> str) \<Rightarrow> segment \<Rightarrow> bool" where
  "segment_ok vars (Lit c) \<longleftrightarrow> c \<noteq> CHR ''{'' \<and> c \<noteq> CHR ''}''"
| "segment_ok vars (Var key) \<longleftrightarrow> CHR ''}'' \<notin> set key \<and> trim key \<in> dom vars"

fun segment_value :: "(str \<rightharpoonup> str) \<Rightarrow> segment \<Rightarrow> str" where
  "segment_value vars (Lit c) = [c]"
| "segment_value vars (Var key) = the (vars (trim key))"

definition template_denotes :: "(str \<rightharpoonup> str) \<Rightarrow> str \<Rightarrow> str \<Rightarrow> bool" where
  "template_denotes vars template out \<longleftrightarrow>
     (\<exists>segs. list_all (segment_ok vars) segs \<and> template = concat (map render segs) \<and>
        out = concat (map (segment_value vars) segs))"

lemma scan_key_Some:
  "scan_key cs = Some (key, rest) \<longleftrightarrow> cs = key @ CHR ''}'' # rest \<and> CHR ''}'' \<notin> set key"
proof (induction cs arbitrary: key)
  case (Cons c cs)
  show ?case
  proof (cases key)
    case Nil
    then show ?thesis by (auto split: if_splits)
  next
    case (Cons k ks)
    then show ?thesis using Cons.IH by (auto split: if_splits)
  qed
qed simp

lemma expand_segments:
  "list_all (segment_ok vars) segs \<Longrightarrow>
     expand_overlay_template pid vars (concat (map render segs)) =
       Inr (concat (map (segment_value vars) segs))"
proof (induction segs)
  case (Cons seg segs)
  show ?case
  proof (cases seg)
    case (Lit c)
    with Cons show ?thesis by simp
  next
    case (Var key)
    with Cons.prems have "scan_key (key @ CHR ''}'' # concat (map render segs)) =
        Some (key, concat (map render segs))"
      by (simp add: scan_key_Some)
    with Var Cons show ?thesis by (auto simp: Let_def)
  qed
qed simp

lemma template_denotes_Nil: "template_denotes vars [] []"
  unfolding template_denotes_def by (rule exI [of _ "[]"]) simp

lemma template_denotes_Cons:
  "segment_ok vars seg \<Longrightarrow> template_denotes vars t out \<Longrightarrow>
     template_denotes vars (render seg @ t) (segment_value vars seg @ out)"
  unfolding template_denotes_def
  by (elim exE conjE, rule_tac x = "seg # segs" in exI) simp

lemma expand_denotes:
  "expand_overlay_template pid vars t = Inr out \<Longrightarrow> template_denotes vars t out"
proof (induction pid vars t arbitrary: out rule: expand_overlay_template.induct)
  case (1 pid vars)
  then show ?case by (simp add: template_denotes_Nil)
next
  case (2 pid vars ch chars)
  show ?case
  proof (cases "ch = CHR ''{''")
    case True
    with "2.prems" obtain key rest v out' where k: "scan_key chars = Some (key, rest)"
      "vars (trim key) = Some v" "expand_overlay_template pid vars rest = Inr out'" "out = v @ out'"
      by (auto simp: template_error_def Let_def result_simps split: option.splits)
    then have "template_denotes vars rest out'"
      using "2.IH"(1) [OF True k(1) refl refl k(2,3)] by simp
    then have "template_denotes vars (render (Var key) @ rest) (segment_value vars (Var key) @ out')"
      using k by (intro template_denotes_Cons) (auto simp: scan_key_Some)
    then show ?thesis using True k by (auto simp: scan_key_Some)
  next
    case False
    with "2.prems" obtain out' where o: "ch \<noteq> CHR ''}''"
      "expand_overlay_template pid vars chars = Inr out'" "out = ch # out'"
      by (auto simp: template_error_def result_simps split: if_splits)
    then have "template_denotes vars chars out'" using "2.IH"(2) False by simp
    then have "template_denotes vars (render (Lit ch) @ chars) (segment_value vars (Lit ch) @ out')"
      using o False by (intro template_denotes_Cons) auto
    with o show ?thesis by simp
  qed
qed

lemma expand_error_names_pipeline:
  "expand_overlay_template pid vars t = Inl e \<Longrightarrow>
     \<exists>rest. e = InvalidConfiguration (pipeline_msg pid rest)"
proof (induction pid vars t rule: expand_overlay_template.induct)
  case (2 pid vars ch chars)
  show ?case
  proof (cases "ch = CHR ''{''")
    case True
    then show ?thesis
      using "2.prems" "2.IH"(1) [OF True]
      by (auto simp: template_error_def Let_def result_simps split: option.splits)
  next
    case False
    then show ?thesis
      using "2.prems" "2.IH"(2) [OF False]
      by (auto simp: template_error_def result_simps split: if_splits)
  qed
qed simp

section \<open>Claims\<close>

text \<open>
  C24: a template expands to a text exactly if it is a sequence of brace-free characters and
  closed placeholders whose trimmed keys are all defined, and the text is then that sequence with
  each placeholder replaced by its variable's value; substituted values are never expanded again.
\<close>

theorem overlay_template_exact:
  "expand_overlay_template pid vars t = Inr out \<longleftrightarrow> template_denotes vars t out"
  using expand_denotes expand_segments by (auto simp: template_denotes_def)

text \<open>
  Every failure of the expansion is an \<open>InvalidConfiguration\<close> that names the pipeline, and on
  the variables of a pipeline the keys \<open>camera_id\<close> and \<open>pipeline_id\<close> always resolve to the
  pipeline's id, whatever the caller's variables define.
\<close>

theorem overlay_template_errors:
  "((\<exists>out. expand_overlay_template pid vars t = Inr out) \<or>
    (\<exists>rest. expand_overlay_template pid vars t = Inl (InvalidConfiguration (pipeline_msg pid rest)))) \<and>
   expand_overlay_template pid (overlay_variables_for_pipeline pid vars) ''{camera_id}{ pipeline_id }''
     = Inr (pid @ pid)"
proof
  show "(\<exists>out. expand_overlay_template pid vars t = Inr out) \<or>
    (\<exists>rest. expand_overlay_template pid vars t = Inl (InvalidConfiguration (pipeline_msg pid rest)))"
    using expand_error_names_pipeline by (cases "expand_overlay_template pid vars t") auto
  have "trim ''camera_id'' = ''camera_id''" "trim '' pipeline_id '' = ''pipeline_id''"
    by code_simp+
  then show "expand_overlay_template pid (overlay_variables_for_pipeline pid vars)
      ''{camera_id}{ pipeline_id }'' = Inr (pid @ pid)"
    by (simp add: overlay_variables_for_pipeline_def)
qed

end
