(* ===== verification/Caml_Compiler.thy ===== *)
theory Caml_Compiler
  imports Complex_Main Caml_Capability Caml_Template
begin

text \<open>
  The compiler of \<^verbatim>\<open>crates/caml-core/src/compiler.rs\<close>: a manifest is turned into a graph of
  compiled pipelines with a resource plan. This theory holds the data model, the passes over one
  pipeline and \<open>compile_internal\<close> with its entry points; the probes and the templates are in
  \<open>Caml_Capability\<close> and \<open>Caml_Template\<close>. A \<open>HashMap\<close> of overlay variables is a map and the
  \<open>HashSet\<close> of ids a set. An \<open>f32\<close> is the rational number it stands for.
\<close>

section \<open>Compiled form\<close>

datatype resolved_input_backend = FfmpegRtsp | V4l2Device | LibcameraDevice | AutoDevice

datatype execution_mode = EncodedPackets | DecodedFrames

datatype codec_path = PathPassthrough | SoftwareTranscode | HardwareTranscode | PathHardwareDecode

datatype resource_warning = HighMemoryUsage

fun resource_warning_display :: "resource_warning \<Rightarrow> str" where
  "resource_warning_display HighMemoryUsage =
     ''Estimated total memory usage (buffers + backend) exceeds configured limit''"

record buffer_pool_plan =
  bp_pipeline_id :: str
  bp_buffer_size :: usize
  bp_buffer_count :: usize
  bp_estimated_bytes :: u64

record compiled_system =
  cs_hardware_target :: hardware_target
  cs_cma_allocation_limit_bytes :: u64

record resource_plan =
  rp_configured_limit_bytes :: u64
  rp_estimated_pool_bytes :: u64
  rp_estimated_backend_bytes :: "u64 option"
  rp_buffer_pools :: "buffer_pool_plan list"
  rp_warnings :: "resource_warning list"

record compiled_input =
  ci_kind :: input_type
  ci_source :: str

record compiled_network_profile =
  cn_transport :: transport
  cn_packet_size_limit :: usize
  cn_stall_timeout :: duration

record compiled_processing_profile =
  cp_codec :: str
  cp_encoder :: str
  cp_preset :: str
  cp_tune :: str
  cp_out_frame_rate :: u32
  cp_bitrate_bps :: u64
  cp_rotation :: "i32 option"

record compiled_text_overlay_style =
  ts_position :: overlay_position
  ts_font_size :: u32
  ts_font_color :: str
  ts_background_color :: str
  ts_background_alpha :: u8
  ts_padding :: u32
  ts_margin :: u32

record compiled_timestamp_overlay =
  ct_format :: str
  ct_timezone :: overlay_timezone
  ct_style :: compiled_text_overlay_style

record compiled_text_overlay =
  cx_text :: str
  cx_style :: compiled_text_overlay_style

record compiled_watermark_overlay =
  cw_image_path :: str
  cw_position :: overlay_position
  cw_max_width_px :: "u32 option"
  cw_opacity :: u8
  cw_margin :: u32

datatype compiled_overlay_layer =
    CompiledTimestamp compiled_timestamp_overlay
  | CompiledText compiled_text_overlay
  | CompiledWatermark compiled_watermark_overlay

record compiled_overlay_profile =
  co_layers :: "compiled_overlay_layer list"

datatype recovery_class = RecoverNetwork | RecoverDevice | RecoverHardware

record recovery_policy =
  rec_class :: recovery_class
  max_restarts :: u32
  initial_backoff :: duration
  max_backoff :: duration
  backoff_multiplier :: rat
  reset_after :: duration

record runtime_policy =
  rt_buffer_size :: usize
  rt_watchdog_timeout :: duration
  rt_buffer_count :: usize

record compiled_pipeline =
  cpl_id :: str
  cpl_input :: compiled_input
  cpl_strategy :: stream_strategy
  cpl_network :: "compiled_network_profile option"
  cpl_processing :: "compiled_processing_profile option"
  cpl_overlay :: "compiled_overlay_profile option"
  cpl_runtime :: runtime_policy
  cpl_resolved_backend :: resolved_input_backend
  cpl_execution_mode :: execution_mode
  cpl_codec_path :: codec_path
  cpl_recovery :: recovery_policy
  cpl_capability_requirements :: "capability_requirement list"
  cpl_outputs :: "output_profile list"

record compiled_graph =
  cg_system :: compiled_system
  cg_pipelines :: "compiled_pipeline list"
  cg_resource_plan :: resource_plan

definition sentinel :: compiled_pipeline where
  "sentinel =
     \<lparr> cpl_id = ''__sentinel__'', cpl_input = \<lparr> ci_kind = Rtsp, ci_source = [] \<rparr>,
       cpl_strategy = Passthrough, cpl_network = None, cpl_processing = None, cpl_overlay = None,
       cpl_runtime = \<lparr> rt_buffer_size = 1, rt_watchdog_timeout = from_secs 0,
         rt_buffer_count = 0 \<rparr>,
       cpl_resolved_backend = FfmpegRtsp, cpl_execution_mode = EncodedPackets,
       cpl_codec_path = PathPassthrough,
       cpl_recovery = \<lparr> rec_class = RecoverNetwork, max_restarts = 0,
         initial_backoff = from_millis 0, max_backoff = from_millis 0, backoff_multiplier = 1,
         reset_after = from_millis 0 \<rparr>,
       cpl_capability_requirements = [], cpl_outputs = [] \<rparr>"

section \<open>One pipeline\<close>

definition compile_network_profile :: "network_profile \<Rightarrow> compiled_network_profile" where
  "compile_network_profile profile =
     \<lparr> cn_transport = np_transport profile, cn_packet_size_limit = np_packet_size_limit profile,
       cn_stall_timeout = np_stall_timeout profile \<rparr>"

definition compile_processing_profile :: "processing_profile \<Rightarrow> compiled_processing_profile" where
  "compile_processing_profile profile =
     \<lparr> cp_codec = pp_codec profile, cp_encoder = pp_encoder profile, cp_preset = pp_preset profile,
       cp_tune = pp_tune profile, cp_out_frame_rate = pp_frame_rate profile,
       cp_bitrate_bps = as_bits_per_second (pp_bitrate profile),
       cp_rotation = pp_rotation profile \<rparr>"

fun default_timestamp_format :: "overlay_timezone \<Rightarrow> str" where
  "default_timestamp_format Utc = ''%Y-%m-%d %H:%M:%S UTC''"
| "default_timestamp_format Local = ''%Y-%m-%d %H:%M:%S''"

definition compile_text_overlay_style ::
  "overlay_position \<Rightarrow> text_overlay_style \<Rightarrow> compiled_text_overlay_style" where
  "compile_text_overlay_style position style =
     \<lparr> ts_position = position,
       ts_font_size = unwrap_or 18 (st_font_size style),
       ts_font_color = unwrap_or ''white'' (st_font_color style),
       ts_background_color = unwrap_or ''black'' (st_background_color style),
       ts_background_alpha = unwrap_or 60 (st_background_alpha style),
       ts_padding = unwrap_or 6 (st_padding style),
       ts_margin = unwrap_or 12 (st_margin style) \<rparr>"

fun compile_overlay_layer ::
  "str \<Rightarrow> (str \<rightharpoonup> str) \<Rightarrow> overlay_layer \<Rightarrow> compile_error + compiled_overlay_layer" where
  "compile_overlay_layer pid vars (TimestampLayer position source timezone format style) =
     Inr (CompiledTimestamp
       \<lparr> ct_format = unwrap_or (default_timestamp_format timezone) format,
         ct_timezone = timezone, ct_style = compile_text_overlay_style position style \<rparr>)"
| "compile_overlay_layer pid vars (TextLayer text position style) =
     res_bind (expand_overlay_template pid vars text) (\<lambda>expanded. Inr (CompiledText
       \<lparr> cx_text = expanded, cx_style = compile_text_overlay_style position style \<rparr>))"
| "compile_overlay_layer pid vars (WatermarkLayer image_path position max_width_px opacity margin) =
     Inr (CompiledWatermark
       \<lparr> cw_image_path = image_path, cw_position = position, cw_max_width_px = max_width_px,
         cw_opacity = unwrap_or 100 opacity, cw_margin = unwrap_or 12 margin \<rparr>)"

definition compile_overlay_profile ::
  "str \<Rightarrow> (str \<rightharpoonup> str) \<Rightarrow> overlay_profile \<Rightarrow> compile_error + compiled_overlay_profile" where
  "compile_overlay_profile pid vars profile =
     (let pipeline_overlay_variables = overlay_variables_for_pipeline pid vars in
      res_bind (try_map (compile_overlay_layer pid pipeline_overlay_variables) (ov_layers profile))
        (\<lambda>layers. Inr \<lparr> co_layers = layers \<rparr>))"

definition resolve_backend :: "pipeline_node \<Rightarrow> resolved_input_backend" where
  "resolve_backend p =
     (case pn_input_type p of
        Rtsp \<Rightarrow> FfmpegRtsp
      | Device \<Rightarrow> (case unwrap_or Auto (pn_backend p) of
            Auto \<Rightarrow> AutoDevice | Ffmpeg \<Rightarrow> AutoDevice
          | V4l2 \<Rightarrow> V4l2Device | Libcamera \<Rightarrow> LibcameraDevice))"

fun resolve_execution_mode :: "stream_strategy \<Rightarrow> execution_mode" where
  "resolve_execution_mode Passthrough = EncodedPackets"
| "resolve_execution_mode Transcode = DecodedFrames"
| "resolve_execution_mode HardwareDecode = DecodedFrames"

text \<open>The encoder names that select the hardware encoder, after trimming and lower-casing.\<close>

definition names_hardware_encoder :: "str \<Rightarrow> bool" where
  "names_hardware_encoder name =
     (let encoder = to_ascii_lowercase (trim name) in encoder = ''hardware'' \<or> encoder = ''v4l2m2m'')"

definition resolve_codec_path :: "pipeline_node \<Rightarrow> codec_path" where
  "resolve_codec_path p =
     (case pn_strategy p of
        Passthrough \<Rightarrow> PathPassthrough
      | HardwareDecode \<Rightarrow> PathHardwareDecode
      | Transcode \<Rightarrow>
          if is_some_and (\<lambda>processing. names_hardware_encoder (pp_encoder processing)) (pn_processing p)
          then HardwareTranscode else SoftwareTranscode)"

fun is_text_layer :: "overlay_layer \<Rightarrow> bool" where
  "is_text_layer (TimestampLayer _ _ _ _ _) = True"
| "is_text_layer (TextLayer _ _ _) = True"
| "is_text_layer (WatermarkLayer _ _ _ _ _) = False"

definition overlay_uses_text :: "overlay_profile option \<Rightarrow> bool" where
  "overlay_uses_text overlay = is_some_and (\<lambda>profile. list_ex is_text_layer (ov_layers profile)) overlay"

definition overlay_uses_watermark :: "overlay_profile option \<Rightarrow> bool" where
  "overlay_uses_watermark overlay =
     is_some_and (\<lambda>profile. list_ex (\<lambda>l. \<not> is_text_layer l) (ov_layers profile)) overlay"

fun is_webrtc :: "output_profile \<Rightarrow> bool" where
  "is_webrtc (WebrtcRtp _ _ _ _ _ _ _) = True"
| "is_webrtc (Recording _ _) = False"

definition input_requirements :: "pipeline_node \<Rightarrow> capability_requirement list" where
  "input_requirements p =
     (case pn_input_type p of
        Rtsp \<Rightarrow> [ReqFfmpeg]
      | Device \<Rightarrow> (case unwrap_or Auto (pn_backend p) of
            Auto \<Rightarrow> [] | Ffmpeg \<Rightarrow> [ReqFfmpeg] | V4l2 \<Rightarrow> [ReqV4l2] | Libcamera \<Rightarrow> [ReqLibcamera]))"

definition capability_requirements_for :: "pipeline_node \<Rightarrow> capability_requirement list" where
  "capability_requirements_for p =
     input_requirements p
     @ map (\<lambda>output. RtpPacketization) (filter is_webrtc (pn_outputs p))
     @ (if resolve_codec_path p = HardwareTranscode then [Pi4HardwareEncoder] else [])
     @ (if pn_strategy p = HardwareDecode then [Pi5StatelessDecoder] else [])
     @ (if overlay_uses_text (pn_overlay p) then [DrawTextFilter] else [])
     @ (if overlay_uses_watermark (pn_overlay p)
        then [OverlayFilter, ScaleFilter, ColorChannelMixerFilter] else [])"

definition recovery_class_for :: "pipeline_node \<Rightarrow> recovery_class" where
  "recovery_class_for p =
     (case (pn_input_type p, pn_strategy p) of
        (_, HardwareDecode) \<Rightarrow> RecoverHardware
      | (Rtsp, _) \<Rightarrow> RecoverNetwork
      | (Device, _) \<Rightarrow> RecoverDevice)"

fun recovery_policy_of :: "recovery_class \<Rightarrow> recovery_policy" where
  "recovery_policy_of RecoverNetwork =
     \<lparr> rec_class = RecoverNetwork, max_restarts = 5, initial_backoff = from_millis 250,
       max_backoff = from_secs 5, backoff_multiplier = 2, reset_after = from_secs 30 \<rparr>"
| "recovery_policy_of RecoverDevice =
     \<lparr> rec_class = RecoverDevice, max_restarts = 3, initial_backoff = from_secs 1,
       max_backoff = from_secs 30, backoff_multiplier = 2, reset_after = from_secs 60 \<rparr>"
| "recovery_policy_of RecoverHardware =
     \<lparr> rec_class = RecoverHardware, max_restarts = 3, initial_backoff = from_secs 2,
       max_backoff = from_secs 60, backoff_multiplier = 2, reset_after = from_secs 120 \<rparr>"

definition recovery_policy_for :: "pipeline_node \<Rightarrow> recovery_policy" where
  "recovery_policy_for p = recovery_policy_of (recovery_class_for p)"

fun buffer_count_for :: "stream_strategy \<Rightarrow> usize" where
  "buffer_count_for Passthrough = 100"
| "buffer_count_for Transcode = 64"
| "buffer_count_for HardwareDecode = 32"

definition compile_pipeline ::
  "(str \<rightharpoonup> str) \<Rightarrow> pipeline_node \<Rightarrow> compile_error + compiled_pipeline" where
  "compile_pipeline vars p =
     (let network = map_option compile_network_profile (pn_network p);
          processing = map_option compile_processing_profile (pn_processing p) in
      res_bind (case pn_overlay p of
                  None \<Rightarrow> Inr None
                | Some profile \<Rightarrow>
                    res_bind (compile_overlay_profile (pn_id p) vars profile) (\<lambda>o'. Inr (Some o')))
        (\<lambda>overlay. Inr
          \<lparr> cpl_id = pn_id p,
            cpl_input = \<lparr> ci_kind = pn_input_type p, ci_source = pn_input p \<rparr>,
            cpl_strategy = pn_strategy p,
            cpl_network = network,
            cpl_processing = processing,
            cpl_overlay = overlay,
            cpl_runtime =
              \<lparr> rt_buffer_size = unwrap_or 2048 (map_option cn_packet_size_limit network),
                rt_watchdog_timeout = unwrap_or (from_secs 10) (map_option cn_stall_timeout network),
                rt_buffer_count = buffer_count_for (pn_strategy p) \<rparr>,
            cpl_resolved_backend = resolve_backend p,
            cpl_execution_mode = resolve_execution_mode (pn_strategy p),
            cpl_codec_path = resolve_codec_path p,
            cpl_recovery = recovery_policy_for p,
            cpl_capability_requirements = capability_requirements_for p,
            cpl_outputs = pn_outputs p \<rparr>))"

section \<open>Validation\<close>

fun validate_host_target :: "hardware_target \<Rightarrow> host_capabilities \<Rightarrow> compile_error + unit" where
  "validate_host_target RaspberryPi4 caps =
     (if host_pi_model caps = Some Pi5
      then Inl (UnsupportedCapability ''manifest targets Raspberry Pi 4 but the capability probe detected a Raspberry Pi 5 host'')
      else Inr ())"
| "validate_host_target RaspberryPi5 caps =
     (if host_pi_model caps = Some Pi4
      then Inl (UnsupportedCapability ''manifest targets Raspberry Pi 5 but the capability probe detected a Raspberry Pi 4 host'')
      else Inr ())"
| "validate_host_target GenericLinux caps = Inr ()"

definition invalid_config :: "str \<Rightarrow> str \<Rightarrow> compile_error + 'a" where
  "invalid_config pid rest = Inl (InvalidConfiguration (pipeline_msg pid rest))"

text \<open>The checks of \<open>validate_pipeline\<close> in its order: profiles, hardware target, requirements.\<close>

definition validate_profiles :: "pipeline_node \<Rightarrow> compile_error + unit" where
  "validate_profiles p =
     (if pn_strategy p = Passthrough \<and> pn_processing p \<noteq> None
      then invalid_config (pn_id p) ''defines processing but is marked as passthrough''
      else if pn_strategy p = Passthrough \<and> pn_network p = None
      then invalid_config (pn_id p) ''uses passthrough and requires a network profile''
      else if pn_strategy p = Passthrough \<and> pn_overlay p \<noteq> None
      then invalid_config (pn_id p) ''defines overlay but overlays require transcode or hardware_decode''
      else if pn_strategy p = Transcode \<and> pn_processing p = None
      then invalid_config (pn_id p) ''uses transcode and requires a processing profile''
      else if pn_strategy p = HardwareDecode \<and> pn_processing p = None
      then invalid_config (pn_id p) ''uses hardware_decode and requires a processing profile''
      else Inr ())"

definition uses_hardware_encoder :: "pipeline_node \<Rightarrow> bool" where
  "uses_hardware_encoder p =
     is_some_and (\<lambda>processing. names_hardware_encoder (pp_encoder processing)) (pn_processing p)"

definition validate_hardware ::
  "hardware_target \<Rightarrow> pipeline_node \<Rightarrow> host_capabilities option \<Rightarrow> compile_error + unit" where
  "validate_hardware target p capabilities =
     (if target = RaspberryPi5 \<and> uses_hardware_encoder p
      then Inl (HardwareMismatch (pipeline_msg (pn_id p)
             (''cannot use '' @ quoted (pp_encoder (the (pn_processing p)))
                @ '' on Raspberry Pi 5; use software encoding instead'')))
      else if target = RaspberryPi4 \<and> uses_hardware_encoder p
        \<and> unwrap_or False (map_option (\<lambda>caps. \<not> has_pi4_h264_encoder caps) capabilities)
      then unsupported (pn_id p)
             ''requested Raspberry Pi 4 hardware encoding but no Pi 4 H.264 encoder was detected''
      else if pn_strategy p = HardwareDecode \<and> target = RaspberryPi5
        \<and> unwrap_or False (map_option (\<lambda>caps. \<not> has_pi5_stateless_decoder caps) capabilities)
      then unsupported (pn_id p)
             ''requested Raspberry Pi 5 hardware decode but no stateless decoder was detected''
      else Inr ())"

definition validate_requirements ::
  "pipeline_node \<Rightarrow> host_capabilities option \<Rightarrow> compile_error + unit" where
  "validate_requirements p capabilities =
     (case capabilities of
        None \<Rightarrow> Inr ()
      | Some caps \<Rightarrow>
          try_each (\<lambda>requirement. validate_for requirement (pn_id p) caps) (capability_requirements_for p))"

definition validate_pipeline ::
  "caml_manifest \<Rightarrow> pipeline_node \<Rightarrow> host_capabilities option \<Rightarrow> compile_error + unit" where
  "validate_pipeline m p capabilities =
     res_bind (validate_profiles p) (\<lambda>_.
       res_bind (validate_hardware (sc_hardware_target (cm_system m)) p capabilities) (\<lambda>_.
         validate_requirements p capabilities))"

section \<open>The graph\<close>

fun compile_pipelines ::
  "caml_manifest \<Rightarrow> host_capabilities option \<Rightarrow> (str \<rightharpoonup> str) \<Rightarrow> str set \<Rightarrow> pipeline_node list
     \<Rightarrow> compile_error + compiled_pipeline list" where
  "compile_pipelines m capabilities vars seen_ids [] = Inr []"
| "compile_pipelines m capabilities vars seen_ids (p # ps) =
     (if pn_id p \<in> seen_ids then Inl (DuplicatePipelineId (pn_id p))
      else res_bind (validate_pipeline m p capabilities) (\<lambda>_.
        res_bind (compile_pipeline vars p) (\<lambda>c.
          res_bind (compile_pipelines m capabilities vars (insert (pn_id p) seen_ids) ps)
            (\<lambda>cs. Inr (c # cs)))))"

definition memory_limit :: "system_config \<Rightarrow> u64" where
  "memory_limit s =
     (case (sc_cma_allocation_limit s, sc_media_memory_limit s) of
        (Some limit, _) \<Rightarrow> as_bytes limit
      | (None, Some limit) \<Rightarrow> as_bytes limit
      | (None, None) \<Rightarrow> 0)"

definition pool_bytes :: "compiled_pipeline \<Rightarrow> u64" where
  "pool_bytes c = saturating_mul (rt_buffer_size (cpl_runtime c)) (rt_buffer_count (cpl_runtime c))"

definition pool_plan :: "compiled_pipeline \<Rightarrow> buffer_pool_plan" where
  "pool_plan c =
     \<lparr> bp_pipeline_id = cpl_id c, bp_buffer_size = rt_buffer_size (cpl_runtime c),
       bp_buffer_count = rt_buffer_count (cpl_runtime c), bp_estimated_bytes = pool_bytes c \<rparr>"

definition backend_bytes :: "compiled_pipeline \<Rightarrow> u64" where
  "backend_bytes c =
     (case cpl_resolved_backend c of
        FfmpegRtsp \<Rightarrow> saturating_mul 128 (rt_buffer_size (cpl_runtime c))
      | LibcameraDevice \<Rightarrow>
          (let frame_size = 1920 * 1080 * 3 div 2; frame_pool = 8 * frame_size;
               request_pool = 8 * frame_size in frame_pool + request_pool)
      | _ \<Rightarrow>
          (let input_pool = 128 * 1200; frame_size = 1920 * 1080 * 3 div 2;
               frame_pool = 8 * frame_size; output_pool = 32 * 256000
           in input_pool + frame_pool + output_pool))"

text \<open>The accumulating loops over the pipelines.\<close>

definition total_bytes :: "(compiled_pipeline \<Rightarrow> u64) \<Rightarrow> compiled_pipeline list \<Rightarrow> u64" where
  "total_bytes f cs = foldl (\<lambda>acc c. saturating_add acc (f c)) 0 cs"

definition compile_internal ::
  "caml_manifest \<Rightarrow> host_capabilities option \<Rightarrow> (str \<rightharpoonup> str) \<Rightarrow> compile_error + compiled_graph" where
  "compile_internal m capabilities vars =
     res_bind (case capabilities of
                 None \<Rightarrow> Inr ()
               | Some caps \<Rightarrow> validate_host_target (sc_hardware_target (cm_system m)) caps) (\<lambda>_.
     res_bind (compile_pipelines m capabilities vars {} (cm_pipelines m)) (\<lambda>pipelines.
       let limit = memory_limit (cm_system m);
           pool = total_bytes pool_bytes pipelines;
           backend = total_bytes backend_bytes pipelines
       in if pool > limit then Inl (ResourceLimitExceeded limit pool)
          else Inr
            \<lparr> cg_system = \<lparr> cs_hardware_target = sc_hardware_target (cm_system m),
                cs_cma_allocation_limit_bytes = limit \<rparr>,
              cg_pipelines = pipelines,
              cg_resource_plan =
                \<lparr> rp_configured_limit_bytes = limit, rp_estimated_pool_bytes = pool,
                  rp_estimated_backend_bytes = Some backend,
                  rp_buffer_pools = map pool_plan pipelines,
                  rp_warnings = (if saturating_add pool backend > limit then [HighMemoryUsage] else []) \<rparr> \<rparr>))"

text \<open>The public entry points.\<close>

definition compile_unchecked_with_overlay_variables ::
  "caml_manifest \<Rightarrow> (str \<rightharpoonup> str) \<Rightarrow> compile_error + compiled_graph" where
  "compile_unchecked_with_overlay_variables m vars = compile_internal m None vars"

definition compile_unchecked :: "caml_manifest \<Rightarrow> compile_error + compiled_graph" where
  "compile_unchecked m = compile_unchecked_with_overlay_variables m Map.empty"

definition validate_and_compile :: "caml_manifest \<Rightarrow> compile_error + compiled_graph" where
  "validate_and_compile m = compile_unchecked_with_overlay_variables m Map.empty"

definition compile_with_overlay_variables ::
  "caml_manifest \<Rightarrow> (str \<rightharpoonup> str) \<Rightarrow> compile_error + compiled_graph" where
  "compile_with_overlay_variables m vars =
     (if sc_hardware_target (cm_system m) \<noteq> GenericLinux
      then Inl (InvalidConfiguration ''hardware-target compilation requires a capability probe. Use `compile_with_probe` or `compile_unchecked` if you want to skip guardrails.'')
      else compile_internal m None vars)"

definition compile :: "caml_manifest \<Rightarrow> compile_error + compiled_graph" where
  "compile m = compile_with_overlay_variables m Map.empty"

definition compile_with_probe_and_overlay_variables ::
  "caml_manifest \<Rightarrow> capability_probe \<Rightarrow> (str \<rightharpoonup> str) \<Rightarrow> compile_error + compiled_graph" where
  "compile_with_probe_and_overlay_variables m probe vars =
     res_bind (probe (sc_hardware_target (cm_system m))) (\<lambda>capabilities.
       compile_internal m (Some capabilities) vars)"

definition compile_with_probe ::
  "caml_manifest \<Rightarrow> capability_probe \<Rightarrow> compile_error + compiled_graph" where
  "compile_with_probe m probe = compile_with_probe_and_overlay_variables m probe Map.empty"

end
