(* ===== verification/Caml_Compiler_Correct.thy ===== *)
theory Caml_Compiler_Correct
  imports Caml_Compiler
begin

text \<open>
  What \<open>compile_internal\<close> and its entry points guarantee: which manifests compile, what the graph
  then is, which error is reported otherwise, and that a capability probe only gates compilation.
  The memory budget is compared with sums over natural numbers, which do not saturate.
\<close>

section \<open>Memory accounting\<close>

definition pool_need :: "compiled_pipeline list \<Rightarrow> nat" where
  "pool_need cs =
     (\<Sum>c\<leftarrow>cs. unat (rt_buffer_size (cpl_runtime c)) * unat (rt_buffer_count (cpl_runtime c)))"

definition backend_need_of :: "compiled_pipeline \<Rightarrow> nat" where
  "backend_need_of c =
     (case cpl_resolved_backend c of
        FfmpegRtsp \<Rightarrow> 128 * unat (rt_buffer_size (cpl_runtime c))
      | LibcameraDevice \<Rightarrow> 49766400
      | _ \<Rightarrow> 33228800)"

definition backend_need :: "compiled_pipeline list \<Rightarrow> nat" where
  "backend_need cs = (\<Sum>c\<leftarrow>cs. backend_need_of c)"

text \<open>A budget of \<open>u64::MAX\<close> bytes is unlimited: no saturated estimate exceeds it.\<close>

definition fits :: "nat \<Rightarrow> u64 \<Rightarrow> bool" where
  "fits n limit \<longleftrightarrow> n \<le> unat limit \<or> limit = - 1"

definition u64_cap :: nat where "u64_cap = 2 ^ 64 - 1"

lemma unat_le_cap: "unat w \<le> u64_cap" for w :: u64
proof -
  have "unat w < 2 ^ LENGTH(64)" by (rule unsigned_less)
  then show ?thesis by (simp add: u64_cap_def)
qed

lemma unat_saturating_add_u64: "unat (saturating_add a b) = min (unat a + unat b) u64_cap" for a b :: u64
  by (simp add: unat_saturating_add u64_cap_def)

lemma min_sum_cap: "min (min a M + min b M) M = min (a + b) M" for a b M :: nat
  by (auto simp: min_def)

lemma unat_foldl_saturating:
  fixes a :: u64
  assumes "\<And>c. unat (f c) = min (g c) u64_cap"
  shows "unat (foldl (\<lambda>acc c. saturating_add acc (f c)) a cs) =
    min (unat a + sum_list (map g cs)) u64_cap"
proof (induction cs arbitrary: a)
  case Nil
  have "unat a \<le> u64_cap"
    by (rule unat_le_cap)
  then show ?case by simp
next
  case (Cons c cs)
  show ?case
    using unat_le_cap [of a] by (simp add: Cons unat_saturating_add_u64 assms min_def)
qed

lemma unat_total_bytes:
  assumes "\<And>c. unat (f c) = min (g c) u64_cap"
  shows "unat (total_bytes f cs) = min (sum_list (map g cs)) u64_cap"
  using unat_foldl_saturating [where f = f and g = g and a = 0 and cs = cs, OF assms]
  by (simp add: total_bytes_def)

lemma unat_pool_bytes:
  "unat (pool_bytes c) =
     min (unat (rt_buffer_size (cpl_runtime c)) * unat (rt_buffer_count (cpl_runtime c))) u64_cap"
  by (simp add: pool_bytes_def unat_saturating_mul u64_cap_def)

lemma unat_backend_bytes: "unat (backend_bytes c) = min (backend_need_of c) u64_cap"
  by (simp add: backend_bytes_def backend_need_of_def unat_saturating_mul u64_cap_def Let_def
      split: resolved_input_backend.split)

lemma pool_total: "unat (total_bytes pool_bytes cs) = min (pool_need cs) u64_cap"
  using unat_total_bytes [OF unat_pool_bytes] by (simp add: pool_need_def)

lemma backend_total: "unat (total_bytes backend_bytes cs) = min (backend_need cs) u64_cap"
  using unat_total_bytes [OF unat_backend_bytes] by (simp add: backend_need_def)

lemma exceeds_iff:
  fixes est limit :: u64
  assumes "unat est = min n u64_cap"
  shows "est > limit \<longleftrightarrow> \<not> fits n limit"
proof -
  have cap: "unat limit \<le> u64_cap" by (rule unat_le_cap)
  have max: "limit = - 1 \<longleftrightarrow> unat limit = u64_cap"
    by (auto simp: u64_cap_def word_unat_eq_iff unat_max_word)
  show ?thesis
    using assms cap by (auto simp: word_less_nat_alt fits_def max min_def)
qed

lemma pool_exceeds: "total_bytes pool_bytes cs > limit \<longleftrightarrow> \<not> fits (pool_need cs) limit"
  by (rule exceeds_iff [OF pool_total])

lemma total_exceeds:
  "saturating_add (total_bytes pool_bytes cs) (total_bytes backend_bytes cs) > limit \<longleftrightarrow>
     \<not> fits (pool_need cs + backend_need cs) limit"
proof (rule exceeds_iff)
  show "unat (saturating_add (total_bytes pool_bytes cs) (total_bytes backend_bytes cs)) =
      min (pool_need cs + backend_need cs) u64_cap"
    by (simp add: unat_saturating_add_u64 pool_total backend_total min_sum_cap)
qed

section \<open>The loop over the pipelines\<close>

lemma compile_pipelines_Inr:
  "compile_pipelines m capabilities vars seen ps = Inr cs \<longleftrightarrow>
     distinct (map pn_id ps) \<and> set (map pn_id ps) \<inter> seen = {} \<and>
     (\<forall>p \<in> set ps. validate_pipeline m p capabilities = Inr ()) \<and>
     list_all2 (\<lambda>p c. compile_pipeline vars p = Inr c) ps cs"
  by (induction ps arbitrary: seen cs) (auto simp: result_simps list_all2_Cons1)

lemma compile_pipelines_Inl:
  "compile_pipelines m capabilities vars seen ps = Inl e \<longleftrightarrow>
     (\<exists>before p after. ps = before @ p # after \<and>
        (\<exists>cs. compile_pipelines m capabilities vars seen before = Inr cs) \<and>
        (if pn_id p \<in> seen \<union> set (map pn_id before) then e = DuplicatePipelineId (pn_id p)
         else res_bind (validate_pipeline m p capabilities) (\<lambda>_. compile_pipeline vars p) = Inl e))"
  (is "_ \<longleftrightarrow> ?R seen ps")
proof (induction ps arbitrary: seen)
  case (Cons p ps)
  let ?step = "res_bind (validate_pipeline m p capabilities) (\<lambda>_. compile_pipeline vars p)"
  show ?case
  proof (cases "pn_id p \<notin> seen \<and> (\<exists>c. ?step = Inr c)")
    case True
    then obtain c where c: "validate_pipeline m p capabilities = Inr ()"
      "compile_pipeline vars p = Inr c" "pn_id p \<notin> seen"
      by (auto simp: result_simps)
    have "compile_pipelines m capabilities vars seen (p # ps) = Inl e \<longleftrightarrow>
        compile_pipelines m capabilities vars (insert (pn_id p) seen) ps = Inl e"
      using c by (simp add: result_simps)
    also have "\<dots> \<longleftrightarrow> ?R (insert (pn_id p) seen) ps" by (rule Cons)
    also have "\<dots> \<longleftrightarrow> ?R seen (p # ps)"
    proof
      assume "?R (insert (pn_id p) seen) ps"
      then obtain before q after where "ps = before @ q # after"
        "\<exists>cs. compile_pipelines m capabilities vars (insert (pn_id p) seen) before = Inr cs"
        "if pn_id q \<in> insert (pn_id p) seen \<union> set (map pn_id before)
         then e = DuplicatePipelineId (pn_id q)
         else res_bind (validate_pipeline m q capabilities) (\<lambda>_. compile_pipeline vars q) = Inl e"
        by blast
      with c show "?R seen (p # ps)"
        by (intro exI [of _ "p # before"] exI [of _ q] exI [of _ after]) auto
    next
      assume "?R seen (p # ps)"
      then obtain before q after where q: "p # ps = before @ q # after"
        "\<exists>cs. compile_pipelines m capabilities vars seen before = Inr cs"
        "if pn_id q \<in> seen \<union> set (map pn_id before)
         then e = DuplicatePipelineId (pn_id q)
         else res_bind (validate_pipeline m q capabilities) (\<lambda>_. compile_pipeline vars q) = Inl e"
        by blast
      with c obtain before' where "before = p # before'" by (cases before) auto
      with c q show "?R (insert (pn_id p) seen) ps"
        by (intro exI [of _ before'] exI [of _ q] exI [of _ after]) (auto simp: result_simps)
    qed
    finally show ?thesis .
  next
    case False
    have "?R seen (p # ps) \<longleftrightarrow>
        (if pn_id p \<in> seen then e = DuplicatePipelineId (pn_id p) else ?step = Inl e)"
    proof
      assume "?R seen (p # ps)"
      then obtain before q after where q: "p # ps = before @ q # after"
        "\<exists>cs. compile_pipelines m capabilities vars seen before = Inr cs"
        "if pn_id q \<in> seen \<union> set (map pn_id before)
         then e = DuplicatePipelineId (pn_id q)
         else res_bind (validate_pipeline m q capabilities) (\<lambda>_. compile_pipeline vars q) = Inl e"
        by blast
      with False have "before = []"
        by (cases before) (auto simp: result_simps split: if_splits)
      with q show "if pn_id p \<in> seen then e = DuplicatePipelineId (pn_id p) else ?step = Inl e"
        by simp
    next
      assume "if pn_id p \<in> seen then e = DuplicatePipelineId (pn_id p) else ?step = Inl e"
      then show "?R seen (p # ps)"
        by (intro exI [of _ "[]"] exI [of _ p] exI [of _ ps]) simp
    qed
    with False show ?thesis by (auto simp: result_simps)
  qed
qed simp

section \<open>Success, exactly\<close>

definition host_matches :: "hardware_target \<Rightarrow> host_capabilities \<Rightarrow> bool" where
  "host_matches target caps \<longleftrightarrow>
     (target, host_pi_model caps) \<notin> {(RaspberryPi4, Some Pi5), (RaspberryPi5, Some Pi4)}"

lemma validate_host_target_ok: "validate_host_target target caps = Inr () \<longleftrightarrow> host_matches target caps"
  by (cases target) (auto simp: host_matches_def)

definition host_gate :: "caml_manifest \<Rightarrow> host_capabilities option \<Rightarrow> bool" where
  "host_gate m capabilities \<longleftrightarrow>
     \<not> is_some_and (\<lambda>caps. \<not> host_matches (sc_hardware_target (cm_system m)) caps) capabilities"

definition graph_of :: "caml_manifest \<Rightarrow> compiled_pipeline list \<Rightarrow> compiled_graph" where
  "graph_of m cs =
     (let limit = memory_limit (cm_system m); need = pool_need cs + backend_need cs in
      \<lparr> cg_system = \<lparr> cs_hardware_target = sc_hardware_target (cm_system m),
          cs_cma_allocation_limit_bytes = limit \<rparr>,
        cg_pipelines = cs,
        cg_resource_plan =
          \<lparr> rp_configured_limit_bytes = limit,
            rp_estimated_pool_bytes = of_nat (min (pool_need cs) u64_cap),
            rp_estimated_backend_bytes = Some (of_nat (min (backend_need cs) u64_cap)),
            rp_buffer_pools = map pool_plan cs,
            rp_warnings = (if fits need limit then [] else [HighMemoryUsage]) \<rparr> \<rparr>)"

lemma pool_total_word: "total_bytes pool_bytes cs = of_nat (min (pool_need cs) u64_cap)"
  by (simp flip: pool_total)

lemma backend_total_word: "total_bytes backend_bytes cs = of_nat (min (backend_need cs) u64_cap)"
  by (simp flip: backend_total)

lemma host_gate_ok:
  "(case capabilities of None \<Rightarrow> Inr ()
    | Some caps \<Rightarrow> validate_host_target (sc_hardware_target (cm_system m)) caps) = Inr () \<longleftrightarrow>
   host_gate m capabilities"
  by (cases capabilities) (auto simp: host_gate_def validate_host_target_ok)

lemma compile_internal_unfold:
  "compile_internal m capabilities vars =
     res_bind (case capabilities of None \<Rightarrow> Inr ()
        | Some caps \<Rightarrow> validate_host_target (sc_hardware_target (cm_system m)) caps) (\<lambda>_.
     res_bind (compile_pipelines m capabilities vars {} (cm_pipelines m)) (\<lambda>cs.
       if fits (pool_need cs) (memory_limit (cm_system m)) then Inr (graph_of m cs)
       else Inl (ResourceLimitExceeded (memory_limit (cm_system m))
                  (of_nat (min (pool_need cs) u64_cap)))))"
  unfolding compile_internal_def Let_def graph_of_def pool_exceeds total_exceeds
  by (intro arg_cong2 [where f = res_bind] ext refl)
    (simp add: pool_total_word [symmetric] backend_total_word [symmetric])

lemma graph_of_pipelines [simp]: "cg_pipelines (graph_of m cs) = cs"
  by (simp add: graph_of_def Let_def)

lemma compile_internal_Inr:
  "compile_internal m capabilities vars = Inr g \<longleftrightarrow>
     host_gate m capabilities \<and> distinct (map pn_id (cm_pipelines m)) \<and>
     (\<forall>p \<in> set (cm_pipelines m). validate_pipeline m p capabilities = Inr ()) \<and>
     list_all2 (\<lambda>p c. compile_pipeline vars p = Inr c) (cm_pipelines m) (cg_pipelines g) \<and>
     fits (pool_need (cg_pipelines g)) (memory_limit (cm_system m)) \<and>
     g = graph_of m (cg_pipelines g)"
  by (auto simp: compile_internal_unfold result_simps compile_pipelines_Inr host_gate_ok)

lemma compile_pipeline_id: "compile_pipeline vars p = Inr c \<Longrightarrow> cpl_id c = pn_id p"
  by (auto simp: compile_pipeline_def result_simps Let_def)

lemma compiled_ids:
  "list_all2 (\<lambda>p c. compile_pipeline vars p = Inr c) ps cs \<Longrightarrow> map cpl_id cs = map pn_id ps"
  by (induction rule: list_all2_induct) (auto simp: compile_pipeline_id)

lemma compiled_source:
  assumes "list_all2 (\<lambda>p c. compile_pipeline vars p = Inr c) ps cs" "c \<in> set cs"
  obtains p where "p \<in> set ps" "compile_pipeline vars p = Inr c"
proof -
  from assms(2) obtain i where i: "i < length cs" "c = cs ! i" by (auto simp: in_set_conv_nth)
  then show thesis
    using assms(1) that [of "ps ! i"] by (simp add: list_all2_conv_all_nth)
qed

section \<open>A concrete manifest\<close>

lemma trim_camera_id: "trim ''camera_id'' = ''camera_id''"
  by (rule trim_id) (simp_all add: printable_def)

lemma expand_camera_id:
  "expand_overlay_template pid (overlay_variables_for_pipeline pid vars) ''{camera_id}'' = Inr pid"
  by (simp add: overlay_variables_for_pipeline_def trim_camera_id)

lemma example_device_compiles:
  "\<exists>c. compile_pipeline vars (example_device pid) = Inr c \<and>
     cpl_runtime c = \<lparr> rt_buffer_size = 2048, rt_watchdog_timeout = from_secs 10,
       rt_buffer_count = 64 \<rparr> \<and> cpl_resolved_backend c = AutoDevice"
  by (simp add: compile_pipeline_def example_device_def compile_overlay_profile_def
      expand_camera_id resolve_backend_def Let_def del: expand_overlay_template.simps)

lemma libx264_is_software: "\<not> names_hardware_encoder ''libx264''"
  by code_simp

lemma example_device_valid: "validate_pipeline m (example_device pid) None = Inr ()"
  by (simp add: validate_pipeline_def validate_profiles_def validate_hardware_def
      validate_requirements_def uses_hardware_encoder_def example_device_def libx264_is_software)

lemma example_compiles:
  "\<exists>g. compile_internal (example_manifest [example_device ''a'', example_device ''b'']) None vars = Inr g"
proof -
  obtain a where a: "compile_pipeline vars (example_device ''a'') = Inr a"
    "rt_buffer_size (cpl_runtime a) = 2048" "rt_buffer_count (cpl_runtime a) = 64"
    using example_device_compiles by (metis runtime_policy.select_convs(1,3))
  obtain b where b: "compile_pipeline vars (example_device ''b'') = Inr b"
    "rt_buffer_size (cpl_runtime b) = 2048" "rt_buffer_count (cpl_runtime b) = 64"
    using example_device_compiles by (metis runtime_policy.select_convs(1,3))
  let ?m = "example_manifest [example_device ''a'', example_device ''b'']"
  have "compile_internal ?m None vars = Inr (graph_of ?m [a, b])"
    unfolding compile_internal_Inr graph_of_pipelines
    using a b example_device_valid
    by (simp add: example_manifest_def host_gate_def pool_need_def fits_def memory_limit_def)
      (simp add: example_device_def)
  then show ?thesis ..
qed

section \<open>Claims about success and failure\<close>

text \<open>
  C5: compilation succeeds exactly if the probed host is not a Raspberry Pi other than the target,
  the pipeline ids are distinct, every pipeline passes validation and compiles, and the buffer
  pools together, counted without overflow, fit into the memory limit; the graph is then the
  compiled pipelines in manifest order with the exact resource plan, whose memory warning is
  present exactly if pools and backends together do not fit.
\<close>

theorem compile_internal_exact:
  "compile_internal m capabilities vars = Inr g \<longleftrightarrow>
     host_gate m capabilities \<and> distinct (map pn_id (cm_pipelines m)) \<and>
     list_all (\<lambda>p. validate_pipeline m p capabilities = Inr ()) (cm_pipelines m) \<and>
     list_all2 (\<lambda>p c. compile_pipeline vars p = Inr c) (cm_pipelines m) (cg_pipelines g) \<and>
     fits (pool_need (cg_pipelines g)) (memory_limit (cm_system m)) \<and>
     g = graph_of m (cg_pipelines g)"
  by (simp add: compile_internal_Inr list_all_iff)

text \<open>
  The pipelines of a compiled graph carry the ids of the manifest in its order, no two carry
  the same id, and the resource plan has one buffer pool per pipeline under the same id.
\<close>

theorem compiled_ids_unique:
  assumes "compile_internal m capabilities vars = Inr g"
  shows "map cpl_id (cg_pipelines g) = map pn_id (cm_pipelines m) \<and>
    distinct (map cpl_id (cg_pipelines g)) \<and>
    map bp_pipeline_id (rp_buffer_pools (cg_resource_plan g)) = map cpl_id (cg_pipelines g)"
proof -
  from assms have ids: "map cpl_id (cg_pipelines g) = map pn_id (cm_pipelines m)"
    and g: "g = graph_of m (cg_pipelines g)" and d: "distinct (map pn_id (cm_pipelines m))"
    unfolding compile_internal_Inr using compiled_ids by blast+
  have "rp_buffer_pools (cg_resource_plan g) = map pool_plan (cg_pipelines g)"
    by (subst g) (simp add: graph_of_def Let_def)
  then have "map bp_pipeline_id (rp_buffer_pools (cg_resource_plan g)) = map cpl_id (cg_pipelines g)"
    by (simp add: pool_plan_def)
  with ids d show ?thesis by simp
qed

lemma example_device_id: "pn_id (example_device pid) = pid"
  by (simp add: example_device_def)

theorem compiled_ids_unique_witness:
  "\<exists>g. compile_internal (example_manifest [example_device ''a'', example_device ''b'']) None Map.empty
       = Inr g \<and>
     map cpl_id (cg_pipelines g) = [''a'', ''b'']"
proof -
  obtain g where g: "compile_internal (example_manifest [example_device ''a'', example_device ''b''])
      None Map.empty = Inr g"
    using example_compiles by blast
  have "map pn_id (cm_pipelines (example_manifest [example_device ''a'', example_device ''b''])) =
      [''a'', ''b'']"
    by (simp add: example_manifest_def example_device_id)
  with compiled_ids_unique [OF g, THEN conjunct1]
  have "map cpl_id (cg_pipelines g) = [''a'', ''b'']"
    by (rule trans)
  with g show ?thesis by (intro exI [of _ g] conjI)
qed

lemma validate_compile_Inl:
  "res_bind r (\<lambda>_. f) = Inl e \<longleftrightarrow> r = Inl e \<or> r = Inr () \<and> f = Inl e" for r :: "'e + unit"
  by (cases r) auto

text \<open>
  The loop over the pipelines reports the first pipeline that repeats an earlier id, fails
  validation or fails to compile: everything before it compiles, and a repeated id is reported
  before anything else about that pipeline.
\<close>

theorem compile_pipelines_first_error:
  "compile_pipelines m capabilities vars {} (cm_pipelines m) = Inl e \<longleftrightarrow>
     (\<exists>before p after cs. cm_pipelines m = before @ p # after \<and>
        compile_pipelines m capabilities vars {} before = Inr cs \<and>
        (if pn_id p \<in> set (map pn_id before) then e = DuplicatePipelineId (pn_id p)
         else validate_pipeline m p capabilities = Inl e \<or>
              validate_pipeline m p capabilities = Inr () \<and> compile_pipeline vars p = Inl e))"
  unfolding compile_pipelines_Inl [of m capabilities vars "{}" "cm_pipelines m" e] validate_compile_Inl
  by (simp only: Un_empty_left) blast

text \<open>
  C4: a manifest whose pipelines are valid, on a host that fits, and whose pools, counted without overflow,
  need more than the limit, never compiles unless the limit is \<open>u64::MAX\<close>, even if the estimate itself
  saturates, and the error reports the limit and the estimate capped at \<open>u64::MAX\<close>. With the limit
  \<open>u64::MAX\<close> no estimate is greater, and the manifest compiles.
\<close>

theorem memory_limit_enforced:
  assumes "host_gate m capabilities"
    and "compile_pipelines m capabilities vars {} (cm_pipelines m) = Inr cs"
    and "pool_need cs > unat (memory_limit (cm_system m))"
  shows "if memory_limit (cm_system m) = - 1
    then \<exists>g. compile_internal m capabilities vars = Inr g \<and> cg_pipelines g = cs
    else \<exists>est. compile_internal m capabilities vars =
        Inl (ResourceLimitExceeded (memory_limit (cm_system m)) est) \<and>
      unat est = min (pool_need cs) (2 ^ 64 - 1) \<and> est > memory_limit (cm_system m)"
proof (cases "memory_limit (cm_system m) = - 1")
  case True
  then have "compile_internal m capabilities vars = Inr (graph_of m cs)"
    using assms(1,2) host_gate_ok [of m capabilities] by (simp add: compile_internal_unfold fits_def)
  with True show ?thesis by simp
next
  case limit: False
  let ?limit = "memory_limit (cm_system m)"
  have over: "\<not> fits (pool_need cs) ?limit"
    using assms(3) limit by (simp add: fits_def)
  then have "compile_internal m capabilities vars =
      Inl (ResourceLimitExceeded ?limit (total_bytes pool_bytes cs))"
    using assms(1,2) host_gate_ok [of m capabilities]
    by (simp add: compile_internal_unfold pool_total_word)
  moreover have "total_bytes pool_bytes cs > ?limit"
    using over by (simp add: pool_exceeds)
  ultimately show ?thesis
    using pool_total [of cs] limit by (simp add: u64_cap_def)
qed

definition tiny_manifest :: caml_manifest where
  "tiny_manifest = (example_manifest [example_device ''a''])
     \<lparr> cm_system := \<lparr> sc_hardware_target = GenericLinux,
         sc_cma_allocation_limit = None, sc_media_memory_limit = Some (ByteSize 1000) \<rparr> \<rparr>"

theorem memory_limit_enforced_witness:
  "\<exists>est. compile_internal tiny_manifest None Map.empty = Inl (ResourceLimitExceeded 1000 est) \<and>
     unat est = 131072"
proof -
  obtain a where a: "compile_pipeline Map.empty (example_device ''a'') = Inr a"
    "rt_buffer_size (cpl_runtime a) = 2048" "rt_buffer_count (cpl_runtime a) = 64"
    using example_device_compiles by (metis runtime_policy.select_convs(1,3))
  have "compile_pipelines tiny_manifest None Map.empty {} (cm_pipelines tiny_manifest) = Inr [a]"
    using a by (simp add: tiny_manifest_def example_manifest_def example_device_valid)
  moreover have "host_gate tiny_manifest None" by (simp add: host_gate_def)
  moreover have lim: "memory_limit (cm_system tiny_manifest) = 1000"
    by (simp add: tiny_manifest_def memory_limit_def)
  moreover have need: "pool_need [a] = 131072" using a by (simp add: pool_need_def)
  ultimately show ?thesis
    using memory_limit_enforced [of tiny_manifest None Map.empty "[a]"] by auto
qed

section \<open>Capabilities only gate\<close>

lemma in_requirements:
  "r \<in> set (capability_requirements_for p) \<longleftrightarrow>
     r \<in> set (input_requirements p) \<or>
     r = RtpPacketization \<and> list_ex is_webrtc (pn_outputs p) \<or>
     r = Pi4HardwareEncoder \<and> resolve_codec_path p = HardwareTranscode \<or>
     r = Pi5StatelessDecoder \<and> pn_strategy p = HardwareDecode \<or>
     r = DrawTextFilter \<and> overlay_uses_text (pn_overlay p) \<or>
     r \<in> {OverlayFilter, ScaleFilter, ColorChannelMixerFilter} \<and> overlay_uses_watermark (pn_overlay p)"
  by (auto simp: capability_requirements_for_def list_ex_iff)

lemma validate_requirements_ok:
  "validate_requirements p capabilities = Inr () \<longleftrightarrow>
     (\<forall>caps. capabilities = Some caps \<longrightarrow> (\<forall>r \<in> set (capability_requirements_for p). provides caps r))"
  by (cases capabilities) (auto simp: validate_requirements_def result_simps validate_for_ok)

lemma validate_hardware_ok:
  "validate_hardware target p capabilities = Inr () \<longleftrightarrow>
     \<not> (target = RaspberryPi5 \<and> uses_hardware_encoder p) \<and>
     (\<forall>caps. capabilities = Some caps \<longrightarrow>
        \<not> (target = RaspberryPi4 \<and> uses_hardware_encoder p \<and> \<not> has_pi4_h264_encoder caps) \<and>
        \<not> (target = RaspberryPi5 \<and> pn_strategy p = HardwareDecode \<and> \<not> has_pi5_stateless_decoder caps))"
  by (cases capabilities) (auto simp: validate_hardware_def unsupported_def)

lemma validate_pipeline_gate:
  "validate_pipeline m p (Some caps) = Inr () \<longleftrightarrow>
     validate_pipeline m p None = Inr () \<and>
     (\<forall>r \<in> set (capability_requirements_for p). provides caps r) \<and>
     \<not> (sc_hardware_target (cm_system m) = RaspberryPi4 \<and> uses_hardware_encoder p
        \<and> \<not> has_pi4_h264_encoder caps)"
proof -
  have "has_pi5_stateless_decoder caps"
    if "pn_strategy p = HardwareDecode" "\<forall>r \<in> set (capability_requirements_for p). provides caps r"
    using that bspec [OF that(2), of Pi5StatelessDecoder] by (simp add: in_requirements)
  then show ?thesis
    by (auto simp: validate_pipeline_def result_simps validate_requirements_ok validate_hardware_ok)
qed

lemma compile_pipeline_requirements:
  "compile_pipeline vars p = Inr c \<Longrightarrow> cpl_capability_requirements c = capability_requirements_for p"
  by (auto simp: compile_pipeline_def result_simps Let_def)

lemma compiled_requirements:
  "list_all2 (\<lambda>p c. compile_pipeline vars p = Inr c) ps cs \<Longrightarrow>
     map cpl_capability_requirements cs = map capability_requirements_for ps"
  by (induction rule: list_all2_induct) (auto simp: compile_pipeline_requirements)

text \<open>
  C2: compiling with a probe succeeds exactly if the probe succeeds, the host is not a Raspberry Pi
  other than the target, compiling without guardrails gives that graph, the host provides every
  requirement recorded in the graph, and on a Raspberry Pi 4 target no pipeline names a hardware
  encoder that the host lacks. In particular a probe never changes what is compiled.
\<close>

theorem probe_only_gates:
  "compile_with_probe_and_overlay_variables m probe vars = Inr g \<longleftrightarrow>
     (\<exists>caps. probe (sc_hardware_target (cm_system m)) = Inr caps \<and>
        host_matches (sc_hardware_target (cm_system m)) caps \<and>
        compile_unchecked_with_overlay_variables m vars = Inr g \<and>
        list_all (\<lambda>c. list_all (provides caps) (cpl_capability_requirements c)) (cg_pipelines g) \<and>
        \<not> (sc_hardware_target (cm_system m) = RaspberryPi4 \<and> \<not> has_pi4_h264_encoder caps \<and>
           list_ex uses_hardware_encoder (cm_pipelines m)))"
proof -
  have "compile_internal m (Some caps) vars = Inr g \<longleftrightarrow>
      host_matches (sc_hardware_target (cm_system m)) caps \<and>
      compile_internal m None vars = Inr g \<and>
      list_all (\<lambda>c. list_all (provides caps) (cpl_capability_requirements c)) (cg_pipelines g) \<and>
      \<not> (sc_hardware_target (cm_system m) = RaspberryPi4 \<and> \<not> has_pi4_h264_encoder caps \<and>
         list_ex uses_hardware_encoder (cm_pipelines m))" (is "?L \<longleftrightarrow> ?R") for caps
  proof (cases "list_all2 (\<lambda>p c. compile_pipeline vars p = Inr c) (cm_pipelines m) (cg_pipelines g)")
    case True
    have "list_all (\<lambda>c. list_all (provides caps) (cpl_capability_requirements c)) (cg_pipelines g) \<longleftrightarrow>
        list_all (list_all (provides caps)) (map cpl_capability_requirements (cg_pipelines g))"
      by (simp add: list_all_iff)
    also have "\<dots> \<longleftrightarrow> (\<forall>p \<in> set (cm_pipelines m). \<forall>r \<in> set (capability_requirements_for p). provides caps r)"
      unfolding compiled_requirements [OF True] by (simp add: list_all_iff)
    finally have req: "list_all (\<lambda>c. list_all (provides caps) (cpl_capability_requirements c)) (cg_pipelines g)
        \<longleftrightarrow> (\<forall>p \<in> set (cm_pipelines m). \<forall>r \<in> set (capability_requirements_for p). provides caps r)" .
    have hw: "list_ex uses_hardware_encoder (cm_pipelines m) \<longleftrightarrow>
        (\<exists>p \<in> set (cm_pipelines m). uses_hardware_encoder p)"
      by (simp add: list_ex_iff)
    show ?thesis
      unfolding compile_internal_Inr req hw validate_pipeline_gate
      by (simp add: host_gate_def) blast
  next
    case False
    then show ?thesis unfolding compile_internal_Inr by blast
  qed
  then show ?thesis
    unfolding compile_with_probe_and_overlay_variables_def compile_unchecked_with_overlay_variables_def
    by (auto simp: result_simps)
qed

text \<open>The other entry points: \<open>validate_and_compile\<close> checks nothing more than \<open>compile_unchecked\<close>.\<close>

lemma compile_without_probe:
  "(compile_with_overlay_variables m vars = Inr g \<longleftrightarrow>
      sc_hardware_target (cm_system m) = GenericLinux \<and>
      compile_unchecked_with_overlay_variables m vars = Inr g) \<and>
   compile_with_probe m probe = compile_with_probe_and_overlay_variables m probe Map.empty \<and>
   validate_and_compile m = compile_unchecked m"
  by (simp add: compile_with_overlay_variables_def compile_unchecked_with_overlay_variables_def
      compile_with_probe_def validate_and_compile_def compile_unchecked_def)

text \<open>
  No graph for a Raspberry Pi 5 uses a hardware encoder: a manifest that names one, under any
  spelling that trims and lower-cases to \<open>hardware\<close> or \<open>v4l2m2m\<close>, does not compile, with or without
  a probe, and no compiled pipeline takes the hardware transcode path.
\<close>

theorem pi5_never_hardware_encodes:
  assumes "sc_hardware_target (cm_system m) = RaspberryPi5"
    and "compile_internal m capabilities vars = Inr g"
  shows "\<not> list_ex uses_hardware_encoder (cm_pipelines m) \<and>
    HardwareTranscode \<notin> set (map cpl_codec_path (cg_pipelines g))"
proof -
  from assms(2) have v: "\<forall>p \<in> set (cm_pipelines m). validate_pipeline m p capabilities = Inr ()"
    and l: "list_all2 (\<lambda>p c. compile_pipeline vars p = Inr c) (cm_pipelines m) (cg_pipelines g)"
    unfolding compile_internal_Inr by blast+
  have soft: "\<not> uses_hardware_encoder p" if "p \<in> set (cm_pipelines m)" for p
    using v that assms(1) by (auto simp: validate_pipeline_def result_simps validate_hardware_ok)
  have "cpl_codec_path c \<noteq> HardwareTranscode" if c: "c \<in> set (cg_pipelines g)" for c
  proof -
    obtain p where "p \<in> set (cm_pipelines m)" "compile_pipeline vars p = Inr c"
      using compiled_source [OF l c] .
    with soft [of p] show ?thesis
      by (auto simp: compile_pipeline_def result_simps Let_def resolve_codec_path_def
          uses_hardware_encoder_def split: stream_strategy.splits)
  qed
  then have "HardwareTranscode \<notin> set (map cpl_codec_path (cg_pipelines g))"
    by (metis in_set_conv_nth length_map nth_map nth_mem)
  moreover have "\<not> list_ex uses_hardware_encoder (cm_pipelines m)"
    using soft by (simp add: list_ex_iff)
  ultimately show ?thesis by simp
qed

definition pi5_manifest :: caml_manifest where
  "pi5_manifest = (example_manifest [example_device ''a''])
     \<lparr> cm_system := \<lparr> sc_hardware_target = RaspberryPi5,
         sc_cma_allocation_limit = None, sc_media_memory_limit = Some (ByteSize 67108864) \<rparr> \<rparr>"

lemma pi5_manifest_compiles: "\<exists>g. compile_internal pi5_manifest None Map.empty = Inr g"
proof -
  obtain a where a: "compile_pipeline Map.empty (example_device ''a'') = Inr a"
    "rt_buffer_size (cpl_runtime a) = 2048" "rt_buffer_count (cpl_runtime a) = 64"
    using example_device_compiles by (metis runtime_policy.select_convs(1,3))
  have "compile_internal pi5_manifest None Map.empty = Inr (graph_of pi5_manifest [a])"
    unfolding compile_internal_Inr graph_of_pipelines
    using a example_device_valid
    by (simp add: pi5_manifest_def example_manifest_def host_gate_def pool_need_def fits_def
        memory_limit_def)
  then show ?thesis ..
qed

theorem pi5_never_hardware_encodes_witness:
  "\<exists>g. compile_internal pi5_manifest None Map.empty = Inr g \<and>
     HardwareTranscode \<notin> set (map cpl_codec_path (cg_pipelines g))"
proof -
  obtain g where g: "compile_internal pi5_manifest None Map.empty = Inr g"
    using pi5_manifest_compiles ..
  have "sc_hardware_target (cm_system pi5_manifest) = RaspberryPi5"
    by (simp add: pi5_manifest_def)
  from g pi5_never_hardware_encodes [OF this g, THEN conjunct2] show ?thesis
    by (intro exI [of _ g] conjI)
qed

section \<open>The shape of compiled pipelines\<close>

fun is_text_overlay :: "compiled_overlay_layer \<Rightarrow> bool" where
  "is_text_overlay (CompiledTimestamp l) = True"
| "is_text_overlay (CompiledText l) = True"
| "is_text_overlay (CompiledWatermark l) = False"

definition overlay_has :: "(compiled_overlay_layer \<Rightarrow> bool) \<Rightarrow> compiled_pipeline \<Rightarrow> bool" where
  "overlay_has q c \<longleftrightarrow> is_some_and (\<lambda>o'. list_ex q (co_layers o')) (cpl_overlay c)"

definition paths_wf :: "compiled_pipeline \<Rightarrow> bool" where
  "paths_wf c \<longleftrightarrow>
     (cpl_execution_mode c = EncodedPackets \<longleftrightarrow> cpl_strategy c = Passthrough) \<and>
     (cpl_codec_path c = PathPassthrough \<longleftrightarrow> cpl_strategy c = Passthrough) \<and>
     (cpl_codec_path c = PathHardwareDecode \<longleftrightarrow> cpl_strategy c = HardwareDecode) \<and>
     (cpl_codec_path c = HardwareTranscode \<longleftrightarrow> cpl_strategy c = Transcode \<and>
        is_some_and (\<lambda>pr. names_hardware_encoder (cp_encoder pr)) (cpl_processing c)) \<and>
     (if cpl_strategy c = Passthrough
      then cpl_network c \<noteq> None \<and> cpl_processing c = None \<and> cpl_overlay c = None
      else cpl_processing c \<noteq> None) \<and>
     (cpl_resolved_backend c = FfmpegRtsp \<longleftrightarrow> ci_kind (cpl_input c) = Rtsp)"

definition runtime_wf :: "compiled_pipeline \<Rightarrow> bool" where
  "runtime_wf c \<longleftrightarrow>
     rt_buffer_size (cpl_runtime c) =
       (case cpl_network c of None \<Rightarrow> 2048 | Some n \<Rightarrow> cn_packet_size_limit n) \<and>
     rt_buffer_count (cpl_runtime c) \<in> {32, 64, 100} \<and>
     (rec_class (cpl_recovery c) = RecoverHardware \<longleftrightarrow> cpl_strategy c = HardwareDecode) \<and>
     (rec_class (cpl_recovery c) = RecoverNetwork \<longleftrightarrow>
        cpl_strategy c \<noteq> HardwareDecode \<and> ci_kind (cpl_input c) = Rtsp) \<and>
     0 < initial_backoff (cpl_recovery c) \<and>
     initial_backoff (cpl_recovery c) < max_backoff (cpl_recovery c) \<and>
     max_backoff (cpl_recovery c) < reset_after (cpl_recovery c) \<and>
     backoff_multiplier (cpl_recovery c) = 2 \<and> max_restarts (cpl_recovery c) \<in> {3, 5}"

definition requirements_wf :: "compiled_pipeline \<Rightarrow> bool" where
  "requirements_wf c \<longleftrightarrow>
     (RtpPacketization \<in> set (cpl_capability_requirements c) \<longleftrightarrow> list_ex is_webrtc (cpl_outputs c)) \<and>
     (Pi4HardwareEncoder \<in> set (cpl_capability_requirements c) \<longleftrightarrow> cpl_codec_path c = HardwareTranscode) \<and>
     (Pi5StatelessDecoder \<in> set (cpl_capability_requirements c) \<longleftrightarrow> cpl_strategy c = HardwareDecode) \<and>
     (DrawTextFilter \<in> set (cpl_capability_requirements c) \<longleftrightarrow> overlay_has is_text_overlay c) \<and>
     (OverlayFilter \<in> set (cpl_capability_requirements c) \<longleftrightarrow> overlay_has (\<lambda>l. \<not> is_text_overlay l) c) \<and>
     (ReqLibcamera \<in> set (cpl_capability_requirements c) \<longleftrightarrow> cpl_resolved_backend c = LibcameraDevice) \<and>
     (ReqV4l2 \<in> set (cpl_capability_requirements c) \<longleftrightarrow> cpl_resolved_backend c = V4l2Device)"

lemma compile_overlay_layer_kind:
  "compile_overlay_layer pid vars l = Inr l' \<Longrightarrow> is_text_overlay l' = is_text_layer l"
  by (cases l) (auto simp: result_simps)

lemma compiled_layers_kind:
  "list_all2 (\<lambda>l l'. compile_overlay_layer pid vars l = Inr l') ls ls' \<Longrightarrow>
     list_ex is_text_overlay ls' = list_ex is_text_layer ls \<and>
     list_ex (\<lambda>l. \<not> is_text_overlay l) ls' = list_ex (\<lambda>l. \<not> is_text_layer l) ls"
  by (induction rule: list_all2_induct) (auto simp: compile_overlay_layer_kind)

lemma compile_overlay_profile_kind:
  assumes "compile_overlay_profile pid vars profile = Inr o'"
  shows "list_ex is_text_overlay (co_layers o') = list_ex is_text_layer (ov_layers profile) \<and>
    list_ex (\<lambda>l. \<not> is_text_overlay l) (co_layers o') =
      list_ex (\<lambda>l. \<not> is_text_layer l) (ov_layers profile)"
proof -
  from assms have "list_all2 (\<lambda>l l'. compile_overlay_layer pid
      (overlay_variables_for_pipeline pid vars) l = Inr l') (ov_layers profile) (co_layers o')"
    by (auto simp: compile_overlay_profile_def result_simps Let_def)
  then show ?thesis by (rule compiled_layers_kind)
qed

lemma compile_pipeline_fields:
  assumes "compile_pipeline vars p = Inr c"
  shows "cpl_input c = \<lparr> ci_kind = pn_input_type p, ci_source = pn_input p \<rparr>"
    "cpl_strategy c = pn_strategy p"
    "cpl_network c = map_option compile_network_profile (pn_network p)"
    "cpl_processing c = map_option compile_processing_profile (pn_processing p)"
    "cpl_overlay c = None \<longleftrightarrow> pn_overlay p = None"
    "overlay_has is_text_overlay c = overlay_uses_text (pn_overlay p)"
    "overlay_has (\<lambda>l. \<not> is_text_overlay l) c = overlay_uses_watermark (pn_overlay p)"
    "rt_buffer_size (cpl_runtime c) =
       unwrap_or 2048 (map_option cn_packet_size_limit (map_option compile_network_profile (pn_network p)))"
    "rt_buffer_count (cpl_runtime c) = buffer_count_for (pn_strategy p)"
    "cpl_resolved_backend c = resolve_backend p"
    "cpl_execution_mode c = resolve_execution_mode (pn_strategy p)"
    "cpl_codec_path c = resolve_codec_path p"
    "cpl_recovery c = recovery_policy_for p"
    "cpl_capability_requirements c = capability_requirements_for p"
    "cpl_outputs c = pn_outputs p"
  using assms
  by (cases "pn_overlay p";
      auto simp: compile_pipeline_def result_simps Let_def overlay_has_def overlay_uses_text_def
        overlay_uses_watermark_def compile_overlay_profile_kind)+

lemma paths_wf_compiled:
  assumes "compile_pipeline vars p = Inr c" "validate_profiles p = Inr ()"
  shows "paths_wf c"
proof -
  have "pn_strategy p = Passthrough \<Longrightarrow>
      pn_network p \<noteq> None \<and> pn_processing p = None \<and> pn_overlay p = None"
    "pn_strategy p \<noteq> Passthrough \<Longrightarrow> pn_processing p \<noteq> None"
    using assms(2) by (cases "pn_strategy p"; auto simp: validate_profiles_def invalid_config_def
        split: if_splits)+
  then show ?thesis
    by (cases "pn_strategy p"; cases "pn_processing p")
      (auto simp: paths_wf_def compile_pipeline_fields [OF assms(1)] resolve_codec_path_def
        resolve_backend_def compile_processing_profile_def
        split: input_type.split input_backend.split)
qed

text \<open>Every pipeline of a compiled graph comes from a node whose profiles were accepted.\<close>

lemma compiled_valid_source:
  assumes "compile_internal m capabilities vars = Inr g" "c \<in> set (cg_pipelines g)"
  obtains p where "p \<in> set (cm_pipelines m)" "compile_pipeline vars p = Inr c" "validate_profiles p = Inr ()"
proof -
  from assms(1) have v: "\<forall>p \<in> set (cm_pipelines m). validate_pipeline m p capabilities = Inr ()"
    and l: "list_all2 (\<lambda>p c. compile_pipeline vars p = Inr c) (cm_pipelines m) (cg_pipelines g)"
    unfolding compile_internal_Inr by blast+
  from l assms(2) obtain p where p: "p \<in> set (cm_pipelines m)" "compile_pipeline vars p = Inr c"
    by (rule compiled_source)
  with v have "validate_pipeline m p capabilities = Inr ()" by blast
  then have "validate_profiles p = Inr ()" by (simp add: validate_pipeline_def result_simps)
  with p show thesis by (rule that)
qed

lemma compiled_paths_wf:
  "compile_internal m capabilities vars = Inr g \<Longrightarrow> c \<in> set (cg_pipelines g) \<Longrightarrow> paths_wf c"
  by (metis compiled_valid_source paths_wf_compiled)

lemma runtime_wf_compiled: "compile_pipeline vars p = Inr c \<Longrightarrow> runtime_wf c"
  by (cases "pn_strategy p"; cases "pn_input_type p"; cases "pn_network p")
    (simp_all add: runtime_wf_def compile_pipeline_fields recovery_policy_for_def
      recovery_class_for_def from_millis_def from_secs_def)

lemma requirements_wf_compiled: "compile_pipeline vars p = Inr c \<Longrightarrow> requirements_wf c"
  by (auto simp: requirements_wf_def compile_pipeline_fields in_requirements
      input_requirements_def resolve_backend_def split: input_type.splits input_backend.splits)



section \<open>Overlay layers\<close>

text \<open>What a layer compiles to; the variables are those of the pipeline.\<close>

fun layer_denotes :: "(str \<rightharpoonup> str) \<Rightarrow> overlay_layer \<Rightarrow> compiled_overlay_layer \<Rightarrow> bool" where
  "layer_denotes vars (TimestampLayer position source timezone format style) l' \<longleftrightarrow>
     l' = CompiledTimestamp
       \<lparr> ct_format = (case format of Some f \<Rightarrow> f | None \<Rightarrow> default_timestamp_format timezone),
         ct_timezone = timezone, ct_style = compile_text_overlay_style position style \<rparr>"
| "layer_denotes vars (TextLayer text position style) l' \<longleftrightarrow>
     (\<exists>t. template_denotes vars text t \<and>
        l' = CompiledText \<lparr> cx_text = t, cx_style = compile_text_overlay_style position style \<rparr>)"
| "layer_denotes vars (WatermarkLayer image_path position max_width_px opacity margin) l' \<longleftrightarrow>
     l' = CompiledWatermark
       \<lparr> cw_image_path = image_path, cw_position = position, cw_max_width_px = max_width_px,
         cw_opacity = (case opacity of Some a \<Rightarrow> a | None \<Rightarrow> 100),
         cw_margin = (case margin of Some a \<Rightarrow> a | None \<Rightarrow> 12) \<rparr>"

lemma compile_overlay_layer_denotes:
  "compile_overlay_layer pid vars l = Inr l' \<longleftrightarrow> layer_denotes vars l l'"
  by (cases l)
    (auto simp: result_simps unwrap_or_def template_denotes_def expand_segments
      dest!: expand_denotes)

text \<open>
  An overlay profile compiles exactly to the layers its own layers denote, in their order,
  with each text expanded under the caller's variables overridden by the pipeline's own
  \<open>camera_id\<close> and \<open>pipeline_id\<close>, and it fails if one text has no expansion.
\<close>

theorem overlay_profile_exact:
  "compile_overlay_profile pid vars profile = Inr o' \<longleftrightarrow>
     list_all2 (layer_denotes (vars(''camera_id'' \<mapsto> pid, ''pipeline_id'' \<mapsto> pid)))
       (ov_layers profile) (co_layers o')"
  by (cases o')
    (auto simp: compile_overlay_profile_def result_simps Let_def compile_overlay_layer_denotes
      overlay_variables_for_pipeline_def)

section \<open>Validated manifests\<close>

lemma validate_profiles_ok: "profiles_ok p \<Longrightarrow> validate_profiles p = Inr ()"
  by (cases "pn_strategy p") (auto simp: profiles_ok_def validate_profiles_def)

lemma manifest_ok_profiles:
  "manifest_ok url_parse m \<Longrightarrow> p \<in> set (cm_pipelines m) \<Longrightarrow> validate_profiles p = Inr ()"
  by (simp add: manifest_ok_def node_ok_def validate_profiles_ok)

text \<open>The text of a layer that cannot be expanded.\<close>

definition has_bad_text :: "(str \<rightharpoonup> str) \<Rightarrow> pipeline_node \<Rightarrow> bool" where
  "has_bad_text vars p \<longleftrightarrow>
     (\<exists>ov text position style. pn_overlay p = Some ov \<and>
        TextLayer text position style \<in> set (ov_layers ov) \<and>
        (\<nexists>t. template_denotes (overlay_variables_for_pipeline (pn_id p) vars) text t))"

lemma compile_overlay_layer_Inl:
  assumes "compile_overlay_layer pid vars l = Inl e"
  shows "\<exists>text position style rest. l = TextLayer text position style \<and>
    (\<nexists>t. template_denotes vars text t) \<and> e = InvalidConfiguration (pipeline_msg pid rest)"
proof (cases l)
  case (TextLayer body position style)
  with assms have x: "expand_overlay_template pid vars body = Inl e"
    by (simp add: result_simps)
  then have "\<nexists>t. template_denotes vars body t"
    by (auto simp: template_denotes_def expand_segments)
  moreover obtain rest where "e = InvalidConfiguration (pipeline_msg pid rest)"
    using expand_error_names_pipeline [OF x] ..
  ultimately show ?thesis using TextLayer by auto
qed (use assms in simp_all)

lemma compile_pipeline_Inl:
  assumes "compile_pipeline vars p = Inl e"
  shows "has_bad_text vars p \<and> (\<exists>rest. e = InvalidConfiguration (pipeline_msg (pn_id p) rest))"
proof -
  from assms obtain ov where ov: "pn_overlay p = Some ov" "compile_overlay_profile (pn_id p) vars ov = Inl e"
    by (auto simp: compile_pipeline_def result_simps Let_def split: option.splits)
  then have "try_map (compile_overlay_layer (pn_id p) (overlay_variables_for_pipeline (pn_id p) vars))
      (ov_layers ov) = Inl e"
    by (simp add: compile_overlay_profile_def result_simps Let_def)
  from try_map_Inl [OF this] compile_overlay_layer_Inl ov(1) show ?thesis
    unfolding has_bad_text_def by blast
qed

lemma validate_unchecked_Inl:
  "validate_profiles p = Inr () \<Longrightarrow> validate_pipeline m p None = Inl e \<Longrightarrow>
     sc_hardware_target (cm_system m) = RaspberryPi5 \<and> uses_hardware_encoder p \<and>
     (\<exists>rest. e = HardwareMismatch (pipeline_msg (pn_id p) rest))"
  by (auto simp: validate_pipeline_def result_simps validate_hardware_def validate_requirements_def
      split: if_splits)

text \<open>
  Once a manifest is valid, compiling it without guardrails can only fail for what the
  validation does not look at: a repeated pipeline id, a hardware encoder on a Raspberry Pi 5, a
  text layer whose template has no expansion, or the memory limit. The structural checks the
  compiler repeats (processing, network and overlay profiles per strategy) never fail.
\<close>

theorem valid_manifest_compile_errors:
  assumes "manifest_ok url_parse m"
    and "compile_internal m None vars = Inl e"
  shows "(\<exists>p. e = DuplicatePipelineId p \<and> \<not> distinct (map pn_id (cm_pipelines m))) \<or>
    (\<exists>pid rest. e = HardwareMismatch (pipeline_msg pid rest) \<and>
       sc_hardware_target (cm_system m) = RaspberryPi5 \<and>
       list_ex uses_hardware_encoder (cm_pipelines m)) \<or>
    (\<exists>pid rest. e = InvalidConfiguration (pipeline_msg pid rest) \<and>
       list_ex (has_bad_text vars) (cm_pipelines m)) \<or>
    (\<exists>est. e = ResourceLimitExceeded (memory_limit (cm_system m)) est)"
proof (cases "compile_pipelines m None vars {} (cm_pipelines m)")
  case (Inr cs)
  with assms(2) show ?thesis by (auto simp: compile_internal_unfold split: if_splits)
next
  case (Inl e')
  with assms(2) have e': "compile_pipelines m None vars {} (cm_pipelines m) = Inl e"
    by (simp add: compile_internal_unfold)
  then obtain before p after where p: "cm_pipelines m = before @ p # after"
    "if pn_id p \<in> {} \<union> set (map pn_id before) then e = DuplicatePipelineId (pn_id p)
     else res_bind (validate_pipeline m p None) (\<lambda>_. compile_pipeline vars p) = Inl e"
    unfolding compile_pipelines_Inl by blast
  have in_p: "p \<in> set (cm_pipelines m)" using p(1) by simp
  note profiles = manifest_ok_profiles [OF assms(1) in_p]
  have ex: "list_ex q (cm_pipelines m)" if "q p" for q
    using that in_p by (auto simp: list_ex_iff)
  show ?thesis
  proof (cases "pn_id p \<in> set (map pn_id before)")
    case True
    with p have "e = DuplicatePipelineId (pn_id p)" "\<not> distinct (map pn_id (cm_pipelines m))"
      by auto
    then show ?thesis by blast
  next
    case False
    with p(2) consider "validate_pipeline m p None = Inl e" | "compile_pipeline vars p = Inl e"
      by (auto simp: validate_compile_Inl)
    then show ?thesis
    proof cases
      case 1
      with validate_unchecked_Inl [OF profiles] ex show ?thesis by blast
    next
      case 2
      with compile_pipeline_Inl ex show ?thesis by blast
    qed
  qed
qed

lemma example_manifest_ok: "manifest_ok (\<lambda>s. Inl []) (example_manifest [example_device ''a'', example_device ''a''])"
  by (simp add: manifest_ok_def example_manifest_def node_ok_def example_device_def profiles_ok_def
      input_ok_def starts_with_def style_ok_def example_style_def)

theorem valid_manifest_compile_errors_witness:
  "\<exists>e. compile_internal (example_manifest [example_device ''a'', example_device ''a'']) None Map.empty
       = Inl e \<and> (\<nexists>pid rest. e = HardwareMismatch (pipeline_msg pid rest))"
proof -
  let ?m = "example_manifest [example_device ''a'', example_device ''a'']"
  have "\<not> distinct (map pn_id (cm_pipelines ?m))"
    by (simp add: example_manifest_def)
  then have "compile_internal ?m None Map.empty \<noteq> Inr g" for g
    by (simp add: compile_internal_Inr)
  then obtain e where e: "compile_internal ?m None Map.empty = Inl e"
    by (cases "compile_internal ?m None Map.empty") auto
  have "sc_hardware_target (cm_system ?m) \<noteq> RaspberryPi5"
    by (simp add: example_manifest_def)
  with valid_manifest_compile_errors [OF example_manifest_ok e] e show ?thesis by auto
qed

end
