(* ===== verification/Caml_Pool.thy ===== *)
theory Caml_Pool
  imports Caml_Error
begin

text \<open>
  The buffer pool of \<^verbatim>\<open>crates/caml-core/src/runtime.rs\<close>: \<open>BufferPool\<close>, the write handle
  \<open>MediaBuffer\<close> and the shared read handle \<open>PooledBuffer\<close>, whose \<open>as_slice\<close> reads through a raw
  pointer that was captured when the buffer was frozen.

  Memory is explicit: a \<open>Vec<u8>\<close> is an address with a capacity, the heap maps the addresses of
  live allocations to their initialised bytes, and an address is never given out twice, so that a
  read through a pointer to a freed allocation is visible as a missing entry. Address 0 is the null
  pointer and address 1 the dangling pointer of a vector without capacity. Counts and indices that
  Rust keeps in a \<open>usize\<close> because they are lengths of vectors in memory are natural numbers; the
  reference count is a \<open>usize\<close> that wraps. \<open>None\<close> is a panic or undefined behaviour. Every
  operation holds the pool's mutex, so it is one step; \<open>free_indices\<close> has its top first.
\<close>

section \<open>Vectors\<close>

record vec =
  v_ptr :: nat
  v_cap :: nat

record buffer_slot =
  slot_bytes :: "vec option"
  slot_ptr :: nat
  slot_len :: nat
  slot_refs :: usize

record pool_inner =
  pool_slots :: "buffer_slot list"
  free_indices :: "nat list"
  allocated_count :: nat
  high_watermark :: nat

record store =
  inner :: pool_inner
  buffer_size :: nat
  heap :: "nat \<rightharpoonup> u8 list"
  next_addr :: nat

definition vec_data :: "(nat \<rightharpoonup> u8 list) \<Rightarrow> vec \<Rightarrow> u8 list" where
  "vec_data h v = (if v_cap v = 0 then [] else case h (v_ptr v) of None \<Rightarrow> [] | Some d \<Rightarrow> d)"

text \<open>A fresh vector with the given contents; without capacity it owns no allocation.\<close>

definition vec_alloc :: "nat \<Rightarrow> u8 list \<Rightarrow> store \<Rightarrow> vec \<times> store" where
  "vec_alloc cap d st =
     (if cap = 0 then (\<lparr> v_ptr = 1, v_cap = 0 \<rparr>, st)
      else (\<lparr> v_ptr = next_addr st, v_cap = cap \<rparr>,
            st\<lparr> heap := (heap st)(next_addr st \<mapsto> d), next_addr := next_addr st + 1 \<rparr>))"

definition vec_free :: "vec \<Rightarrow> store \<Rightarrow> store" where
  "vec_free v st = (if v_cap v = 0 then st else st\<lparr> heap := (heap st)(v_ptr v := None) \<rparr>)"

definition vec_write :: "vec \<Rightarrow> u8 list \<Rightarrow> store \<Rightarrow> store" where
  "vec_write v d st = (if v_cap v = 0 then st else st\<lparr> heap := (heap st)(v_ptr v \<mapsto> d) \<rparr>)"

text \<open>\<open>Vec::extend_from_slice\<close>: in place if the capacity suffices, otherwise into a new allocation.\<close>

definition vec_extend :: "vec \<Rightarrow> u8 list \<Rightarrow> store \<Rightarrow> vec \<times> store" where
  "vec_extend v payload st =
     (let d = vec_data (heap st) v @ payload in
      if length d \<le> v_cap v then (v, vec_write v d st)
      else vec_alloc (max (max (2 * v_cap v) (length d)) 8) d (vec_free v st))"

section \<open>The pool\<close>

definition new_slot :: "vec option \<Rightarrow> buffer_slot" where
  "new_slot b = \<lparr> slot_bytes = b, slot_ptr = 0, slot_len = 0, slot_refs = 0 \<rparr>"

definition pool_new :: "nat \<Rightarrow> store" where
  "pool_new sz =
     \<lparr> inner = \<lparr> pool_slots = [], free_indices = [], allocated_count = 0, high_watermark = 0 \<rparr>,
       buffer_size = max sz 1, heap = Map.empty, next_addr = 2 \<rparr>"

definition set_slots :: "buffer_slot list \<Rightarrow> store \<Rightarrow> store" where
  "set_slots ss st = st\<lparr> inner := (inner st)\<lparr> pool_slots := ss \<rparr> \<rparr>"

definition set_free :: "nat list \<Rightarrow> store \<Rightarrow> store" where
  "set_free fs st = st\<lparr> inner := (inner st)\<lparr> free_indices := fs \<rparr> \<rparr>"

definition set_counts :: "nat \<Rightarrow> nat \<Rightarrow> store \<Rightarrow> store" where
  "set_counts a w st = st\<lparr> inner := (inner st)\<lparr> allocated_count := a, high_watermark := w \<rparr> \<rparr>"

abbreviation "slots st \<equiv> pool_slots (inner st)"
abbreviation "free st \<equiv> free_indices (inner st)"

definition count_allocated :: "nat \<Rightarrow> store \<Rightarrow> store" where
  "count_allocated n st =
     (let a = allocated_count (inner st) + n in
      set_counts a (max (high_watermark (inner st)) a) st)"

fun preallocate_loop :: "nat \<Rightarrow> store \<Rightarrow> store" where
  "preallocate_loop 0 st = st"
| "preallocate_loop (Suc n) st =
     (let idx = length (slots st); (v, st1) = vec_alloc (buffer_size st) [] st in
      preallocate_loop n
        (set_free (idx # free st1) (set_slots (slots st1 @ [new_slot (Some v)]) st1)))"

definition preallocate :: "nat \<Rightarrow> store \<Rightarrow> store" where
  "preallocate n st = count_allocated n (preallocate_loop n st)"

record pool_stats =
  available :: nat
  in_use :: nat
  st_high_watermark :: nat

definition stats :: "store \<Rightarrow> pool_stats" where
  "stats st =
     \<lparr> available = length (free st), in_use = allocated_count (inner st) - length (free st),
       st_high_watermark = high_watermark (inner st) \<rparr>"

record media_buffer =
  mb_bytes :: vec
  mb_slot_index :: nat

record pooled_buffer =
  pb_slot_index :: nat

definition acquire :: "store \<Rightarrow> (media_buffer \<times> store) option" where
  "acquire st =
     (case free st of
        idx # rest \<Rightarrow>
          if idx < length (slots st)
          then (case slot_bytes (slots st ! idx) of
                  None \<Rightarrow> None
                | Some v \<Rightarrow> Some (\<lparr> mb_bytes = v, mb_slot_index = idx \<rparr>,
                    vec_write v [] (set_free rest
                      (set_slots ((slots st)[idx := (slots st ! idx)\<lparr> slot_bytes := None \<rparr>]) st))))
          else None
      | [] \<Rightarrow>
          (let idx = length (slots st);
               st1 = count_allocated 1 (set_slots (slots st @ [new_slot None]) st);
               (v, st2) = vec_alloc (buffer_size st) [] st1
           in Some (\<lparr> mb_bytes = v, mb_slot_index = idx \<rparr>, st2)))"

text \<open>\<open>MediaBuffer::extend_from_slice\<close>, and what a caller of \<open>as_mut_vec\<close> can do: leave any vector.\<close>

definition extend_from_slice :: "u8 list \<Rightarrow> media_buffer \<Rightarrow> store \<Rightarrow> media_buffer \<times> store" where
  "extend_from_slice payload b st =
     (let (v, st') = vec_extend (mb_bytes b) payload st in (b\<lparr> mb_bytes := v \<rparr>, st'))"

definition replace_vec :: "nat \<Rightarrow> u8 list \<Rightarrow> media_buffer \<Rightarrow> store \<Rightarrow> media_buffer \<times> store" where
  "replace_vec cap d b st =
     (let (v, st') = vec_alloc cap d (vec_free (mb_bytes b) st) in (b\<lparr> mb_bytes := v \<rparr>, st'))"

text \<open>Assigning to \<open>slot.bytes\<close> drops a vector that was there.\<close>

definition drop_stored :: "nat \<Rightarrow> store \<Rightarrow> store" where
  "drop_stored idx st = (case slot_bytes (slots st ! idx) of None \<Rightarrow> st | Some old \<Rightarrow> vec_free old st)"

definition freeze :: "media_buffer \<Rightarrow> store \<Rightarrow> (pooled_buffer \<times> store) option" where
  "freeze b st =
     (let idx = mb_slot_index b; v = mb_bytes b in
      if idx < length (slots st)
      then Some (\<lparr> pb_slot_index = idx \<rparr>,
        set_slots ((slots st)[idx :=
          \<lparr> slot_bytes = Some v, slot_ptr = v_ptr v, slot_len = length (vec_data (heap st) v),
            slot_refs = 1 \<rparr>]) (drop_stored idx st))
      else None)"

text \<open>\<open>Drop for MediaBuffer\<close>.\<close>

definition drop_media_buffer :: "media_buffer \<Rightarrow> store \<Rightarrow> store option" where
  "drop_media_buffer b st =
     (let idx = mb_slot_index b; v = mb_bytes b in
      if v_cap v = 0 then Some st
      else if idx < length (slots st)
      then Some (vec_write v [] (set_free (idx # free st)
             (set_slots ((slots st)[idx := (slots st ! idx)\<lparr> slot_bytes := Some v \<rparr>])
               (drop_stored idx st))))
      else None)"

text \<open>\<open>PooledBuffer::as_slice\<close>: \<open>from_raw_parts\<close> needs a pointer to at least that many live bytes.\<close>

definition read_raw :: "(nat \<rightharpoonup> u8 list) \<Rightarrow> nat \<Rightarrow> nat \<Rightarrow> u8 list option" where
  "read_raw h ptr len =
     (if ptr = 0 then None
      else if len = 0 then Some []
      else case h ptr of
          None \<Rightarrow> None
        | Some d \<Rightarrow> if len \<le> length d then Some (take len d) else None)"

definition as_slice :: "pooled_buffer \<Rightarrow> store \<Rightarrow> u8 list option" where
  "as_slice r st =
     (let idx = pb_slot_index r in
      if idx < length (slots st)
      then read_raw (heap st) (slot_ptr (slots st ! idx)) (slot_len (slots st ! idx))
      else None)"

definition clone_pooled :: "pooled_buffer \<Rightarrow> store \<Rightarrow> (pooled_buffer \<times> store) option" where
  "clone_pooled r st =
     (let idx = pb_slot_index r in
      if idx < length (slots st)
      then Some (\<lparr> pb_slot_index = idx \<rparr>,
        set_slots ((slots st)[idx := (slots st ! idx)\<lparr> slot_refs := slot_refs (slots st ! idx) + 1 \<rparr>]) st)
      else None)"

text \<open>\<open>Drop for PooledBuffer\<close>.\<close>

definition drop_pooled :: "pooled_buffer \<Rightarrow> store \<Rightarrow> store option" where
  "drop_pooled r st =
     (let idx = pb_slot_index r in
      if idx < length (slots st)
      then (let slot = slots st ! idx; prev = slot_refs slot;
                slot1 = slot\<lparr> slot_refs := prev - 1 \<rparr> in
        if prev = 1
        then Some (set_free (idx # free st)
               (set_slots ((slots st)[idx := slot1\<lparr> slot_ptr := 0, slot_len := 0 \<rparr>]) st))
        else Some (set_slots ((slots st)[idx := slot1]) st))
      else None)"

text \<open>
  How every source hands a payload on: acquire a buffer, copy the bytes into it and freeze it.
\<close>

definition publish_payload :: "u8 list \<Rightarrow> store \<Rightarrow> (pooled_buffer \<times> store) option" where
  "publish_payload payload st =
     (case acquire st of
        None \<Rightarrow> None
      | Some (b, st1) \<Rightarrow>
          (let (b', st2) = extend_from_slice payload b st1 in freeze b' st2))"

section \<open>The world around a pool\<close>

text \<open>
  The handles that are alive. A read handle carries the bytes that were frozen, which the program
  does not store: they say what \<open>as_slice\<close> must return. A handle occupies memory, so fewer than
  \<open>2^64\<close> of them exist.
\<close>

record world =
  w_store :: store
  writers :: "media_buffer list"
  readers :: "(pooled_buffer \<times> u8 list) list"

inductive pool_step :: "world \<Rightarrow> world \<Rightarrow> bool" where
  Preallocate: "pool_step w (w\<lparr> w_store := preallocate n (w_store w) \<rparr>)"
| Acquire: "acquire (w_store w) = Some (b, st) \<Longrightarrow>
    pool_step w (w\<lparr> w_store := st, writers := b # writers w \<rparr>)"
| Extend: "writers w = bs @ b # bs' \<Longrightarrow> extend_from_slice payload b (w_store w) = (b', st) \<Longrightarrow>
    pool_step w (w\<lparr> w_store := st, writers := bs @ b' # bs' \<rparr>)"
| Replace: "writers w = bs @ b # bs' \<Longrightarrow> length d \<le> cap \<Longrightarrow>
    replace_vec cap d b (w_store w) = (b', st) \<Longrightarrow>
    pool_step w (w\<lparr> w_store := st, writers := bs @ b' # bs' \<rparr>)"
| Freeze: "writers w = bs @ b # bs' \<Longrightarrow> freeze b (w_store w) = Some (r, st) \<Longrightarrow>
    pool_step w (w\<lparr> w_store := st, writers := bs @ bs',
      readers := (r, vec_data (heap (w_store w)) (mb_bytes b)) # readers w \<rparr>)"
| DropWriter: "writers w = bs @ b # bs' \<Longrightarrow> drop_media_buffer b (w_store w) = Some st \<Longrightarrow>
    pool_step w (w\<lparr> w_store := st, writers := bs @ bs' \<rparr>)"
| Clone: "(r, d) \<in> set (readers w) \<Longrightarrow> length (readers w) < 2 ^ 64 - 1 \<Longrightarrow>
    clone_pooled r (w_store w) = Some (r', st) \<Longrightarrow>
    pool_step w (w\<lparr> w_store := st, readers := (r', d) # readers w \<rparr>)"
| DropReader: "readers w = rs @ (r, d) # rs' \<Longrightarrow> drop_pooled r (w_store w) = Some st \<Longrightarrow>
    pool_step w (w\<lparr> w_store := st, readers := rs @ rs' \<rparr>)"

definition initial_world :: "nat \<Rightarrow> world" where
  "initial_world sz = \<lparr> w_store = pool_new sz, writers = [], readers = [] \<rparr>"

end
