(* ===== verification/Caml_Pool_Correct.thy ===== *)
theory Caml_Pool_Correct
  imports Caml_Pool
begin

text \<open>
  The buffer pool is memory safe: an invariant of every reachable world, from which follow that no
  operation panics, that a read handle reads exactly what was frozen for as long as it lives, that
  an acquired buffer is nobody else's, and how many buffers are in use. The last section states the
  pool as an interface (a locale) for the sources that publish payloads through it.
\<close>


section \<open>What a slot must look like\<close>

text \<open>
  \<open>own\<close> says which slot's vector an allocation belongs to. A vector of slot \<open>i\<close> owns a live
  allocation of slot \<open>i\<close>, or nothing.
\<close>

definition vec_ok :: "(nat \<Rightarrow> nat) \<Rightarrow> (nat \<rightharpoonup> u8 list) \<Rightarrow> nat \<Rightarrow> nat \<Rightarrow> vec \<Rightarrow> bool" where
  "vec_ok own h next i v \<longleftrightarrow>
     (if v_cap v = 0 then v_ptr v = 1
      else own (v_ptr v) = i \<and> 1 < v_ptr v \<and> v_ptr v < next \<and>
           (\<exists>d. h (v_ptr v) = Some d \<and> length d \<le> v_cap v))"

text \<open>
  The slot with index \<open>i\<close>, how often it is on the free list, its write and its read handles. A
  slot whose vector is stored is either free or frozen and read by all its read handles; a slot
  without one is written by at most one handle.
\<close>

definition slot_ok :: "(nat \<Rightarrow> nat) \<Rightarrow> (nat \<rightharpoonup> u8 list) \<Rightarrow> nat \<Rightarrow> nat \<Rightarrow> buffer_slot option \<Rightarrow> nat \<Rightarrow>
    media_buffer list \<Rightarrow> (pooled_buffer \<times> u8 list) list \<Rightarrow> bool" where
  "slot_ok own h next i so f ws rs \<longleftrightarrow>
     (case so of
        None \<Rightarrow> f = 0 \<and> ws = [] \<and> rs = []
      | Some s \<Rightarrow>
          unat (slot_refs s) = length rs \<and>
          (\<forall>b \<in> set ws. vec_ok own h next i (mb_bytes b)) \<and>
          (case slot_bytes s of
             None \<Rightarrow> f = 0 \<and> rs = [] \<and> length ws \<le> 1
           | Some v \<Rightarrow>
               vec_ok own h next i v \<and> ws = [] \<and> f + min 1 (length rs) = 1 \<and>
               (rs \<noteq> [] \<longrightarrow> slot_ptr s = v_ptr v \<and> slot_len s = length (vec_data h v)) \<and>
               (\<forall>(r, d) \<in> set rs. d = vec_data h v)))"

definition slot_at :: "store \<Rightarrow> nat \<Rightarrow> buffer_slot option" where
  "slot_at st i = (if i < length (slots st) then Some (slots st ! i) else None)"

definition writers_of :: "nat \<Rightarrow> media_buffer list \<Rightarrow> media_buffer list" where
  "writers_of i ws = filter (\<lambda>b. mb_slot_index b = i) ws"

definition readers_of :: "nat \<Rightarrow> (pooled_buffer \<times> u8 list) list \<Rightarrow> (pooled_buffer \<times> u8 list) list" where
  "readers_of i rs = filter (\<lambda>(r, d). pb_slot_index r = i) rs"

abbreviation slot_ok_in :: "(nat \<Rightarrow> nat) \<Rightarrow> store \<Rightarrow> media_buffer list \<Rightarrow> (pooled_buffer \<times> u8 list) list \<Rightarrow> nat \<Rightarrow> bool" where
  "slot_ok_in own st ws rs i \<equiv>
     slot_ok own (heap st) (next_addr st) i (slot_at st i) (count_list (free st) i)
       (writers_of i ws) (readers_of i rs)"

definition store_ok :: "store \<Rightarrow> bool" where
  "store_ok st \<longleftrightarrow>
     0 < buffer_size st \<and> 2 \<le> next_addr st \<and>
     allocated_count (inner st) = length (slots st) \<and>
     high_watermark (inner st) = length (slots st)"

definition pool_inv :: "world \<Rightarrow> bool" where
  "pool_inv w \<longleftrightarrow>
     store_ok (w_store w) \<and>
     (\<exists>own. \<forall>i. slot_ok_in own (w_store w) (writers w) (readers w) i)"

section \<open>Frames\<close>

text \<open>Only allocations of slot \<open>k\<close> and fresh ones change.\<close>

definition only_touches :: "nat \<Rightarrow> (nat \<Rightarrow> nat) \<Rightarrow> store \<Rightarrow> (nat \<Rightarrow> nat) \<Rightarrow> store \<Rightarrow> bool" where
  "only_touches k own st own' st' \<longleftrightarrow>
     next_addr st \<le> next_addr st' \<and>
     (\<forall>a. own a \<noteq> k \<and> 1 < a \<and> a < next_addr st \<longrightarrow> own' a = own a \<and> heap st' a = heap st a)"

lemma only_touches_refl: "heap st' = heap st \<Longrightarrow> next_addr st' = next_addr st \<Longrightarrow> only_touches k own st own st'"
  by (simp add: only_touches_def)

lemma vec_ok_frame:
  "vec_ok own (heap st) (next_addr st) i v \<Longrightarrow> only_touches k own st own' st' \<Longrightarrow> i \<noteq> k \<Longrightarrow>
     vec_ok own' (heap st') (next_addr st') i v \<and> vec_data (heap st') v = vec_data (heap st) v"
  by (auto simp: vec_ok_def only_touches_def vec_data_def split: if_splits)

lemma slot_ok_frame:
  assumes "slot_ok own (heap st) (next_addr st) i so f ws rs" "only_touches k own st own' st'" "i \<noteq> k"
  shows "slot_ok own' (heap st') (next_addr st') i so f ws rs"
  using assms vec_ok_frame [OF _ assms(2,3)]
  by (auto simp: slot_ok_def split: option.splits)

lemma slots_ok_update:
  assumes inv: "\<forall>i. slot_ok_in own st ws rs i"
    and touch: "only_touches k own st own' st'"
    and same: "\<And>i. i \<noteq> k \<Longrightarrow> slot_at st' i = slot_at st i \<and> count_list (free st') i = count_list (free st) i \<and>
      writers_of i ws' = writers_of i ws \<and> readers_of i rs' = readers_of i rs"
    and here: "slot_ok_in own' st' ws' rs' k"
  shows "\<exists>own. \<forall>i. slot_ok_in own st' ws' rs' i"
proof (intro exI allI)
  fix i
  show "slot_ok_in own' st' ws' rs' i"
  proof (cases "i = k")
    case False
    with slot_ok_frame [OF inv [rule_format] touch False] same [OF False] show ?thesis by simp
  qed (simp add: here)
qed

section \<open>Projections\<close>

lemma set_slots_simps [simp]:
  "slots (set_slots ss st) = ss" "free (set_slots ss st) = free st"
  "allocated_count (inner (set_slots ss st)) = allocated_count (inner st)"
  "high_watermark (inner (set_slots ss st)) = high_watermark (inner st)"
  "heap (set_slots ss st) = heap st" "next_addr (set_slots ss st) = next_addr st"
  "buffer_size (set_slots ss st) = buffer_size st"
  by (simp_all add: set_slots_def)

lemma set_free_simps [simp]:
  "slots (set_free fs st) = slots st" "free (set_free fs st) = fs"
  "allocated_count (inner (set_free fs st)) = allocated_count (inner st)"
  "high_watermark (inner (set_free fs st)) = high_watermark (inner st)"
  "heap (set_free fs st) = heap st" "next_addr (set_free fs st) = next_addr st"
  "buffer_size (set_free fs st) = buffer_size st"
  by (simp_all add: set_free_def)

lemma count_allocated_simps [simp]:
  "slots (count_allocated n st) = slots st" "free (count_allocated n st) = free st"
  "allocated_count (inner (count_allocated n st)) = allocated_count (inner st) + n"
  "high_watermark (inner (count_allocated n st)) =
     max (high_watermark (inner st)) (allocated_count (inner st) + n)"
  "heap (count_allocated n st) = heap st" "next_addr (count_allocated n st) = next_addr st"
  "buffer_size (count_allocated n st) = buffer_size st"
  by (simp_all add: count_allocated_def set_counts_def Let_def)

lemma vec_write_simps [simp]:
  "inner (vec_write v d st) = inner st" "next_addr (vec_write v d st) = next_addr st"
  "buffer_size (vec_write v d st) = buffer_size st"
  by (simp_all add: vec_write_def)

lemma vec_free_simps [simp]:
  "inner (vec_free v st) = inner st" "next_addr (vec_free v st) = next_addr st"
  "buffer_size (vec_free v st) = buffer_size st"
  by (simp_all add: vec_free_def)

lemma vec_alloc_simps [simp]:
  "inner (snd (vec_alloc cap d st)) = inner st"
  "buffer_size (snd (vec_alloc cap d st)) = buffer_size st"
  "next_addr st \<le> next_addr (snd (vec_alloc cap d st))"
  by (simp_all add: vec_alloc_def)

lemma slot_at_simps:
  "slot_at (set_slots (ss[k := s]) st) i =
     (if i = k \<and> k < length ss then Some s else if i < length ss then Some (ss ! i) else None)"
  "slot_at (set_slots (ss @ [s]) st) i =
     (if i = length ss then Some s else if i < length ss then Some (ss ! i) else None)"
  by (auto simp: slot_at_def nth_append)

lemma slot_at_inner: "inner st' = inner st \<Longrightarrow> slot_at st' = slot_at st"
  by (simp add: slot_at_def fun_eq_iff)

lemma slot_at_slots: "slots st' = slots st \<Longrightarrow> slot_at st' = slot_at st"
  by (simp add: slot_at_def fun_eq_iff)

section \<open>Vectors\<close>

lemma vec_write_ok:
  assumes "vec_ok own (heap st) (next_addr st) k v" "length d \<le> v_cap v"
  shows "vec_ok own (heap (vec_write v d st)) (next_addr st) k v \<and>
    vec_data (heap (vec_write v d st)) v = d \<and> only_touches k own st own (vec_write v d st)"
  using assms by (auto simp: vec_ok_def vec_write_def vec_data_def only_touches_def split: if_splits)

lemma vec_free_touches:
  "vec_ok own (heap st) (next_addr st) k v \<Longrightarrow> only_touches k own st own (vec_free v st)"
  by (auto simp: vec_ok_def vec_free_def only_touches_def split: if_splits)

lemma vec_alloc_ok:
  assumes "2 \<le> next_addr st" "vec_alloc cap d st = (v, st')" "length d \<le> cap"
  shows "vec_ok (own(next_addr st := k)) (heap st') (next_addr st') k v \<and>
    vec_data (heap st') v = d \<and> only_touches k own st (own(next_addr st := k)) st' \<and>
    inner st' = inner st \<and> buffer_size st' = buffer_size st \<and> v_cap v = cap"
  using assms by (auto simp: vec_alloc_def vec_ok_def vec_data_def only_touches_def split: if_splits)

lemma only_touches_trans:
  "only_touches k own st own' st' \<Longrightarrow> only_touches k own' st' own'' st'' \<Longrightarrow> only_touches k own st own'' st''"
  by (auto simp: only_touches_def)

lemma replace_vec_ok:
  assumes "2 \<le> next_addr st" "vec_ok own (heap st) (next_addr st) k v" "length d \<le> cap"
    and "vec_alloc cap d (vec_free v st) = (v', st')"
  shows "\<exists>own'. vec_ok own' (heap st') (next_addr st') k v' \<and>
    vec_data (heap st') v' = d \<and> only_touches k own st own' st' \<and>
    inner st' = inner st \<and> buffer_size st' = buffer_size st"
  using assms vec_alloc_ok [of "vec_free v st" cap d v' st' own k]
    only_touches_trans [OF vec_free_touches [OF assms(2)]] by auto

lemma vec_extend_ok:
  assumes "2 \<le> next_addr st" "vec_ok own (heap st) (next_addr st) k v"
    and "vec_extend v payload st = (v', st')"
  shows "\<exists>own'. vec_ok own' (heap st') (next_addr st') k v' \<and>
    vec_data (heap st') v' = vec_data (heap st) v @ payload \<and> only_touches k own st own' st' \<and>
    inner st' = inner st \<and> buffer_size st' = buffer_size st"
proof -
  let ?d = "vec_data (heap st) v @ payload"
  show ?thesis
  proof (cases "length ?d \<le> v_cap v")
    case True
    with assms have "v' = v" "st' = vec_write v ?d st" by (auto simp: vec_extend_def Let_def)
    with vec_write_ok [OF assms(2) True] show ?thesis by (intro exI [of _ own]) simp
  next
    case False
    with assms have "vec_alloc (max (max (2 * v_cap v) (length ?d)) 8) ?d (vec_free v st) = (v', st')"
      by (simp add: vec_extend_def Let_def)
    from replace_vec_ok [OF assms(1,2) _ this] show ?thesis by simp
  qed
qed

section \<open>Every step keeps the invariant\<close>

lemma count_list_pos: "x \<in> set xs \<longleftrightarrow> 0 < count_list xs x"
  by (metis count_list_0_iff neq0_conv)

lemma slot_ok_None: "slot_ok own h next i None f ws rs \<longleftrightarrow> f = 0 \<and> ws = [] \<and> rs = []"
  by (simp add: slot_ok_def)

lemma slot_ok_Some:
  assumes "slot_ok own h next i so f ws rs" "0 < f \<or> ws \<noteq> [] \<or> rs \<noteq> []"
  obtains s where "so = Some s" "slot_ok own h next i (Some s) f ws rs" "unat (slot_refs s) = length rs"
  using assms by (cases so) (auto simp: slot_ok_def)

lemma slot_ok_stored:
  assumes "slot_ok own h next i so f ws rs" "0 < f \<or> rs \<noteq> []"
  obtains s v where "so = Some s" "slot_bytes s = Some v" "vec_ok own h next i v" "ws = []"
    "f + min 1 (length rs) = 1" "unat (slot_refs s) = length rs"
    "rs \<noteq> [] \<longrightarrow> slot_ptr s = v_ptr v \<and> slot_len s = length (vec_data h v)"
    "\<forall>(r, d) \<in> set rs. d = vec_data h v"
proof -
  have "0 < f \<or> ws \<noteq> [] \<or> rs \<noteq> []" using assms(2) by auto
  with assms(1) obtain s where s: "so = Some s" "slot_ok own h next i (Some s) f ws rs"
    "unat (slot_refs s) = length rs"
    by (rule slot_ok_Some)
  then obtain v where "slot_bytes s = Some v" using assms(2) by (cases "slot_bytes s") (auto simp: slot_ok_def)
  with s show thesis using that by (simp add: slot_ok_def)
qed

lemma slot_ok_free:
  assumes "slot_ok own h next i so f ws rs" "0 < f"
  obtains s v where "so = Some s" "slot_bytes s = Some v" "vec_ok own h next i v" "f = 1" "ws = []" "rs = []"
    "slot_refs s = 0"
proof -
  from assms(1) disjI1 [OF assms(2)]
  obtain s v where *: "so = Some s" "slot_bytes s = Some v" "vec_ok own h next i v" "ws = []"
    "f + min 1 (length rs) = 1" "unat (slot_refs s) = length rs"
    by (rule slot_ok_stored)
  moreover from *(5) assms(2) have "rs = []" by (cases rs) auto
  ultimately show thesis using that by (simp add: unat_eq_zero)
qed

lemma slot_ok_writer:
  assumes "slot_ok own h next i so f ws rs" "b \<in> set ws"
  obtains s where "so = Some s" "slot_bytes s = None" "ws = [b]" "f = 0" "rs = []" "slot_refs s = 0"
    "vec_ok own h next i (mb_bytes b)"
proof -
  have "0 < f \<or> ws \<noteq> [] \<or> rs \<noteq> []" using assms(2) by auto
  with assms(1) obtain s where s: "so = Some s" "slot_ok own h next i (Some s) f ws rs"
    by (rule slot_ok_Some)
  moreover have "slot_bytes s = None"
    using s assms(2) by (cases "slot_bytes s") (auto simp: slot_ok_def)
  ultimately show thesis
    using that assms(2) by (cases ws) (auto simp: slot_ok_def unat_eq_zero)
qed

lemma slot_ok_reader:
  assumes "slot_ok own h next i so f ws rs" "(r, d) \<in> set rs"
  obtains s v where "so = Some s" "slot_bytes s = Some v" "vec_ok own h next i v" "f = 0" "ws = []"
    "unat (slot_refs s) = length rs" "slot_ptr s = v_ptr v" "slot_len s = length d" "d = vec_data h v"
    "\<forall>(r', d') \<in> set rs. d' = d"
proof -
  have ne: "rs \<noteq> []" using assms(2) by auto
  from assms(1) disjI2 [OF ne]
  obtain s v where *: "so = Some s" "slot_bytes s = Some v" "vec_ok own h next i v" "ws = []"
    "f + min 1 (length rs) = 1" "unat (slot_refs s) = length rs"
    "rs \<noteq> [] \<longrightarrow> slot_ptr s = v_ptr v \<and> slot_len s = length (vec_data h v)"
    "\<forall>(r, d) \<in> set rs. d = vec_data h v"
    by (rule slot_ok_stored)
  moreover from ne *(5) have "f = 0" by (cases rs) auto
  moreover from *(8) assms(2) have "d = vec_data h v" by auto
  ultimately show thesis using that ne by simp
qed

lemma slot_at_Some: "slot_at st i = Some s \<longleftrightarrow> i < length (slots st) \<and> slots st ! i = s"
  by (auto simp: slot_at_def)

lemma writers_of_simps [simp]:
  "writers_of i [] = []" "writers_of i (b # bs) = (if mb_slot_index b = i then b # writers_of i bs else writers_of i bs)"
  "writers_of i (bs @ bs') = writers_of i bs @ writers_of i bs'"
  by (simp_all add: writers_of_def)

lemma readers_of_simps [simp]:
  "readers_of i [] = []"
  "readers_of i ((r, d) # rs) = (if pb_slot_index r = i then (r, d) # readers_of i rs else readers_of i rs)"
  "readers_of i (rs @ rs') = readers_of i rs @ readers_of i rs'"
  by (simp_all add: readers_of_def)

lemma acquire_ok:
  assumes st: "store_ok st" and inv: "\<forall>i. slot_ok_in own st ws rs i"
  shows "\<exists>b st'. acquire st = Some (b, st') \<and> store_ok st' \<and>
    (\<exists>own. \<forall>i. slot_ok_in own st' (b # ws) rs i) \<and>
    vec_data (heap st') (mb_bytes b) = [] \<and>
    writers_of (mb_slot_index b) ws = [] \<and> readers_of (mb_slot_index b) rs = []"
proof (cases "free st")
  case (Cons k rest)
  have "slot_ok_in own st ws rs k" by (rule inv [rule_format])
  moreover have "0 < count_list (free st) k" using Cons by simp
  ultimately obtain s v where s: "slot_at st k = Some s" "slot_bytes s = Some v"
    and v: "vec_ok own (heap st) (next_addr st) k v" and f: "count_list (free st) k = 1"
    and w: "writers_of k ws = []" and r: "readers_of k rs = []" and z: "slot_refs s = 0"
    by (rule slot_ok_free)
  let ?b = "\<lparr> mb_bytes = v, mb_slot_index = k \<rparr>"
  let ?st1 = "set_free rest (set_slots ((slots st)[k := s\<lparr> slot_bytes := None \<rparr>]) st)"
  let ?st' = "vec_write v [] ?st1"
  have a: "acquire st = Some (?b, ?st')"
    using Cons s by (simp add: acquire_def slot_at_Some)
  have v1: "vec_ok own (heap ?st1) (next_addr ?st1) k v" using v by simp
  have wr: "vec_ok own (heap ?st') (next_addr ?st1) k v" "vec_data (heap ?st') v = []"
    "only_touches k own ?st1 own ?st'"
    using vec_write_ok [OF v1, of "[]"] by simp_all
  have "\<exists>own. \<forall>i. slot_ok_in own ?st' (?b # ws) rs i"
  proof (rule slots_ok_update [OF inv])
    show "only_touches k own st own ?st'"
      using wr(3) by (simp add: only_touches_def)
    show "slot_ok_in own ?st' (?b # ws) rs k"
      using s f w r z wr(1) Cons
      by (simp add: slot_ok_def slot_at_simps slot_at_inner [of ?st' ?st1] slot_at_slots [of ?st1 "set_slots ((slots st)[k := s\<lparr> slot_bytes := None \<rparr>]) st"] slot_at_Some)
    show "slot_at ?st' i = slot_at st i \<and> count_list (free ?st') i = count_list (free st) i \<and>
        writers_of i (?b # ws) = writers_of i ws \<and> readers_of i rs = readers_of i rs" if "i \<noteq> k" for i
      using that Cons by (auto simp: slot_at_def)
  qed
  moreover have "store_ok ?st'" using st by (simp add: store_ok_def)
  ultimately show ?thesis using a wr(2) w r by auto
next
  case Nil
  let ?k = "length (slots st)"
  let ?st1 = "count_allocated 1 (set_slots (slots st @ [new_slot None]) st)"
  obtain v st2 where v: "vec_alloc (buffer_size st) [] ?st1 = (v, st2)" by fastforce
  let ?b = "\<lparr> mb_bytes = v, mb_slot_index = ?k \<rparr>"
  have a: "acquire st = Some (?b, st2)"
    using Nil v by (simp add: acquire_def Let_def)
  have n: "2 \<le> next_addr ?st1" using st by (simp add: store_ok_def)
  note va = vec_alloc_ok [OF n v, of own ?k, simplified]
  have none: "writers_of ?k ws = []" "readers_of ?k rs = []"
    using inv [rule_format, of ?k] by (simp_all add: slot_ok_def slot_at_def)
  have slots2: "slots st2 = slots st @ [new_slot None]" "free st2 = []"
    using va Nil by simp_all
  have "\<exists>own. \<forall>i. slot_ok_in own st2 (?b # ws) rs i"
  proof (rule slots_ok_update [OF inv])
    show "only_touches ?k own st (own(next_addr ?st1 := ?k)) st2"
      using va by (simp add: only_touches_def)
    show "slot_ok_in (own(next_addr ?st1 := ?k)) st2 (?b # ws) rs ?k"
      using va none slots2 by (simp add: slot_ok_def slot_at_def new_slot_def)
    show "slot_at st2 i = slot_at st i \<and> count_list (free st2) i = count_list (free st) i \<and>
        writers_of i (?b # ws) = writers_of i ws \<and> readers_of i rs = readers_of i rs" if "i \<noteq> ?k" for i
      using that Nil slots2 by (auto simp: slot_at_def nth_append)
  qed
  moreover have "store_ok st2"
    using st va by (simp add: store_ok_def only_touches_def)
  ultimately show ?thesis using a va none by auto
qed

lemma writer_slot:
  assumes inv: "\<forall>i. slot_ok_in own st (bs @ b # bs') rs i"
  obtains s where "mb_slot_index b < length (slots st)" "slots st ! mb_slot_index b = s"
    "slot_bytes s = None" "slot_refs s = 0"
    "writers_of (mb_slot_index b) bs = []" "writers_of (mb_slot_index b) bs' = []"
    "count_list (free st) (mb_slot_index b) = 0" "readers_of (mb_slot_index b) rs = []"
    "vec_ok own (heap st) (next_addr st) (mb_slot_index b) (mb_bytes b)"
proof -
  have "slot_ok_in own st (bs @ b # bs') rs (mb_slot_index b)" by (rule inv [rule_format])
  moreover have "b \<in> set (writers_of (mb_slot_index b) (bs @ b # bs'))" by simp
  ultimately obtain s where s: "slot_at st (mb_slot_index b) = Some s" "slot_bytes s = None"
    "writers_of (mb_slot_index b) (bs @ b # bs') = [b]"
    "count_list (free st) (mb_slot_index b) = 0" "readers_of (mb_slot_index b) rs = []"
    "slot_refs s = 0" "vec_ok own (heap st) (next_addr st) (mb_slot_index b) (mb_bytes b)"
    by (rule slot_ok_writer)
  moreover from s(3) have "writers_of (mb_slot_index b) bs = [] \<and> writers_of (mb_slot_index b) bs' = []"
    by (cases "writers_of (mb_slot_index b) bs") auto
  ultimately show thesis using that by (auto simp: slot_at_Some)
qed

lemma writer_update_ok:
  assumes st: "store_ok st" and inv: "\<forall>i. slot_ok_in own st (bs @ b # bs') rs i"
    and idx: "mb_slot_index b' = mb_slot_index b"
    and new: "vec_ok own' (heap st') (next_addr st') (mb_slot_index b) (mb_bytes b')"
    and touch: "only_touches (mb_slot_index b) own st own' st'"
    and same: "inner st' = inner st" "buffer_size st' = buffer_size st"
  shows "store_ok st' \<and> (\<exists>own. \<forall>i. slot_ok_in own st' (bs @ b' # bs') rs i)"
proof -
  let ?k = "mb_slot_index b"
  obtain s where s: "?k < length (slots st)" "slots st ! ?k = s" "slot_bytes s = None" "slot_refs s = 0"
    "writers_of ?k bs = []" "writers_of ?k bs' = []" "count_list (free st) ?k = 0" "readers_of ?k rs = []"
    using inv by (rule writer_slot)
  have "\<exists>own. \<forall>i. slot_ok_in own st' (bs @ b' # bs') rs i"
  proof (rule slots_ok_update [OF inv touch])
    show "slot_ok_in own' st' (bs @ b' # bs') rs ?k"
      using s new idx by (simp add: slot_ok_def slot_at_def same)
  qed (use idx in \<open>simp add: slot_at_def same\<close>)
  moreover have "store_ok st'"
    using st touch by (simp add: store_ok_def same only_touches_def)
  ultimately show ?thesis by blast
qed

lemma extend_ok:
  assumes st: "store_ok st" and inv: "\<forall>i. slot_ok_in own st (bs @ b # bs') rs i"
    and ext: "extend_from_slice payload b st = (b', st')"
  shows "store_ok st' \<and> (\<exists>own. \<forall>i. slot_ok_in own st' (bs @ b' # bs') rs i) \<and>
    vec_data (heap st') (mb_bytes b') = vec_data (heap st) (mb_bytes b) @ payload \<and>
    mb_slot_index b' = mb_slot_index b"
proof -
  obtain v where v: "vec_extend (mb_bytes b) payload st = (v, st')" "b' = b\<lparr> mb_bytes := v \<rparr>"
    using ext by (auto simp: extend_from_slice_def split: prod.splits)
  have n: "2 \<le> next_addr st" using st by (simp add: store_ok_def)
  obtain s where "vec_ok own (heap st) (next_addr st) (mb_slot_index b) (mb_bytes b)"
    using inv by (rule writer_slot)
  from vec_extend_ok [OF n this v(1)] obtain own' where own':
    "vec_ok own' (heap st') (next_addr st') (mb_slot_index b) v"
    "vec_data (heap st') v = vec_data (heap st) (mb_bytes b) @ payload"
    "only_touches (mb_slot_index b) own st own' st'" "inner st' = inner st"
    "buffer_size st' = buffer_size st" by blast
  with writer_update_ok [OF st inv, of b' own' st'] v(2) show ?thesis by simp
qed

lemma replace_ok:
  assumes st: "store_ok st" and inv: "\<forall>i. slot_ok_in own st (bs @ b # bs') rs i"
    and "length d \<le> cap" "replace_vec cap d b st = (b', st')"
  shows "store_ok st' \<and> (\<exists>own. \<forall>i. slot_ok_in own st' (bs @ b' # bs') rs i)"
proof -
  obtain v where v: "vec_alloc cap d (vec_free (mb_bytes b) st) = (v, st')" "b' = b\<lparr> mb_bytes := v \<rparr>"
    using assms(4) by (auto simp: replace_vec_def split: prod.splits)
  have n: "2 \<le> next_addr st" using st by (simp add: store_ok_def)
  obtain s where "vec_ok own (heap st) (next_addr st) (mb_slot_index b) (mb_bytes b)"
    using inv by (rule writer_slot)
  from replace_vec_ok [OF n this assms(3) v(1)] obtain own' where own':
    "vec_ok own' (heap st') (next_addr st') (mb_slot_index b) v"
    "only_touches (mb_slot_index b) own st own' st'" "inner st' = inner st"
    "buffer_size st' = buffer_size st" by blast
  with writer_update_ok [OF st inv, of b' own' st'] v(2) show ?thesis by simp
qed

lemma freeze_ok:
  assumes st: "store_ok st" and inv: "\<forall>i. slot_ok_in own st (bs @ b # bs') rs i"
  shows "\<exists>r st'. freeze b st = Some (r, st') \<and> store_ok st' \<and>
    (\<exists>own. \<forall>i. slot_ok_in own st' (bs @ bs') ((r, vec_data (heap st) (mb_bytes b)) # rs) i)"
proof -
  let ?k = "mb_slot_index b" let ?v = "mb_bytes b" let ?d = "vec_data (heap st) (mb_bytes b)"
  obtain s where s: "?k < length (slots st)" "slots st ! ?k = s" "slot_bytes s = None" "slot_refs s = 0"
    "writers_of ?k bs = []" "writers_of ?k bs' = []" "count_list (free st) ?k = 0" "readers_of ?k rs = []"
    and v: "vec_ok own (heap st) (next_addr st) ?k ?v"
    using inv by (rule writer_slot)
  let ?r = "\<lparr> pb_slot_index = ?k \<rparr>"
  let ?s = "\<lparr> slot_bytes = Some ?v, slot_ptr = v_ptr ?v, slot_len = length ?d, slot_refs = 1 \<rparr>"
  let ?st' = "set_slots ((slots st)[?k := ?s]) st"
  have fr: "freeze b st = Some (?r, ?st')"
    using s by (simp add: freeze_def Let_def drop_stored_def)
  have "\<exists>own. \<forall>i. slot_ok_in own ?st' (bs @ bs') ((?r, ?d) # rs) i"
  proof (rule slots_ok_update [OF inv])
    show "only_touches ?k own st own ?st'" by (rule only_touches_refl) simp_all
    show "slot_ok_in own ?st' (bs @ bs') ((?r, ?d) # rs) ?k"
      using s v by (simp add: slot_ok_def slot_at_simps)
    show "slot_at ?st' i = slot_at st i \<and> count_list (free ?st') i = count_list (free st) i \<and>
        writers_of i (bs @ bs') = writers_of i (bs @ b # bs') \<and>
        readers_of i ((?r, ?d) # rs) = readers_of i rs" if "i \<noteq> ?k" for i
      using that by (auto simp: slot_at_def)
  qed
  moreover have "store_ok ?st'" using st by (simp add: store_ok_def)
  ultimately show ?thesis using fr by blast
qed

lemma drop_writer_ok:
  assumes st: "store_ok st" and inv: "\<forall>i. slot_ok_in own st (bs @ b # bs') rs i"
  shows "\<exists>st'. drop_media_buffer b st = Some st' \<and> store_ok st' \<and>
    (\<exists>own. \<forall>i. slot_ok_in own st' (bs @ bs') rs i)"
proof -
  let ?k = "mb_slot_index b" let ?v = "mb_bytes b"
  obtain s where s: "?k < length (slots st)" "slots st ! ?k = s" "slot_bytes s = None" "slot_refs s = 0"
    "writers_of ?k bs = []" "writers_of ?k bs' = []" "count_list (free st) ?k = 0" "readers_of ?k rs = []"
    and v: "vec_ok own (heap st) (next_addr st) ?k ?v"
    using inv by (rule writer_slot)
  show ?thesis
  proof (cases "v_cap ?v = 0")
    case True
    have "\<exists>own. \<forall>i. slot_ok_in own st (bs @ bs') rs i"
    proof (rule slots_ok_update [OF inv])
      show "only_touches ?k own st own st" by (rule only_touches_refl) simp_all
      show "slot_ok_in own st (bs @ bs') rs ?k"
        using s by (simp add: slot_ok_def slot_at_def)
    qed simp
    then show ?thesis using True st by (simp add: drop_media_buffer_def)
  next
    case False
    let ?st1 = "set_free (?k # free st) (set_slots ((slots st)[?k := s\<lparr> slot_bytes := Some ?v \<rparr>]) st)"
    let ?st' = "vec_write ?v [] ?st1"
    have dr: "drop_media_buffer b st = Some ?st'"
      using s False by (simp add: drop_media_buffer_def Let_def drop_stored_def)
    have v1: "vec_ok own (heap ?st1) (next_addr ?st1) ?k ?v" using v by simp
    have wr: "vec_ok own (heap ?st') (next_addr ?st1) ?k ?v" "only_touches ?k own ?st1 own ?st'"
      using vec_write_ok [OF v1, of "[]"] by simp_all
    have "\<exists>own. \<forall>i. slot_ok_in own ?st' (bs @ bs') rs i"
    proof (rule slots_ok_update [OF inv])
      show "only_touches ?k own st own ?st'" using wr(2) by (simp add: only_touches_def)
      show "slot_ok_in own ?st' (bs @ bs') rs ?k"
        using s wr(1) by (simp add: slot_ok_def slot_at_def)
      show "slot_at ?st' i = slot_at st i \<and> count_list (free ?st') i = count_list (free st) i \<and>
          writers_of i (bs @ bs') = writers_of i (bs @ b # bs') \<and> readers_of i rs = readers_of i rs"
        if "i \<noteq> ?k" for i
        using that by (auto simp: slot_at_def)
    qed
    moreover have "store_ok ?st'" using st by (simp add: store_ok_def)
    ultimately show ?thesis using dr by blast
  qed
qed

lemma reader_slot:
  assumes inv: "\<forall>i. slot_ok_in own st ws rs i" and mem: "(r, d) \<in> set rs"
  obtains s v where "pb_slot_index r < length (slots st)" "slots st ! pb_slot_index r = s"
    "slot_bytes s = Some v" "vec_ok own (heap st) (next_addr st) (pb_slot_index r) v"
    "count_list (free st) (pb_slot_index r) = 0" "writers_of (pb_slot_index r) ws = []"
    "unat (slot_refs s) = length (readers_of (pb_slot_index r) rs)"
    "slot_ptr s = v_ptr v" "slot_len s = length d" "d = vec_data (heap st) v"
    "\<forall>(r', d') \<in> set (readers_of (pb_slot_index r) rs). d' = d"
proof -
  have "slot_ok_in own st ws rs (pb_slot_index r)" by (rule inv [rule_format])
  moreover have "(r, d) \<in> set (readers_of (pb_slot_index r) rs)"
    using mem by (simp add: readers_of_def)
  ultimately obtain s v where "slot_at st (pb_slot_index r) = Some s" "slot_bytes s = Some v"
    "vec_ok own (heap st) (next_addr st) (pb_slot_index r) v"
    "count_list (free st) (pb_slot_index r) = 0" "writers_of (pb_slot_index r) ws = []"
    "unat (slot_refs s) = length (readers_of (pb_slot_index r) rs)"
    "slot_ptr s = v_ptr v" "slot_len s = length d" "d = vec_data (heap st) v"
    "\<forall>(r', d') \<in> set (readers_of (pb_slot_index r) rs). d' = d"
    by (rule slot_ok_reader)
  then show thesis using that by (simp add: slot_at_Some)
qed

lemma as_slice_ok:
  assumes inv: "\<forall>i. slot_ok_in own st ws rs i" and mem: "(r, d) \<in> set rs"
  shows "as_slice r st = Some d"
proof -
  obtain s v where s: "pb_slot_index r < length (slots st)" "slots st ! pb_slot_index r = s"
    "slot_ptr s = v_ptr v" "slot_len s = length d" "d = vec_data (heap st) v"
    and v: "vec_ok own (heap st) (next_addr st) (pb_slot_index r) v"
    using inv mem by (rule reader_slot)
  have "v_ptr v \<noteq> 0" using v by (simp add: vec_ok_def split: if_splits)
  moreover have "heap st (v_ptr v) = Some d" if "d \<noteq> []"
    using that v s(5) by (auto simp: vec_ok_def vec_data_def split: if_splits)
  ultimately show ?thesis
    using s(1-4) by (cases "d = []") (simp_all add: as_slice_def Let_def read_raw_def)
qed

lemma readers_of_length: "length (readers_of i rs) \<le> length rs"
  by (simp add: readers_of_def)

lemma unat_plus_1: "unat w < 2 ^ 64 - 1 \<Longrightarrow> unat (w + 1) = unat w + 1" for w :: usize
  by (simp add: unat_word_ariths)

lemma clone_ok:
  assumes st: "store_ok st" and inv: "\<forall>i. slot_ok_in own st ws rs i" and mem: "(r, d) \<in> set rs"
    and few: "length rs < 2 ^ 64 - 1"
  shows "\<exists>r' st'. clone_pooled r st = Some (r', st') \<and> store_ok st' \<and>
    (\<exists>own. \<forall>i. slot_ok_in own st' ws ((r', d) # rs) i)"
proof -
  let ?k = "pb_slot_index r"
  obtain s v where s: "?k < length (slots st)" "slots st ! ?k = s" "slot_bytes s = Some v"
    "vec_ok own (heap st) (next_addr st) ?k v" "count_list (free st) ?k = 0" "writers_of ?k ws = []"
    "unat (slot_refs s) = length (readers_of ?k rs)"
    "slot_ptr s = v_ptr v" "slot_len s = length d" "d = vec_data (heap st) v"
    "\<forall>(r', d') \<in> set (readers_of ?k rs). d' = d"
    using inv mem by (rule reader_slot)
  let ?r = "\<lparr> pb_slot_index = ?k \<rparr>"
  let ?s = "s\<lparr> slot_refs := slot_refs s + 1 \<rparr>"
  let ?st' = "set_slots ((slots st)[?k := ?s]) st"
  have cl: "clone_pooled r st = Some (?r, ?st')" using s by (simp add: clone_pooled_def Let_def)
  have "unat (slot_refs s) < 2 ^ 64 - 1" using few readers_of_length [of ?k rs] s(7) by simp
  then have cnt: "unat (slot_refs s + 1) = Suc (length (readers_of ?k rs))"
    using s(7) by (simp add: unat_plus_1)
  have "\<exists>own. \<forall>i. slot_ok_in own ?st' ws ((?r, d) # rs) i"
  proof (rule slots_ok_update [OF inv])
    show "only_touches ?k own st own ?st'" by (rule only_touches_refl) simp_all
    show "slot_ok_in own ?st' ws ((?r, d) # rs) ?k"
      using s cnt by (simp add: slot_ok_def slot_at_simps)
    show "slot_at ?st' i = slot_at st i \<and> count_list (free ?st') i = count_list (free st) i \<and>
        writers_of i ws = writers_of i ws \<and> readers_of i ((?r, d) # rs) = readers_of i rs"
      if "i \<noteq> ?k" for i
      using that by (auto simp: slot_at_def)
  qed
  moreover have "store_ok ?st'" using st by (simp add: store_ok_def)
  ultimately show ?thesis using cl by blast
qed

lemma unat_minus_1: "0 < unat w \<Longrightarrow> unat (w - 1) = unat w - 1" for w :: usize
  by (metis unat_minus_one unat_gt_0)

lemma drop_reader_ok:
  assumes st: "store_ok st" and inv: "\<forall>i. slot_ok_in own st ws (xs @ (r, d) # ys) i"
  shows "\<exists>st'. drop_pooled r st = Some st' \<and> store_ok st' \<and>
    (\<exists>own. \<forall>i. slot_ok_in own st' ws (xs @ ys) i)"
proof -
  let ?k = "pb_slot_index r" let ?rs = "xs @ (r, d) # ys"
  have "(r, d) \<in> set ?rs" by simp
  with inv obtain s v where s: "?k < length (slots st)" "slots st ! ?k = s" "slot_bytes s = Some v"
    "vec_ok own (heap st) (next_addr st) ?k v" "count_list (free st) ?k = 0" "writers_of ?k ws = []"
    "unat (slot_refs s) = length (readers_of ?k ?rs)"
    "slot_ptr s = v_ptr v" "slot_len s = length d" "d = vec_data (heap st) v"
    "\<forall>(r', d') \<in> set (readers_of ?k ?rs). d' = d"
    by (rule reader_slot)
  let ?n = "length (readers_of ?k (xs @ ys))"
  have refs: "unat (slot_refs s) = Suc ?n" using s(7) by simp
  then have cnt: "unat (slot_refs s - 1) = ?n" by (simp add: unat_minus_1)
  have last: "slot_refs s = 1 \<longleftrightarrow> readers_of ?k (xs @ ys) = []"
    using refs by (auto simp: word_unat_eq_iff)
  have same: "only_touches ?k own st own st'" if "heap st' = heap st" "next_addr st' = next_addr st" for st'
    using that by (rule only_touches_refl)
  define st' where "st' = (if slot_refs s = 1
      then set_free (?k # free st) (set_slots ((slots st)[?k := s\<lparr> slot_refs := slot_refs s - 1,
             slot_ptr := 0, slot_len := 0 \<rparr>]) st)
      else set_slots ((slots st)[?k := s\<lparr> slot_refs := slot_refs s - 1 \<rparr>]) st)"
  have dr: "drop_pooled r st = Some st'"
    using s(1,2) by (simp add: drop_pooled_def Let_def st'_def)
  have "\<exists>own. \<forall>i. slot_ok_in own st' ws (xs @ ys) i"
  proof (rule slots_ok_update [OF inv])
    show "only_touches ?k own st own st'" by (rule same) (simp_all add: st'_def)
    show "slot_ok_in own st' ws (xs @ ys) ?k"
    proof (cases "slot_refs s = 1")
      case True
      with s last show ?thesis by (simp add: slot_ok_def slot_at_def st'_def)
    next
      case False
      with last have "readers_of ?k (xs @ ys) \<noteq> []" by simp
      then have "min (Suc 0) ?n = Suc 0" by (cases "readers_of ?k (xs @ ys)") auto
      with s cnt False show ?thesis by (auto simp: slot_ok_def slot_at_def st'_def)
    qed
    show "slot_at st' i = slot_at st i \<and> count_list (free st') i = count_list (free st) i \<and>
        writers_of i ws = writers_of i ws \<and> readers_of i (xs @ ys) = readers_of i ?rs"
      if "i \<noteq> ?k" for i
      using that by (auto simp: slot_at_def st'_def)
  qed
  moreover have "store_ok st'" using st by (simp add: store_ok_def st'_def)
  ultimately show ?thesis using dr by blast
qed

lemma preallocate_loop_ok:
  assumes "\<forall>i. slot_ok_in own st ws rs i" "0 < buffer_size st" "2 \<le> next_addr st"
  shows "(\<exists>own. \<forall>i. slot_ok_in own (preallocate_loop n st) ws rs i) \<and>
    buffer_size (preallocate_loop n st) = buffer_size st \<and> 2 \<le> next_addr (preallocate_loop n st) \<and>
    length (slots (preallocate_loop n st)) = length (slots st) + n \<and>
    allocated_count (inner (preallocate_loop n st)) = allocated_count (inner st) \<and>
    high_watermark (inner (preallocate_loop n st)) = high_watermark (inner st)"
  using assms
proof (induction n arbitrary: own st)
  case 0
  then show ?case by auto
next
  case (Suc n)
  let ?k = "length (slots st)"
  obtain v st1 where v: "vec_alloc (buffer_size st) [] st = (v, st1)" by fastforce
  note va = vec_alloc_ok [OF Suc.prems(3) v, of own ?k, simplified]
  let ?st2 = "set_free (?k # free st1) (set_slots (slots st1 @ [new_slot (Some v)]) st1)"
  have none: "writers_of ?k ws = []" "readers_of ?k rs = []" "count_list (free st) ?k = 0"
    using Suc.prems(1) [rule_format, of ?k] by (simp_all add: slot_ok_def slot_at_def)
  have "\<exists>own. \<forall>i. slot_ok_in own ?st2 ws rs i"
  proof (rule slots_ok_update [OF Suc.prems(1)])
    show "only_touches ?k own st (own(next_addr st := ?k)) ?st2"
      using va by (simp add: only_touches_def)
    show "slot_ok_in (own(next_addr st := ?k)) ?st2 ws rs ?k"
      using va none by (simp add: slot_ok_def slot_at_def new_slot_def)
    show "slot_at ?st2 i = slot_at st i \<and> count_list (free ?st2) i = count_list (free st) i \<and>
        writers_of i ws = writers_of i ws \<and> readers_of i rs = readers_of i rs" if "i \<noteq> ?k" for i
      using that va by (auto simp: slot_at_def nth_append)
  qed
  then obtain own2 where own2: "\<forall>i. slot_ok_in own2 ?st2 ws rs i" ..
  have b: "0 < buffer_size ?st2" "2 \<le> next_addr ?st2"
    using va Suc.prems(2,3) by (auto simp: only_touches_def)
  show ?case
    using Suc.IH [OF own2 b] va by (simp add: v)
qed

lemma preallocate_ok:
  assumes "store_ok st" "\<forall>i. slot_ok_in own st ws rs i"
  shows "store_ok (preallocate n st) \<and> (\<exists>own. \<forall>i. slot_ok_in own (preallocate n st) ws rs i)"
proof -
  have b: "0 < buffer_size st" "2 \<le> next_addr st" using assms(1) by (simp_all add: store_ok_def)
  note loop = preallocate_loop_ok [OF assms(2) b, of n]
  have "slot_at (preallocate n st) = slot_at (preallocate_loop n st)"
    by (rule slot_at_slots) (simp add: preallocate_def)
  with loop assms(1) show ?thesis by (simp add: store_ok_def preallocate_def)
qed

lemma pool_step_inv:
  assumes "pool_step w w'" "pool_inv w"
  shows "pool_inv w'"
proof -
  from assms(2) obtain own where st: "store_ok (w_store w)"
    and inv: "\<forall>i. slot_ok_in own (w_store w) (writers w) (readers w) i"
    by (auto simp: pool_inv_def)
  from assms(1) show ?thesis
  proof cases
    case (Preallocate n)
    with preallocate_ok [OF st inv] show ?thesis by (simp add: pool_inv_def)
  next
    case (Acquire b st')
    with acquire_ok [OF st inv] show ?thesis
      by (auto simp: pool_inv_def simp del: writers_of_simps)
  next
    case (Extend bs b bs' payload b' st')
    with extend_ok [OF st inv [unfolded Extend(2)] Extend(3)] show ?thesis
      by (simp add: pool_inv_def del: writers_of_simps)
  next
    case (Replace bs b bs' d cap b' st')
    with replace_ok [OF st inv [unfolded Replace(2)] Replace(3,4)] show ?thesis
      by (simp add: pool_inv_def del: writers_of_simps)
  next
    case (Freeze bs b bs' r st')
    with freeze_ok [OF st inv [unfolded Freeze(2)]] show ?thesis
      by (auto simp: pool_inv_def simp del: writers_of_simps readers_of_simps)
  next
    case (DropWriter bs b bs' st')
    with drop_writer_ok [OF st inv [unfolded DropWriter(2)]] show ?thesis
      by (auto simp: pool_inv_def simp del: writers_of_simps)
  next
    case (Clone r d r' st')
    with clone_ok [OF st inv Clone(2,3)] show ?thesis
      by (auto simp: pool_inv_def simp del: readers_of_simps)
  next
    case (DropReader rs r d rs' st')
    with drop_reader_ok [OF st inv [unfolded DropReader(2)]] show ?thesis
      by (auto simp: pool_inv_def simp del: readers_of_simps)
  qed
qed

lemma initial_world_inv: "pool_inv (initial_world n)"
  by (simp add: pool_inv_def store_ok_def initial_world_def pool_new_def slot_ok_def slot_at_def)

lemma reachable_inv: "pool_step\<^sup>*\<^sup>* (initial_world n) w \<Longrightarrow> pool_inv w"
  by (induction rule: rtranclp_induct) (simp_all add: initial_world_inv pool_step_inv)

section \<open>Accounting\<close>

abbreviation writer_slots :: "world \<Rightarrow> nat list" where
  "writer_slots w \<equiv> map mb_slot_index (writers w)"

abbreviation reader_slots :: "world \<Rightarrow> nat list" where
  "reader_slots w \<equiv> map (\<lambda>(r, d). pb_slot_index r) (readers w)"

lemma count_writer_slots: "count_list (map mb_slot_index ws) i = length (writers_of i ws)"
  by (induction ws) auto

lemma in_reader_slots: "i \<in> set (map (\<lambda>(r, d). pb_slot_index r) rs) \<longleftrightarrow> readers_of i rs \<noteq> []"
  by (auto simp: readers_of_def filter_empty_conv)

lemma in_free: "i \<in> set (free st) \<longleftrightarrow> 0 < count_list (free st) i"
  by (rule count_list_pos)

lemma in_writer_slots: "i \<in> set (map mb_slot_index ws) \<longleftrightarrow> writers_of i ws \<noteq> []"
  by (induction ws) auto

lemma distinct_count: "(\<And>x. count_list xs x \<le> 1) \<Longrightarrow> distinct xs"
proof (induction xs)
  case (Cons a xs)
  from Cons.prems [of a] have "a \<notin> set xs" by (auto simp: count_list_pos)
  moreover have "count_list xs x \<le> 1" for x
    using Cons.prems [of x] by (simp split: if_splits)
  ultimately show ?case using Cons.IH by simp
qed simp

lemma slot_ok_counts:
  assumes "slot_ok own h next i so f ws rs"
  shows "f \<le> 1" "length ws \<le> 1" "0 < f \<Longrightarrow> ws = [] \<and> rs = []" "ws \<noteq> [] \<Longrightarrow> rs = []"
  using assms by (cases rs; auto simp: slot_ok_def split: option.splits)+

lemma pool_inv_partition:
  assumes "pool_inv w"
  shows "distinct (free (w_store w))" "distinct (writer_slots w)"
    "set (free (w_store w)) \<inter> set (writer_slots w) = {}"
    "set (free (w_store w)) \<inter> set (reader_slots w) = {}"
    "set (writer_slots w) \<inter> set (reader_slots w) = {}"
    "set (free (w_store w)) \<union> set (writer_slots w) \<union> set (reader_slots w)
       \<subseteq> {..<length (slots (w_store w))}"
proof -
  from assms obtain own where
    inv: "\<And>i. slot_ok_in own (w_store w) (writers w) (readers w) i"
    by (auto simp: pool_inv_def)
  note c = slot_ok_counts [OF inv]
  show "distinct (free (w_store w))"
    by (rule distinct_count) (rule c(1))
  show "distinct (writer_slots w)"
    by (rule distinct_count) (simp add: count_writer_slots c(2) del: One_nat_def)
  show "set (free (w_store w)) \<inter> set (writer_slots w) = {}"
    "set (free (w_store w)) \<inter> set (reader_slots w) = {}"
    using c(3) by (auto simp: in_writer_slots in_reader_slots in_free simp del: set_map)
  show "set (writer_slots w) \<inter> set (reader_slots w) = {}"
    using c(4) by (auto simp: in_writer_slots in_reader_slots simp del: set_map)
  show "set (free (w_store w)) \<union> set (writer_slots w) \<union> set (reader_slots w)
      \<subseteq> {..<length (slots (w_store w))}"
  proof
    fix i assume "i \<in> set (free (w_store w)) \<union> set (writer_slots w) \<union> set (reader_slots w)"
    then have "\<not> (count_list (free (w_store w)) i = 0 \<and> writers_of i (writers w) = [] \<and>
        readers_of i (readers w) = [])"
      by (auto simp: in_writer_slots in_reader_slots in_free simp del: set_map)
    with inv [of i] show "i \<in> {..<length (slots (w_store w))}"
      by (auto simp: slot_at_def slot_ok_None split: if_splits)
  qed
qed

text \<open>No slot is without its vector unless a write handle has it.\<close>

definition no_leak :: "world \<Rightarrow> bool" where
  "no_leak w \<longleftrightarrow>
     (\<forall>i < length (slots (w_store w)).
        slot_bytes (slots (w_store w) ! i) = None \<longrightarrow> i \<in> set (writer_slots w))"

text \<open>A step after which every write handle still has a vector with capacity.\<close>

definition careful_step :: "world \<Rightarrow> world \<Rightarrow> bool" where
  "careful_step w w' \<longleftrightarrow> pool_step w w' \<and> list_all (\<lambda>b. 0 < v_cap (mb_bytes b)) (writers w')"

text \<open>The slots whose vector was dropped with a write handle that had been left without capacity.\<close>

definition lost_slots :: "world \<Rightarrow> nat set" where
  "lost_slots w = {i. i < length (slots (w_store w)) \<and> slot_bytes (slots (w_store w) ! i) = None \<and>
     i \<notin> set (writer_slots w)}"

lemma no_leak_lost: "no_leak w \<longleftrightarrow> lost_slots w = {}"
  by (auto simp: no_leak_def lost_slots_def)

lemma in_use_lost:
  assumes "pool_inv w"
  shows "in_use (stats (w_store w)) = length (writers w) + card (set (reader_slots w)) + card (lost_slots w)"
proof -
  note p = pool_inv_partition [OF assms(1)]
  let ?n = "length (slots (w_store w))"
  let ?live = "set (free (w_store w)) \<union> set (writer_slots w) \<union> set (reader_slots w)"
  from assms(1) obtain own where
    inv: "\<And>i. slot_ok_in own (w_store w) (writers w) (readers w) i"
    by (auto simp: pool_inv_def)
  have stored: "i \<in> set (free (w_store w)) \<union> set (reader_slots w)"
    if "i < ?n" "slot_bytes (slots (w_store w) ! i) = Some v" for i v
  proof -
    from that inv [of i] have "count_list (free (w_store w)) i + min 1 (length (readers_of i (readers w))) = 1"
      by (simp add: slot_ok_def slot_at_def)
    then have "0 < count_list (free (w_store w)) i \<or> readers_of i (readers w) \<noteq> []"
      by (cases "readers_of i (readers w)") auto
    then show ?thesis by (auto simp: in_reader_slots in_free simp del: set_map)
  qed
  have lost: "lost_slots w \<inter> ?live = {}"
  proof -
    have "i \<notin> ?live" if l: "i \<in> lost_slots w" for i
    proof -
      from l have i: "i < ?n" "slot_bytes (slots (w_store w) ! i) = None" "i \<notin> set (writer_slots w)"
        by (simp_all add: lost_slots_def)
      with inv [of i] have "count_list (free (w_store w)) i = 0" "readers_of i (readers w) = []"
        by (auto simp: slot_ok_def slot_at_def split: if_splits)
      with i(3) show ?thesis by (auto simp: in_reader_slots in_free simp del: set_map)
    qed
    then show ?thesis by blast
  qed
  have all: "?live \<union> lost_slots w = {..<?n}"
  proof
    show "?live \<union> lost_slots w \<subseteq> {..<?n}" using p(6) by (auto simp: lost_slots_def)
    show "{..<?n} \<subseteq> ?live \<union> lost_slots w"
    proof
      fix i assume "i \<in> {..<?n}"
      then show "i \<in> ?live \<union> lost_slots w"
        using stored [of i] by (cases "slot_bytes (slots (w_store w) ! i)") (auto simp: lost_slots_def simp del: set_map)
    qed
  qed
  have "?n = card (?live \<union> lost_slots w)"
    by (simp only: all card_lessThan)
  also have "\<dots> = card ?live + card (lost_slots w)"
    by (rule card_Un_disjoint) (use lost in \<open>auto simp: lost_slots_def\<close>)
  also have "card ?live = card (set (free (w_store w)) \<union> set (writer_slots w)) + card (set (reader_slots w))"
    by (rule card_Un_disjoint) (use p(4,5) in auto)
  also have "card (set (free (w_store w)) \<union> set (writer_slots w)) =
      card (set (free (w_store w))) + card (set (writer_slots w))"
    by (rule card_Un_disjoint) (use p(3) in auto)
  also have "card (set (free (w_store w))) = length (free (w_store w))"
    by (rule distinct_card [OF p(1)])
  also have "card (set (writer_slots w)) = length (writers w)"
    using distinct_card [OF p(2)] by simp
  finally have "?n = length (free (w_store w)) + length (writers w) + card (set (reader_slots w)) + card (lost_slots w)" .
  moreover have "allocated_count (inner (w_store w)) = ?n"
    using assms(1) by (simp add: pool_inv_def store_ok_def)
  ultimately show ?thesis by (simp add: stats_def)
qed

lemma no_leak_in_use:
  "pool_inv w \<Longrightarrow> no_leak w \<Longrightarrow> in_use (stats (w_store w)) = length (writers w) + card (set (reader_slots w))"
  using in_use_lost [of w] by (simp add: no_leak_lost)


lemma preallocate_slots:
  "i < length (slots (preallocate_loop n st)) \<Longrightarrow>
     slot_bytes (slots (preallocate_loop n st) ! i) = None \<Longrightarrow>
     i < length (slots st) \<and> slot_bytes (slots st ! i) = None"
proof (induction n arbitrary: st)
  case (Suc n)
  obtain v st1 where v: "vec_alloc (buffer_size st) [] st = (v, st1)" by fastforce
  then have st1: "inner st1 = inner st" using vec_alloc_simps(1) [of "buffer_size st" "[]" st] by simp
  let ?st2 = "set_free (length (slots st) # free st1) (set_slots (slots st1 @ [new_slot (Some v)]) st1)"
  have "preallocate_loop (Suc n) st = preallocate_loop n ?st2" by (simp add: v)
  with Suc.IH [of ?st2] Suc.prems
  have "i < length (slots ?st2) \<and> slot_bytes (slots ?st2 ! i) = None" by simp
  then show ?case
    by (cases "i < length (slots st)") (auto simp: st1 nth_append new_slot_def)
qed simp

lemma update_None:
  "i < length ss \<Longrightarrow> slot_bytes (ss[k := s] ! i) = None \<Longrightarrow>
     i = k \<and> slot_bytes s = None \<or> slot_bytes (ss ! i) = None \<and> (i \<noteq> k \<or> length ss \<le> k)"
  by (cases "i = k") auto

lemma no_leakI:
  assumes "no_leak w"
    and "\<And>i. i < length (slots (w_store w')) \<Longrightarrow> slot_bytes (slots (w_store w') ! i) = None \<Longrightarrow>
      i \<in> set (writer_slots w') \<or>
      i < length (slots (w_store w)) \<and> slot_bytes (slots (w_store w) ! i) = None \<and>
        (i \<in> set (writer_slots w) \<longrightarrow> i \<in> set (writer_slots w'))"
  shows "no_leak w'"
  using assms unfolding no_leak_def by blast

lemma vec_extend_inner: "vec_extend v p st = (v', st') \<Longrightarrow> inner st' = inner st"
  by (auto simp: vec_extend_def Let_def vec_alloc_def split: if_splits)

lemma extend_inner: "extend_from_slice p b st = (b', st') \<Longrightarrow>
    inner st' = inner st \<and> mb_slot_index b' = mb_slot_index b"
  by (auto simp: extend_from_slice_def dest: vec_extend_inner split: prod.splits)

lemma replace_inner: "replace_vec cap d b st = (b', st') \<Longrightarrow>
    inner st' = inner st \<and> mb_slot_index b' = mb_slot_index b"
  by (auto simp: replace_vec_def vec_alloc_def split: prod.splits if_splits)

lemma drop_stored_slots [simp]: "inner (drop_stored k st) = inner st"
  by (simp add: drop_stored_def split: option.split)

lemma acquire_slots:
  assumes "acquire st = Some (b, st')" "i < length (slots st')" "slot_bytes (slots st' ! i) = None"
  shows "i = mb_slot_index b \<or> i < length (slots st) \<and> slot_bytes (slots st ! i) = None"
proof (cases "free st")
  case Nil
  obtain v st2 where v: "vec_alloc (buffer_size st) []
      (count_allocated 1 (set_slots (slots st @ [new_slot None]) st)) = (v, st2)" by fastforce
  then have "inner st2 = inner (count_allocated 1 (set_slots (slots st @ [new_slot None]) st))"
    using vec_alloc_simps(1) by (metis snd_conv)
  with assms Nil v show ?thesis
    by (auto simp: acquire_def Let_def nth_append less_Suc_eq)
next
  case (Cons k rest)
  with assms show ?thesis
    by (auto simp: acquire_def split: if_splits option.splits dest: update_None)
qed

lemma freeze_slots:
  assumes "freeze b st = Some (r, st')" "i < length (slots st')" "slot_bytes (slots st' ! i) = None"
  shows "i < length (slots st) \<and> i \<noteq> mb_slot_index b \<and> slot_bytes (slots st ! i) = None"
  using assms by (auto simp: freeze_def Let_def nth_list_update split: if_splits)

lemma drop_writer_slots:
  assumes "drop_media_buffer b st = Some st'" "0 < v_cap (mb_bytes b)"
    "i < length (slots st')" "slot_bytes (slots st' ! i) = None"
  shows "i < length (slots st) \<and> i \<noteq> mb_slot_index b \<and> slot_bytes (slots st ! i) = None"
  using assms by (auto simp: drop_media_buffer_def Let_def nth_list_update split: if_splits)

lemma clone_slots:
  assumes "clone_pooled r st = Some (r', st')" "i < length (slots st')" "slot_bytes (slots st' ! i) = None"
  shows "i < length (slots st) \<and> slot_bytes (slots st ! i) = None"
  using assms by (auto simp: clone_pooled_def Let_def nth_list_update split: if_splits)

lemma drop_reader_slots:
  assumes "drop_pooled r st = Some st'" "i < length (slots st')" "slot_bytes (slots st' ! i) = None"
  shows "i < length (slots st) \<and> slot_bytes (slots st ! i) = None"
  using assms by (auto simp: drop_pooled_def Let_def nth_list_update split: if_splits)

lemma careful_no_leak:
  assumes "pool_step w w'" "no_leak w" "list_all (\<lambda>b. 0 < v_cap (mb_bytes b)) (writers w)"
  shows "no_leak w'"
  using assms(1)
proof cases
  case (Preallocate n)
  with preallocate_slots [of _ n "w_store w"] show ?thesis
    by (intro no_leakI [OF assms(2)]) (simp add: preallocate_def)
next
  case (Acquire b st')
  with acquire_slots [OF Acquire(2)] show ?thesis by (intro no_leakI [OF assms(2)]) auto
next
  case (Extend bs b bs' payload b' st')
  with extend_inner [OF Extend(3)] show ?thesis by (intro no_leakI [OF assms(2)]) auto
next
  case (Replace bs b bs' d cap b' st')
  with replace_inner [OF Replace(4)] show ?thesis by (intro no_leakI [OF assms(2)]) auto
next
  case (Freeze bs b bs' r st')
  with freeze_slots [OF Freeze(3)] show ?thesis by (intro no_leakI [OF assms(2)]) auto
next
  case (DropWriter bs b bs' st')
  moreover have "0 < v_cap (mb_bytes b)" using assms(3) DropWriter(2) by simp
  ultimately show ?thesis using drop_writer_slots [OF DropWriter(3)]
    by (intro no_leakI [OF assms(2)]) auto
next
  case (Clone r d r' st')
  with clone_slots [OF Clone(4)] show ?thesis by (intro no_leakI [OF assms(2)]) auto
next
  case (DropReader rs r d rs' st')
  with drop_reader_slots [OF DropReader(3)] show ?thesis by (intro no_leakI [OF assms(2)]) auto
qed

lemma careful_inv:
  "careful_step\<^sup>*\<^sup>* (initial_world n) w \<Longrightarrow>
     pool_inv w \<and> no_leak w \<and> list_all (\<lambda>b. 0 < v_cap (mb_bytes b)) (writers w)"
proof (induction rule: rtranclp_induct)
  case base
  have "no_leak (initial_world n)" by (simp add: no_leak_def initial_world_def pool_new_def)
  then show ?case by (simp add: initial_world_inv) (simp add: initial_world_def)
next
  case (step w w')
  then show ?case using careful_no_leak pool_step_inv by (auto simp: careful_step_def)
qed

section \<open>The pool as an interface\<close>

text \<open>
  What a source needs of a pool: it can always get an empty buffer, writing appends, freezing gives
  a read handle for what was written, and a live read handle reads its bytes whatever else happens.
  \<open>holds w b d\<close> is a live write handle with contents \<open>d\<close>, \<open>live w\<close> the live read handles.
\<close>

locale frame_pool =
  fixes inv :: "'w \<Rightarrow> bool"
    and holds :: "'w \<Rightarrow> 'b \<Rightarrow> u8 list \<Rightarrow> bool"
    and live :: "'w \<Rightarrow> ('r \<times> u8 list) set"
    and get :: "'w \<Rightarrow> ('b \<times> 'w) option"
    and put :: "u8 list \<Rightarrow> 'b \<Rightarrow> 'w \<Rightarrow> 'b \<times> 'w"
    and seal :: "'b \<Rightarrow> 'w \<Rightarrow> ('r \<times> 'w) option"
    and look :: "'r \<Rightarrow> 'w \<Rightarrow> u8 list option"
  assumes get_law: "inv w \<Longrightarrow> \<exists>b w'. get w = Some (b, w') \<and> inv w' \<and> holds w' b [] \<and> live w' = live w"
    and put_law: "inv w \<Longrightarrow> holds w b d \<Longrightarrow> put p b w = (b', w') \<Longrightarrow>
      inv w' \<and> holds w' b' (d @ p) \<and> live w' = live w"
    and seal_law: "inv w \<Longrightarrow> holds w b d \<Longrightarrow>
      \<exists>r w'. seal b w = Some (r, w') \<and> inv w' \<and> live w' = insert (r, d) (live w)"
    and look_law: "inv w \<Longrightarrow> (r, d) \<in> live w \<Longrightarrow> look r w = Some d"
begin

definition publish :: "u8 list \<Rightarrow> 'w \<Rightarrow> ('r \<times> 'w) option" where
  "publish payload w =
     (case get w of
        None \<Rightarrow> None
      | Some (b, w1) \<Rightarrow> (let (b', w2) = put payload b w1 in seal b' w2))"

lemma publish_ok:
  assumes "inv w"
  shows "\<exists>r w'. publish payload w = Some (r, w') \<and> inv w' \<and> live w' = insert (r, payload) (live w)"
proof -
  obtain b w1 where g: "get w = Some (b, w1)" "inv w1" "holds w1 b []" "live w1 = live w"
    using get_law [OF assms] by blast
  obtain b' w2 where p: "put payload b w1 = (b', w2)" by fastforce
  from put_law [OF g(2,3) p] g(4) have w2: "inv w2" "holds w2 b' payload" "live w2 = live w"
    by simp_all
  from seal_law [OF w2(1,2)] w2(3) g p show ?thesis by (auto simp: publish_def)
qed

text \<open>Publishing a sequence of payloads: everything published can still be read at the end.\<close>

fun publish_all :: "u8 list list \<Rightarrow> 'w \<Rightarrow> ('r list \<times> 'w) option" where
  "publish_all [] w = Some ([], w)"
| "publish_all (p # ps) w =
     (case publish p w of
        None \<Rightarrow> None
      | Some (r, w1) \<Rightarrow> map_option (\<lambda>(rs, w2). (r # rs, w2)) (publish_all ps w1))"

lemma publish_all_ok:
  assumes "inv w"
  shows "\<exists>rs w'. publish_all ps w = Some (rs, w') \<and> inv w' \<and>
    live w \<subseteq> live w' \<and> list_all2 (\<lambda>r p. (r, p) \<in> live w') rs ps"
  using assms
proof (induction ps arbitrary: w)
  case (Cons p ps)
  from publish_ok [OF Cons.prems, of p] obtain r w1 where
    "publish p w = Some (r, w1)" "inv w1" "live w1 = insert (r, p) (live w)" by blast
  moreover from Cons.IH [OF this(2)] obtain rs w2 where
    "publish_all ps w1 = Some (rs, w2)" "inv w2" "live w1 \<subseteq> live w2"
    "list_all2 (\<lambda>r p. (r, p) \<in> live w2) rs ps" by blast
  ultimately show ?case by auto
qed simp

lemma publish_all_reads:
  assumes "inv w"
  shows "\<exists>rs w'. publish_all ps w = Some (rs, w') \<and> list_all2 (\<lambda>r p. look r w' = Some p) rs ps"
proof -
  from publish_all_ok [OF assms] obtain rs w' where
    p: "publish_all ps w = Some (rs, w')" "inv w'" "list_all2 (\<lambda>r p. (r, p) \<in> live w') rs ps"
    by blast
  then have "list_all2 (\<lambda>r p. look r w' = Some p) rs ps"
    using look_law [OF p(2)] by (auto elim: list_all2_mono)
  with p(1) show ?thesis by blast
qed

end

text \<open>The pool's operations on the world of live handles.\<close>

definition world_holds :: "world \<Rightarrow> media_buffer \<Rightarrow> u8 list \<Rightarrow> bool" where
  "world_holds w b d \<longleftrightarrow> b \<in> set (writers w) \<and> vec_data (heap (w_store w)) (mb_bytes b) = d"

definition world_acquire :: "world \<Rightarrow> (media_buffer \<times> world) option" where
  "world_acquire w =
     map_option (\<lambda>(b, st). (b, w\<lparr> w_store := st, writers := b # writers w \<rparr>)) (acquire (w_store w))"

fun replace_first :: "'a \<Rightarrow> 'a \<Rightarrow> 'a list \<Rightarrow> 'a list" where
  "replace_first x y [] = []"
| "replace_first x y (z # zs) = (if z = x then y # zs else z # replace_first x y zs)"

lemma replace_first_split:
  "x \<notin> set us \<Longrightarrow> replace_first x y (us @ x # vs) = us @ y # vs"
  by (induction us) auto

lemma remove1_split: "x \<notin> set us \<Longrightarrow> remove1 x (us @ x # vs) = us @ vs"
  by (induction us) auto

definition world_extend :: "u8 list \<Rightarrow> media_buffer \<Rightarrow> world \<Rightarrow> media_buffer \<times> world" where
  "world_extend payload b w =
     (let (b', st) = extend_from_slice payload b (w_store w) in
      (b', w\<lparr> w_store := st, writers := replace_first b b' (writers w) \<rparr>))"

definition world_freeze :: "media_buffer \<Rightarrow> world \<Rightarrow> (pooled_buffer \<times> world) option" where
  "world_freeze b w =
     map_option (\<lambda>(r, st). (r, w\<lparr> w_store := st, writers := remove1 b (writers w),
       readers := (r, vec_data (heap (w_store w)) (mb_bytes b)) # readers w \<rparr>)) (freeze b (w_store w))"

interpretation fp: frame_pool pool_inv world_holds "\<lambda>w. set (readers w)"
  world_acquire world_extend world_freeze "\<lambda>r w. as_slice r (w_store w)"
proof
  fix w assume "pool_inv w"
  then obtain own where "store_ok (w_store w)"
    "\<forall>i. slot_ok_in own (w_store w) (writers w) (readers w) i"
    by (auto simp: pool_inv_def)
  from acquire_ok [OF this] obtain b st' where "acquire (w_store w) = Some (b, st')" "store_ok st'"
    "\<exists>own. \<forall>i. slot_ok_in own st' (b # writers w) (readers w) i"
    "vec_data (heap st') (mb_bytes b) = []" by blast
  then show "\<exists>b w'. world_acquire w = Some (b, w') \<and> pool_inv w' \<and>
      world_holds w' b [] \<and> set (readers w') = set (readers w)"
    by (simp add: world_acquire_def pool_inv_def world_holds_def del: writers_of_simps)
next
  fix w b d p b' w'
  assume inv: "pool_inv w" and b: "world_holds w b d" and ext: "world_extend p b w = (b', w')"
  from b obtain bs bs' where ws: "writers w = bs @ b # bs'" "b \<notin> set bs"
    by (auto simp: world_holds_def dest: split_list_first)
  from inv obtain own where own: "store_ok (w_store w)"
    "\<forall>i. slot_ok_in own (w_store w) (bs @ b # bs') (readers w) i"
    by (auto simp: pool_inv_def ws(1) simp del: writers_of_simps)
  obtain st' where e: "extend_from_slice p b (w_store w) = (b', st')"
    "w' = w\<lparr> w_store := st', writers := bs @ b' # bs' \<rparr>"
    using ext by (auto simp: world_extend_def ws replace_first_split split: prod.splits)
  from extend_ok [OF own e(1)] b e(2)
  show "pool_inv w' \<and> world_holds w' b' (d @ p) \<and> set (readers w') = set (readers w)"
    by (simp add: pool_inv_def world_holds_def del: writers_of_simps)
next
  fix w b d assume inv: "pool_inv w" and b: "world_holds w b d"
  from b obtain bs bs' where ws: "writers w = bs @ b # bs'" "b \<notin> set bs"
    by (auto simp: world_holds_def dest: split_list_first)
  from inv obtain own where own: "store_ok (w_store w)"
    "\<forall>i. slot_ok_in own (w_store w) (bs @ b # bs') (readers w) i"
    by (auto simp: pool_inv_def ws(1) simp del: writers_of_simps)
  from freeze_ok [OF own] obtain r st' where "freeze b (w_store w) = Some (r, st')" "store_ok st'"
    "\<exists>own. \<forall>i. slot_ok_in own st' (bs @ bs')
       ((r, vec_data (heap (w_store w)) (mb_bytes b)) # readers w) i" by blast
  with b show "\<exists>r w'. world_freeze b w = Some (r, w') \<and> pool_inv w' \<and>
      set (readers w') = insert (r, d) (set (readers w))"
    by (simp add: world_freeze_def pool_inv_def world_holds_def ws remove1_split
        del: writers_of_simps readers_of_simps)
next
  fix w r d assume "pool_inv w" "(r, d) \<in> set (readers w)"
  then show "as_slice r (w_store w) = Some d"
    by (auto simp: pool_inv_def intro: as_slice_ok)
qed

section \<open>Claims\<close>

lemma three_steps: "r a b \<Longrightarrow> r b c \<Longrightarrow> r c d \<Longrightarrow> r\<^sup>*\<^sup>* a d"
  by (blast intro: converse_rtranclp_into_rtranclp)

text \<open>A reachable world with one frozen buffer.\<close>

lemma example_world:
  obtains w r where "careful_step\<^sup>*\<^sup>* (initial_world 4) w" "pool_step\<^sup>*\<^sup>* (initial_world 4) w"
    "readers w = [(r, [7, 8])]" "writers w = []"
proof -
  let ?w0 = "initial_world 4"
  let ?b = "\<lparr> mb_bytes = \<lparr> v_ptr = 2, v_cap = 4 \<rparr>, mb_slot_index = 0 \<rparr>"
  obtain st1 where a: "acquire (w_store ?w0) = Some (?b, st1)"
    and st1: "heap st1 2 = Some []" "length (slots st1) = 1"
    by (simp add: initial_world_def pool_new_def acquire_def vec_alloc_def Let_def)
  define w1 where "w1 = ?w0\<lparr> w_store := st1, writers := ?b # writers ?w0 \<rparr>"
  have w1: "w_store w1 = st1" "writers w1 = [] @ ?b # []" "readers w1 = []"
    by (simp_all add: w1_def) (simp_all add: initial_world_def)
  have s1: "pool_step ?w0 w1" unfolding w1_def by (rule pool_step.Acquire [OF a])
  define st2 where "st2 = vec_write (mb_bytes ?b) [7, 8] st1"
  have e: "extend_from_slice [7, 8] ?b (w_store w1) = (?b, st2)"
    using st1 by (simp add: w1 extend_from_slice_def vec_extend_def vec_data_def st2_def)
  define w2 where "w2 = w1\<lparr> w_store := st2, writers := [] @ ?b # [] \<rparr>"
  have s2: "pool_step w1 w2" unfolding w2_def by (rule pool_step.Extend [OF w1(2) e])
  have w2: "w_store w2 = st2" "writers w2 = [] @ ?b # []" "readers w2 = []"
    using w1 by (simp_all add: w2_def)
  have "mb_slot_index ?b < length (slots st2)" using st1 by (simp add: st2_def)
  then obtain r st3 where f: "freeze ?b (w_store w2) = Some (r, st3)"
    by (simp add: w2(1) freeze_def Let_def)
  have d: "vec_data (heap (w_store w2)) (mb_bytes ?b) = [7, 8]"
    by (simp add: w2(1) st2_def vec_data_def vec_write_def)
  define w3 where "w3 = w2\<lparr> w_store := st3, writers := [] @ [],
      readers := (r, vec_data (heap (w_store w2)) (mb_bytes ?b)) # readers w2 \<rparr>"
  have s3: "pool_step w2 w3" unfolding w3_def by (rule pool_step.Freeze [OF w2(2) f])
  have w3: "readers w3 = [(r, [7, 8])]" "writers w3 = []"
    using w2 d by (simp_all add: w3_def)
  have c: "careful_step ?w0 w1" "careful_step w1 w2" "careful_step w2 w3"
    using s1 s2 s3 w1(2) w2(2) w3(2) by (simp_all add: careful_step_def)
  have "careful_step\<^sup>*\<^sup>* ?w0 w3" by (rule three_steps [of careful_step, OF c])
  moreover have "pool_step\<^sup>*\<^sup>* ?w0 w3" by (rule three_steps [of pool_step, OF s1 s2 s3])
  ultimately show thesis using w3 by (rule that)
qed



text \<open>
  C1: \<open>as_slice\<close> is memory safe and stable: in every reachable world each live read handle reads,
  through its raw pointer, exactly the bytes that were in the buffer when it was frozen. No write,
  recycling or reallocation of any other buffer changes or frees them.
\<close>

theorem as_slice_reads_frozen_bytes:
  assumes "pool_step\<^sup>*\<^sup>* (initial_world n) w"
  shows "list_all (\<lambda>(r, d). as_slice r (w_store w) = Some d) (readers w)"
proof -
  from reachable_inv [OF assms] have "pool_inv w" .
  then show ?thesis by (auto simp: list_all_iff intro: fp.look_law)
qed

theorem as_slice_reads_frozen_bytes_witness:
  "\<exists>(w :: world) r. readers w = [(r, [7, 8])] \<and> as_slice r (w_store w) = Some [7, 8]"
proof -
  obtain w r where w: "pool_step\<^sup>*\<^sup>* (initial_world 4) w" "readers w = [(r, [7, 8])]"
    by (rule example_world)
  from as_slice_reads_frozen_bytes [OF w(1)] w(2) show ?thesis
    by (intro exI [of _ w] exI [of _ r]) simp
qed

text \<open>
  C7: buffers are never shared by mistake: in every reachable world the free slots, the slots of
  the write handles and those of the read handles are disjoint, no slot is on the free list twice
  and no two write handles have the same slot.
\<close>

theorem slots_never_aliased:
  assumes "pool_step\<^sup>*\<^sup>* (initial_world n) w"
  shows "distinct (free (w_store w) @ writer_slots w) \<and>
    set (reader_slots w) \<inter> set (free (w_store w) @ writer_slots w) = {}"
  using pool_inv_partition [OF reachable_inv [OF assms]] by auto

theorem slots_never_aliased_witness:
  "\<exists>(w :: world) r. readers w = [(r, [7, 8])] \<and> pb_slot_index r \<notin> set (free (w_store w))"
proof -
  obtain w r where w: "pool_step\<^sup>*\<^sup>* (initial_world 4) w" "readers w = [(r, [7, 8])]"
    by (rule example_world)
  from slots_never_aliased [OF w(1)] w(2) show ?thesis
    by (intro exI [of _ w] exI [of _ r]) simp
qed

text \<open>
  C8: \<open>stats\<close> counts exactly: in every reachable world the buffers in use are the write handles, the
  frozen buffers that still have a read handle, and the slots that were lost, because a write handle whose vector had been
  left without capacity was dropped; the high watermark is the number of available and used buffers together. If
  no step leaves a write handle without capacity, no slot is lost, so that dropping all
  handles returns every buffer to the pool.
\<close>

theorem stats_exact:
  assumes "pool_step\<^sup>*\<^sup>* (initial_world n) w"
  shows "in_use (stats (w_store w)) = length (writers w) + card (set (reader_slots w)) + card (lost_slots w) \<and>
    st_high_watermark (stats (w_store w)) = available (stats (w_store w)) + in_use (stats (w_store w)) \<and>
    (careful_step\<^sup>*\<^sup>* (initial_world n) w \<longrightarrow> lost_slots w = {})"
proof -
  note inv = reachable_inv [OF assms]
  have "length (free (w_store w)) = card (set (free (w_store w)))"
    using pool_inv_partition(1) [OF inv] by (simp add: distinct_card)
  also have "\<dots> \<le> card {..<length (slots (w_store w))}"
    using pool_inv_partition(6) [OF inv] by (intro card_mono) auto
  finally have "length (free (w_store w)) \<le> allocated_count (inner (w_store w))"
    using inv by (simp add: pool_inv_def store_ok_def)
  then have "st_high_watermark (stats (w_store w)) = available (stats (w_store w)) + in_use (stats (w_store w))"
    using inv by (simp add: stats_def pool_inv_def store_ok_def)
  with in_use_lost [OF inv] careful_inv [of n w] show ?thesis by (simp add: no_leak_lost)
qed

theorem stats_exact_witness:
  "\<exists>(w :: world) r. readers w = [(r, [7, 8])] \<and> in_use (stats (w_store w)) = 1"
proof -
  obtain w r where w: "careful_step\<^sup>*\<^sup>* (initial_world 4) w" "pool_step\<^sup>*\<^sup>* (initial_world 4) w"
    "readers w = [(r, [7, 8])]" "writers w = []"
    by (rule example_world)
  from stats_exact [OF w(2)] w(1,3,4) show ?thesis by (intro exI [of _ w] exI [of _ r]) simp
qed

text \<open>
  Without that care a buffer is lost: after acquiring a buffer, moving its vector out through
  \<open>as_mut_vec\<close> and dropping the handle, no handle is alive and yet the buffer is in use for ever.
\<close>

theorem taken_vector_leaks_slot:
  "\<exists>w :: world. pool_step\<^sup>*\<^sup>* (initial_world 4) w \<and> writers w = [] \<and> readers w = [] \<and>
     in_use (stats (w_store w)) = 1 \<and> available (stats (w_store w)) = 0"
proof -
  let ?w0 = "initial_world 4"
  let ?b = "\<lparr> mb_bytes = \<lparr> v_ptr = 2, v_cap = 4 \<rparr>, mb_slot_index = 0 \<rparr>"
  let ?b' = "\<lparr> mb_bytes = \<lparr> v_ptr = 1, v_cap = 0 \<rparr>, mb_slot_index = 0 \<rparr>"
  obtain st1 where a: "acquire (w_store ?w0) = Some (?b, st1)" and st1: "free st1 = []"
    "allocated_count (inner st1) = 1"
    by (simp add: initial_world_def pool_new_def acquire_def vec_alloc_def Let_def)
  define w1 where "w1 = ?w0\<lparr> w_store := st1, writers := ?b # writers ?w0 \<rparr>"
  have w1: "w_store w1 = st1" "writers w1 = [] @ ?b # []" "readers w1 = []"
    by (simp_all add: w1_def) (simp_all add: initial_world_def)
  have s1: "pool_step ?w0 w1" unfolding w1_def by (rule pool_step.Acquire [OF a])
  have e: "replace_vec 0 [] ?b (w_store w1) = (?b', vec_free (mb_bytes ?b) st1)"
    by (simp add: w1 replace_vec_def vec_alloc_def)
  define w2 where "w2 = w1\<lparr> w_store := vec_free (mb_bytes ?b) st1, writers := [] @ ?b' # [] \<rparr>"
  have s2: "pool_step w1 w2" unfolding w2_def
    by (rule pool_step.Replace [OF w1(2) _ e]) simp
  have w2: "w_store w2 = vec_free (mb_bytes ?b) st1" "writers w2 = [] @ ?b' # []" "readers w2 = []"
    using w1 by (simp_all add: w2_def)
  have d: "drop_media_buffer ?b' (w_store w2) = Some (w_store w2)"
    by (simp add: drop_media_buffer_def)
  define w3 where "w3 = w2\<lparr> w_store := w_store w2, writers := [] @ [] \<rparr>"
  have s3: "pool_step w2 w3" unfolding w3_def by (rule pool_step.DropWriter [OF w2(2) d])
  have "pool_step\<^sup>*\<^sup>* ?w0 w3" by (rule three_steps [of pool_step, OF s1 s2 s3])
  then show ?thesis
    using w2 st1 by (intro exI [of _ w3]) (simp add: w3_def stats_def)
qed

text \<open>
  Publishing a payload through the pool always succeeds, the new handle reads exactly the
  payload, and every handle that was alive still reads its own bytes.
\<close>

theorem publish_payload_correct:
  assumes "pool_step\<^sup>*\<^sup>* (initial_world n) w"
  shows "\<exists>r st. publish_payload payload (w_store w) = Some (r, st) \<and> as_slice r st = Some payload \<and>
    list_all (\<lambda>(r', d). as_slice r' st = Some d) (readers w)"
proof -
  have inv: "pool_inv w" using reachable_inv [OF assms] .
  from fp.publish_ok [OF this, of payload] obtain r w' where
    p: "fp.publish payload w = Some (r, w')" and w': "pool_inv w'"
    "set (readers w') = insert (r, payload) (set (readers w))" by blast
  obtain b st1 where a: "acquire (w_store w) = Some (b, st1)"
    using p by (cases "acquire (w_store w)") (auto simp: fp.publish_def world_acquire_def)
  obtain b' st2 where e: "extend_from_slice payload b st1 = (b', st2)" by fastforce
  from p a e have f: "freeze b' st2 = Some (r, w_store w')"
    by (auto simp: fp.publish_def world_acquire_def world_extend_def world_freeze_def)
  have "publish_payload payload (w_store w) = Some (r, w_store w')"
    using a e f by (simp add: publish_payload_def)
  moreover have "as_slice r (w_store w') = Some payload"
    using w' by (intro fp.look_law) auto
  moreover have "list_all (\<lambda>(r', d). as_slice r' (w_store w') = Some d) (readers w)"
    using w' by (auto simp: list_all_iff intro: fp.look_law)
  ultimately show ?thesis by blast
qed

theorem publish_payload_correct_witness:
  "\<exists>(w :: world) r r' st. readers w = [(r, [7, 8])] \<and> publish_payload [9] (w_store w) = Some (r', st) \<and>
     as_slice r' st = Some [9] \<and> as_slice r st = Some [7, 8]"
proof -
  obtain w r where w: "pool_step\<^sup>*\<^sup>* (initial_world 4) w" "readers w = [(r, [7, 8])]"
    by (rule example_world)
  from publish_payload_correct [OF w(1), of "[9]"] w(2) show ?thesis by auto
qed

end
