(* ===== verification/Caml_H264.thy ===== *)
theory Caml_H264
  imports Caml_Error
begin

text \<open>
  \<^verbatim>\<open>crates/caml-ffmpeg/src/h264.rs\<close>: H.264 packets in the AVCC form (each unit preceded by its
  length) are turned into the Annex B form (each unit preceded by a start code), and key frames get
  the stream's parameter sets. A byte slice is a list of \<open>u8\<close>; what the code reaches through a
  cursor is the rest of the list, or the list and the cursor where it looks back. Lengths of slices
  are natural numbers: a slice never has \<open>2^63\<close> bytes, so the checked additions of a cursor and a
  length of at most four bytes never overflow. The codec parameters come from FFmpeg; what the code
  reads of them is the extradata.
\<close>

unbundle bit_operations_syntax

section \<open>Byte strings\<close>

type_synonym bytes = "u8 list"

definition start_code :: bytes where "start_code = [0, 0, 0, 1]"

definition is_prefix :: "bytes \<Rightarrow> bytes \<Rightarrow> bool" where
  "is_prefix p b = (take (length p) b = p)"

text \<open>Big-endian reading of a length field.\<close>

definition be_value :: "bytes \<Rightarrow> nat" where
  "be_value bs = foldl (\<lambda>acc b. acc * 256 + unat b) 0 bs"

record h264_config =
  nalu_length_size :: nat
  parameter_sets_annexb :: bytes

section \<open>Start codes\<close>

definition looks_like_annex_b :: "bytes \<Rightarrow> bool" where
  "looks_like_annex_b payload = (is_prefix start_code payload \<or> is_prefix [0, 0, 1] payload)"

text \<open>
  \<open>find_start_code\<close> from the given offset: the position and the length of the next start code.
\<close>

fun find_from :: "nat \<Rightarrow> bytes \<Rightarrow> (nat \<times> nat) option" where
  "find_from index [] = None"
| "find_from index (b # bs) =
     (if length (b # bs) < 3 then None
      else if 4 \<le> length (b # bs) \<and> take 4 (b # bs) = start_code then Some (index, 4)
      else if take 3 (b # bs) = [0, 0, 1] then Some (index, 3)
      else find_from (index + 1) bs)"

definition find_start_code :: "bytes \<Rightarrow> nat \<Rightarrow> (nat \<times> nat) option" where
  "find_start_code payload offset = find_from offset (drop offset payload)"

lemma find_from_bounds:
  "find_from index bs = Some (s, n) \<Longrightarrow> index \<le> s \<and> 3 \<le> n \<and> s + n \<le> index + length bs"
proof (induction index bs rule: find_from.induct)
  case (2 index b bs)
  then show ?case by (fastforce split: if_splits)
qed simp

lemma find_start_code_bounds:
  "find_start_code payload offset = Some (s, n) \<Longrightarrow>
     offset \<le> s \<and> 3 \<le> n \<and> s + n \<le> length payload"
  using find_from_bounds [of offset "drop offset payload" s n]
  by (cases "offset \<le> length payload") (auto simp: find_start_code_def)

function annex_b_loop :: "bytes \<Rightarrow> nat \<Rightarrow> bool \<times> bool \<Rightarrow> bool \<times> bool" where
  "annex_b_loop payload cursor (has_sps, has_pps) =
     (case find_start_code payload cursor of
        None \<Rightarrow> (has_sps, has_pps)
      | Some (start, code_len) \<Rightarrow>
          (let nalu_start = start + code_len;
               next_code = (case find_start_code payload nalu_start of
                         None \<Rightarrow> length payload | Some (offset, _) \<Rightarrow> offset);
               found = (if nalu_start < next_code
                        then (let nalu_type = payload ! nalu_start AND 0x1F in
                              if nalu_type = 7 then (True, has_pps)
                              else if nalu_type = 8 then (has_sps, True)
                              else (has_sps, has_pps))
                        else (has_sps, has_pps))
           in annex_b_loop payload next_code found))"
  by pat_completeness auto
termination
proof (relation "measure (\<lambda>(payload, cursor, _). length payload + 1 - cursor)", goal_cases)
  case (2 payload cursor has_sps has_pps a start code_len nalu_start next_code found)
  from 2(1,2) have "cursor \<le> start" "3 \<le> code_len" "start + code_len \<le> length payload"
    using find_start_code_bounds by auto
  moreover have "start + code_len \<le> next_code"
    using 2(3,4) \<open>start + code_len \<le> length payload\<close> find_start_code_bounds [of payload nalu_start]
    by (auto split: option.splits)
  ultimately show ?case by simp
qed simp

definition annex_b_parameter_sets :: "bytes \<Rightarrow> bool \<times> bool" where
  "annex_b_parameter_sets payload = annex_b_loop payload 0 (False, False)"

section \<open>AVCC extradata\<close>

text \<open>\<open>read_avcc_unit\<close> on what is left from the cursor on: the unit and the new rest.\<close>

definition read_avcc_unit :: "bytes \<Rightarrow> str + (bytes \<times> bytes)" where
  "read_avcc_unit data =
     (if length data < 2 then Inl ''AVCC extradata ended before a NAL length field''
      else (let sz = be_value (take 2 data); rest = drop 2 data in
        if length rest < sz then Inl ''AVCC extradata contained a truncated NAL unit''
        else Inr (drop sz rest, take sz rest)))"

fun read_avcc_units :: "nat \<Rightarrow> bytes \<Rightarrow> bytes \<Rightarrow> str + (bytes \<times> bytes)" where
  "read_avcc_units 0 data out = Inr (data, out)"
| "read_avcc_units (Suc n) data out =
     res_bind (read_avcc_unit data) (\<lambda>(rest, unit').
       read_avcc_units n rest (out @ start_code @ unit'))"

definition parse_avcc_extradata :: "bytes \<Rightarrow> str + (nat \<times> bytes)" where
  "parse_avcc_extradata extradata =
     (if length extradata < 7 then Inl ''AVCC extradata is too short to parse''
      else (let length_size = unat ((extradata ! 4) AND 3) + 1;
                sps_count = unat ((extradata ! 5) AND 0x1F) in
        res_bind (read_avcc_units sps_count (drop 6 extradata) []) (\<lambda>(rest, out).
          case rest of
            [] \<Rightarrow> Inr (length_size, out)
          | pps_count # rest' \<Rightarrow>
              res_bind (read_avcc_units (unat pps_count) rest' out) (\<lambda>(_, out').
                Inr (length_size, out')))))"

definition extract_h264_config :: "bytes option \<Rightarrow> str + h264_config option" where
  "extract_h264_config extradata =
     (case extradata of
        None \<Rightarrow> Inr None
      | Some [] \<Rightarrow> Inr None
      | Some (b # bs) \<Rightarrow>
          if looks_like_annex_b (b # bs)
          then Inr (Some \<lparr> nalu_length_size = 4, parameter_sets_annexb = b # bs \<rparr>)
          else if b \<noteq> 1 then Inr None
          else res_bind (parse_avcc_extradata (b # bs)) (\<lambda>(length_size, sets).
            Inr (Some \<lparr> nalu_length_size = length_size, parameter_sets_annexb = sets \<rparr>)))"

section \<open>AVCC payloads\<close>

text \<open>
  The loop of \<open>avcc_to_annex_b\<close>, which only runs with a length field of one to four bytes; the
  test for 0 stands for the check before the loop, so that the function is total.
\<close>

function avcc_loop :: "nat \<Rightarrow> bytes \<Rightarrow> bytes \<Rightarrow> str + bytes" where
  "avcc_loop n payload out =
     (if payload = [] then Inr out
      else if n = 0 \<or> length payload < n
      then Inl ''AVCC payload ended before a NALU size field''
      else (let unit_length = be_value (take n payload); rest = drop n payload in
        if unit_length = 0 then avcc_loop n rest out
        else if length rest < unit_length then Inl ''AVCC payload contained a truncated NALU''
        else avcc_loop n (drop unit_length rest) (out @ start_code @ take unit_length rest)))"
  by pat_completeness auto
termination
  by (relation "measure (\<lambda>(n, payload, out). length payload)") auto

declare avcc_loop.simps [simp del]
declare annex_b_loop.simps [simp del]

definition avcc_to_annex_b :: "bytes \<Rightarrow> nat \<Rightarrow> str + bytes" where
  "avcc_to_annex_b payload length_size =
     (if \<not> (1 \<le> length_size \<and> length_size \<le> 4)
      then Inl (''invalid AVCC NALU length size '' @ show_nat length_size @ ''; expected 1-4 bytes'')
      else res_bind (avcc_loop length_size payload []) (\<lambda>out.
        if out = [] \<and> payload \<noteq> [] then Inl ''AVCC payload produced no NAL units'' else Inr out))"

definition normalize_h264_payload :: "bytes \<Rightarrow> bool \<Rightarrow> h264_config option \<Rightarrow> str + bytes" where
  "normalize_h264_payload payload is_keyframe config =
     res_bind
       (if looks_like_annex_b payload then Inr payload
        else avcc_to_annex_b payload (unwrap_or 4 (map_option nalu_length_size config)))
       (\<lambda>out.
          case (is_keyframe, config) of
            (True, Some c) \<Rightarrow>
              (let (has_sps, has_pps) = annex_b_parameter_sets out in
               if \<not> has_sps \<or> \<not> has_pps then Inr (parameter_sets_annexb c @ out) else Inr out)
          | _ \<Rightarrow> Inr out)"

section \<open>What the conversion means\<close>

text \<open>The AVCC form of a sequence of units with a length field of \<open>n\<close> bytes, and its Annex B form.\<close>

fun be_bytes :: "nat \<Rightarrow> nat \<Rightarrow> bytes" where
  "be_bytes 0 v = []"
| "be_bytes (Suc n) v = of_nat (v div 256 ^ n mod 256) # be_bytes n v"

definition avcc_unit :: "nat \<Rightarrow> bytes \<Rightarrow> bytes" where
  "avcc_unit n u = be_bytes n (length u) @ u"

definition avcc_form :: "nat \<Rightarrow> bytes list \<Rightarrow> bytes" where
  "avcc_form n us = concat (map (avcc_unit n) us)"

definition annex_b_form :: "bytes list \<Rightarrow> bytes" where
  "annex_b_form us = concat (map (\<lambda>u. start_code @ u) us)"

section \<open>Length fields\<close>

lemma foldl_be: "foldl (\<lambda>acc b. acc * 256 + unat b) a bs = a * 256 ^ length bs + be_value bs"
  for bs :: bytes
proof (induction bs arbitrary: a)
  case (Cons b bs)
  show ?case
    using Cons [of "a * 256 + unat b"] Cons [of "unat b"]
    by (simp add: be_value_def algebra_simps)
qed (simp add: be_value_def)

lemma be_value_Cons: "be_value (b # bs) = unat b * 256 ^ length bs + be_value bs"
  using foldl_be [of "unat b" bs] by (simp add: be_value_def)

lemma be_value_Nil [simp]: "be_value [] = 0"
  by (simp add: be_value_def)

lemma unat_byte_less: "unat b < 256" for b :: u8
proof -
  have "unat b < 2 ^ LENGTH(8)" by (rule unsigned_less)
  then show ?thesis by simp
qed

lemma be_value_less: "be_value bs < 256 ^ length bs"
proof (induction bs)
  case (Cons b bs)
  have "unat b < 256" by (rule unat_byte_less)
  then have b: "(unat b + 1) * 256 ^ length bs \<le> 256 * (256 :: nat) ^ length bs"
    by (intro mult_right_mono) auto
  have "be_value (b # bs) < unat b * 256 ^ length bs + 256 ^ length bs"
    using Cons by (simp add: be_value_Cons)
  also have "\<dots> = (unat b + 1) * 256 ^ length bs" by (simp add: algebra_simps)
  also note b
  finally show ?case by simp
qed simp

lemma length_be_bytes [simp]: "length (be_bytes n v) = n"
  by (induction n) auto

lemma be_value_be_bytes: "be_value (be_bytes n v) = v mod 256 ^ n"
proof (induction n)
  case (Suc n)
  have "be_value (be_bytes (Suc n) v) = v div 256 ^ n mod 256 * 256 ^ n + v mod 256 ^ n"
    by (simp add: be_value_Cons Suc unat_of_nat)
  also have "\<dots> = v mod (256 ^ n * 256)"
    by (simp only: mod_mult2_eq [of v "256 ^ n" 256]) (simp only: mult.commute)
  also have "256 ^ n * 256 = (256 :: nat) ^ Suc n" by simp
  finally show ?case .
qed simp

lemma be_bytes_mod: "n \<le> m \<Longrightarrow> be_bytes n (v mod 256 ^ m) = be_bytes n v"
proof (induction n)
  case (Suc n)
  have "v mod 256 ^ m div 256 ^ n mod 256 = v div 256 ^ n mod 256"
  proof -
    from Suc.prems obtain k where "m = n + 1 + k" by (metis Suc_eq_plus1 le_Suc_ex)
    then have "(256 :: nat) ^ m = 256 ^ n * (256 * 256 ^ k)" by (simp add: power_add)
    then have "v mod 256 ^ m div 256 ^ n = v div 256 ^ n mod (256 * 256 ^ k)"
      by (simp add: mod_mult2_eq)
    then show ?thesis by (simp add: mod_mult2_eq)
  qed
  with Suc show ?case by simp
qed simp

lemma be_bytes_be_value: "be_bytes (length bs) (be_value bs) = bs"
proof (induction bs)
  case (Cons b bs)
  have less: "be_value bs < 256 ^ length bs" by (rule be_value_less)
  have "be_value (b # bs) div 256 ^ length bs = unat b"
    using less by (simp add: be_value_Cons div_mult_self3)
  moreover have "be_value (b # bs) mod 256 ^ length bs = be_value bs"
    using less by (simp add: be_value_Cons)
  moreover have "be_bytes (length bs) (be_value (b # bs)) = be_bytes (length bs) (be_value (b # bs) mod 256 ^ length bs)"
    by (simp add: be_bytes_mod)
  moreover have "unat b mod 256 = unat b" using unat_byte_less [of b] by simp
  ultimately show ?case using Cons by simp
qed simp

section \<open>AVCC to Annex B\<close>

lemma annex_b_form_simps [simp]:
  "annex_b_form [] = []" "annex_b_form (u # us) = start_code @ u @ annex_b_form us"
  "annex_b_form (us @ vs) = annex_b_form us @ annex_b_form vs"
  by (simp_all add: annex_b_form_def)

lemma avcc_form_simps [simp]:
  "avcc_form n [] = []" "avcc_form n (u # us) = be_bytes n (length u) @ u @ avcc_form n us"
  by (simp_all add: avcc_form_def avcc_unit_def)

abbreviation units_fit :: "nat \<Rightarrow> bytes list \<Rightarrow> bool" where
  "units_fit n us \<equiv> list_all (\<lambda>u. length u < 256 ^ n) us"

abbreviation nonempty :: "bytes list \<Rightarrow> bytes list" where
  "nonempty us \<equiv> filter (\<lambda>u. u \<noteq> []) us"

lemma avcc_loop_form:
  "0 < n \<Longrightarrow> units_fit n us \<Longrightarrow>
     avcc_loop n (avcc_form n us) out = Inr (out @ annex_b_form (nonempty us))"
proof (induction us arbitrary: out)
  case Nil
  then show ?case by (simp add: avcc_loop.simps)
next
  case (Cons u us)
  have "be_bytes n (length u) \<noteq> []" using Cons.prems(1) by (metis length_be_bytes length_0_conv neq0_conv)
  moreover have "be_value (be_bytes n (length u)) = length u"
    using Cons.prems(2) by (simp add: be_value_be_bytes)
  ultimately show ?case
    using Cons by (simp add: avcc_loop.simps [of n "be_bytes n (length u) @ _"] Let_def)
qed

lemma avcc_loop_Inr:
  "avcc_loop n payload out = Inr res \<Longrightarrow>
     \<exists>us. payload = avcc_form n us \<and> units_fit n us \<and> res = out @ annex_b_form (nonempty us)"
proof (induction n payload out rule: avcc_loop.induct)
  case (1 n payload out)
  show ?case
  proof (cases "payload = []")
    case True
    with "1.prems" show ?thesis by (intro exI [of _ "[]"]) (simp add: avcc_loop.simps)
  next
    case False
    with "1.prems" have n: "0 < n" "n \<le> length payload"
      by (auto simp: avcc_loop.simps [of n payload] split: if_splits)
    let ?len = "be_value (take n payload)" let ?rest = "drop n payload"
    have field: "be_bytes n ?len = take n payload"
      using be_bytes_be_value [of "take n payload"] n by simp
    have less: "?len < 256 ^ n" using be_value_less [of "take n payload"] n by simp
    show ?thesis
    proof (cases "?len = 0")
      case True
      with "1.prems" False n have "avcc_loop n ?rest out = Inr res"
        by (simp add: avcc_loop.simps [of n payload] Let_def)
      with "1.IH"(1) False n True obtain us where
        "?rest = avcc_form n us" "units_fit n us" "res = out @ annex_b_form (nonempty us)"
        by fastforce
      moreover from this(1) have "payload = avcc_form n ([] # us)"
        using field True by (metis avcc_form_simps(2) append_Nil append_take_drop_id list.size(3))
      ultimately show ?thesis using n by (intro exI [of _ "[] # us"]) simp
    next
      case nz: False
      with "1.prems" False n have len: "?len \<le> length ?rest"
        and "avcc_loop n (drop ?len ?rest) (out @ start_code @ take ?len ?rest) = Inr res"
        by (auto simp: avcc_loop.simps [of n payload] Let_def split: if_splits)
      with "1.IH"(2) False n nz obtain us where us:
        "drop ?len ?rest = avcc_form n us" "units_fit n us"
        "res = (out @ start_code @ take ?len ?rest) @ annex_b_form (nonempty us)"
        by fastforce
      let ?u = "take ?len ?rest"
      have u: "length ?u = ?len" using len by simp
      then have "?u \<noteq> []" using nz by (metis length_0_conv)
      moreover have "payload = avcc_form n (?u # us)"
        using field us(1) u by (metis avcc_form_simps(2) append_take_drop_id)
      ultimately show ?thesis
        using us less u by (intro exI [of _ "?u # us"]) simp
    qed
  qed
qed

text \<open>
  C3: the conversion succeeds exactly on the AVCC form of a sequence of units, for a length field
  of one to four bytes, and yields the Annex B form of the units that are not empty; a payload that
  has only empty units is an error. Nothing of a payload is lost, reordered or invented.
\<close>

theorem avcc_to_annex_b_exact:
  "avcc_to_annex_b payload n = Inr out \<longleftrightarrow>
     1 \<le> n \<and> n \<le> 4 \<and>
     (\<exists>us. payload = avcc_form n us \<and> list_all (\<lambda>u. length u < 256 ^ n) us \<and>
        out = annex_b_form (filter (\<lambda>u. u \<noteq> []) us) \<and> (out = [] \<longleftrightarrow> payload = []))"
    (is "?L \<longleftrightarrow> ?R")
proof
  assume L: ?L
  then have n: "1 \<le> n" "n \<le> 4" and loop: "avcc_loop n payload [] = Inr out"
    and e: "\<not> (out = [] \<and> payload \<noteq> [])"
    by (auto simp: avcc_to_annex_b_def result_simps split: if_splits)
  from avcc_loop_Inr [OF loop] obtain us where
    us: "payload = avcc_form n us" "units_fit n us" "out = annex_b_form (nonempty us)" by auto
  moreover have "out = []" if "payload = []"
    using that loop by (simp add: avcc_loop.simps)
  ultimately show ?R using n e by auto
next
  assume ?R
  then obtain us where n: "1 \<le> n" "n \<le> 4" and us: "payload = avcc_form n us" "units_fit n us"
    "out = annex_b_form (nonempty us)" "out = [] \<longleftrightarrow> payload = []" by blast
  have "avcc_loop n payload [] = Inr out"
    using avcc_loop_form [of n us "[]"] n us by simp
  with n us(4) show ?L by (simp add: avcc_to_annex_b_def)
qed


section \<open>Scanning Annex B\<close>

text \<open>
  A unit as an H.264 encoder produces it: not empty, without a start code inside (emulation
  prevention) and not ending in a zero byte (the stop bit).
\<close>

fun code_free :: "bytes \<Rightarrow> bool" where
  "code_free [] = True"
| "code_free (b # bs) = (take 3 (b # bs) \<noteq> [0, 0, 1] \<and> code_free bs)"

definition clean_unit :: "bytes \<Rightarrow> bool" where
  "clean_unit u \<longleftrightarrow> u \<noteq> [] \<and> code_free u \<and> last u \<noteq> 0"

definition unit_type :: "bytes \<Rightarrow> u8" where
  "unit_type u = hd u AND 0x1F"

lemma find_from_code: "find_from index (start_code @ bs) = Some (index, 4)"
  by (simp add: start_code_def)

lemma find_from_clean:
  assumes "code_free u" "u = [] \<or> last u \<noteq> 0"
  shows "find_from index (u @ annex_b_form us) =
    (if us = [] then None else Some (index + length u, 4))"
  using assms
proof (induction u arbitrary: index)
  case Nil
  then show ?case by (cases us) (simp_all add: find_from_code)
next
  case (Cons b u)
  have IH: "find_from (index + 1) (u @ annex_b_form us) =
      (if us = [] then None else Some (index + 1 + length u, 4))"
    using Cons by (cases u) auto
  have front: "annex_b_form us = [] \<and> us = [] \<or> (\<exists>r. annex_b_form us = 0 # 0 # 0 # 1 # r \<and> us \<noteq> [])"
    by (cases us) (simp_all add: start_code_def)
  have no3: "take 3 (b # u @ annex_b_form us) \<noteq> [0, 0, 1]"
    using Cons.prems front by (cases u; cases "tl u") (auto split: if_splits)
  have no4: "take 4 (b # u @ annex_b_form us) \<noteq> start_code"
    using Cons.prems front
    by (cases u; cases "tl u"; cases "tl (tl u)") (auto simp: start_code_def split: if_splits)
  show ?case
  proof (cases "length (b # u @ annex_b_form us) < 3")
    case True
    then have "us = []" using front by auto
    with True show ?thesis by simp
  next
    case False
    define r where "r = u @ annex_b_form us"
    have "find_from index (b # r) = find_from (index + 1) r"
      using False no3 no4 unfolding r_def [symmetric] by auto
    with IH show ?thesis by (simp add: r_def)
  qed
qed

lemma annex_b_loop_clean:
  "list_all clean_unit us \<Longrightarrow>
     annex_b_loop (pre @ annex_b_form us) (length pre) (sps, pps) =
       (sps \<or> list_ex (\<lambda>u. unit_type u = 7) us, pps \<or> list_ex (\<lambda>u. unit_type u = 8) us)"
proof (induction us arbitrary: pre sps pps)
  case Nil
  then show ?case by (simp add: annex_b_loop.simps find_start_code_def)
next
  case (Cons u us)
  let ?p = "pre @ start_code @ u @ annex_b_form us"
  have here: "find_start_code ?p (length pre) = Some (length pre, 4)"
    by (simp add: find_start_code_def find_from_code)
  have clean: "u \<noteq> []" "code_free u" "last u \<noteq> 0" using Cons.prems by (simp_all add: clean_unit_def)
  have len: "length start_code = 4" by (simp add: start_code_def)
  have after: "find_start_code ?p (length pre + 4) =
      (if us = [] then None else Some (length pre + 4 + length u, 4))"
    using find_from_clean [of u "length pre + 4" us] clean len by (simp add: find_start_code_def)
  have hd: "?p ! (length pre + 4) = hd u"
    using clean(1) len by (simp add: nth_append hd_conv_nth)
  have nxt: "(case find_start_code ?p (length pre + 4) of None \<Rightarrow> length ?p | Some (offset, _) \<Rightarrow> offset)
      = length pre + 4 + length u"
    using after len by (cases us) simp_all
  define found where "found = (if unit_type u = 7 then (True, pps)
      else if unit_type u = 8 then (sps, True) else (sps, pps))"
  define p where "p = ?p"
  have "annex_b_loop p (length pre) (sps, pps) = annex_b_loop p (length pre + 4 + length u) found"
    using clean(1) by (subst annex_b_loop.simps)
      (simp add: here [folded p_def] nxt [folded p_def] hd [folded p_def] Let_def unit_type_def found_def)
  then have "annex_b_loop ?p (length pre) (sps, pps) = annex_b_loop ?p (length pre + 4 + length u) found"
    by (simp add: p_def)
  also have "\<dots> = annex_b_loop ((pre @ start_code @ u) @ annex_b_form us) (length (pre @ start_code @ u)) found"
    by (simp add: len add.assoc)
  also have "\<dots> = (fst found \<or> list_ex (\<lambda>u. unit_type u = 7) us, snd found \<or> list_ex (\<lambda>u. unit_type u = 8) us)"
    using Cons.IH [of "pre @ start_code @ u" "fst found" "snd found"] Cons.prems by simp
  finally show ?case by (auto simp: found_def)
qed

text \<open>
  On a stream of well-formed units the scan finds a sequence parameter set exactly if some unit
  has type 7 and a picture parameter set exactly if some unit has type 8.
\<close>

theorem parameter_sets_found:
  assumes "list_all clean_unit us"
  shows "annex_b_parameter_sets (annex_b_form us) =
    (list_ex (\<lambda>u. unit_type u = 7) us, list_ex (\<lambda>u. unit_type u = 8) us)"
  using annex_b_loop_clean [OF assms, of "[]"] by (simp add: annex_b_parameter_sets_def)

theorem parameter_sets_found_witness:
  "annex_b_parameter_sets (annex_b_form [[0x67, 0x42], [0x65, 0x88]]) = (True, False)"
proof -
  have "list_all clean_unit [[0x67, 0x42], [0x65, 0x88]]" by (simp add: clean_unit_def)
  from parameter_sets_found [OF this] show ?thesis by (simp add: unit_type_def)
qed

section \<open>Normalisation\<close>

lemma be_bytes_2: "be_bytes 2 v = [of_nat (v div 256 mod 256), of_nat (v mod 256)]"
  by (simp add: numeral_2_eq_2)

lemma avcc_to_annex_b_form:
  assumes "1 \<le> n" "n \<le> 4" "units_fit n us" "list_ex (\<lambda>u. u \<noteq> []) us"
  shows "avcc_to_annex_b (avcc_form n us) n = Inr (annex_b_form (nonempty us))"
proof -
  have "nonempty us \<noteq> []" using assms(4) by (auto simp: filter_empty_conv list_ex_iff)
  then have "annex_b_form (nonempty us) \<noteq> []" by (cases "nonempty us") (auto simp: start_code_def)
  then show ?thesis
    using assms(1,2) avcc_loop_form [of n us "[]"] assms(3) by (simp add: avcc_to_annex_b_def)
qed

lemma nonempty_clean: "list_all clean_unit us \<Longrightarrow> nonempty us = us"
  by (induction us) (auto simp: clean_unit_def)

text \<open>
  A packet in AVCC form that is not taken for Annex B becomes the Annex B form of its units; on
  a key frame whose units lack one of the parameter sets the stream's own sets come first, and they
  are never repeated when both are there.
\<close>

theorem normalize_avcc_packet:
  assumes "list_all clean_unit us" "us \<noteq> []" "list_all (\<lambda>u. length u < 256 ^ nalu_length_size c) us"
    and "1 \<le> nalu_length_size c" "nalu_length_size c \<le> 4"
    and "\<not> looks_like_annex_b (avcc_form (nalu_length_size c) us)"
  shows "normalize_h264_payload (avcc_form (nalu_length_size c) us) is_keyframe (Some c) =
    Inr (if is_keyframe \<and> \<not> (list_ex (\<lambda>u. unit_type u = 7) us \<and> list_ex (\<lambda>u. unit_type u = 8) us)
         then parameter_sets_annexb c @ annex_b_form us else annex_b_form us)"
proof -
  have "list_ex (\<lambda>u. u \<noteq> []) us"
    using assms(1,2) by (cases us) (auto simp: clean_unit_def)
  then have "avcc_to_annex_b (avcc_form (nalu_length_size c) us) (nalu_length_size c) =
      Inr (annex_b_form us)"
    using avcc_to_annex_b_form [OF assms(4,5,3)] nonempty_clean [OF assms(1)] by simp
  moreover have "annex_b_parameter_sets (annex_b_form us) =
      (list_ex (\<lambda>u. unit_type u = 7) us, list_ex (\<lambda>u. unit_type u = 8) us)"
    using annex_b_loop_clean [OF assms(1), of "[]"] by (simp add: annex_b_parameter_sets_def)
  ultimately show ?thesis
    using assms(6) by (cases is_keyframe) (simp_all add: normalize_h264_payload_def Let_def)
qed

theorem normalize_avcc_packet_witness:
  "normalize_h264_payload [0, 2, 0x65, 0x88] True
     (Some \<lparr> nalu_length_size = 2, parameter_sets_annexb = [0, 0, 0, 1, 0x67] \<rparr>) =
   Inr [0, 0, 0, 1, 0x67, 0, 0, 0, 1, 0x65, 0x88]"
proof -
  let ?c = "\<lparr> nalu_length_size = 2, parameter_sets_annexb = [0, 0, 0, 1, 0x67 :: u8] \<rparr>"
  have form: "avcc_form (nalu_length_size ?c) [[0x65, 0x88]] = [0, 2, 0x65, 0x88]"
    by (simp add: be_bytes_2)
  have "list_all clean_unit [[0x65, 0x88]]" by (simp add: clean_unit_def)
  moreover have "\<not> looks_like_annex_b (avcc_form (nalu_length_size ?c) [[0x65, 0x88]])"
    unfolding form by (simp add: looks_like_annex_b_def is_prefix_def start_code_def)
  ultimately have "normalize_h264_payload (avcc_form (nalu_length_size ?c) [[0x65, 0x88]]) True (Some ?c) =
      Inr (parameter_sets_annexb ?c @ annex_b_form [[0x65, 0x88]])"
    by (subst normalize_avcc_packet) (simp_all add: unit_type_def)
  then show ?thesis unfolding form by (simp add: start_code_def)
qed

lemma of_nat_u8_eq: "x < 256 \<Longrightarrow> (of_nat x :: u8) = c \<longleftrightarrow> x = unat c"
  by (auto simp: unat_of_nat)

lemma be_bytes_zero: "v < 256 ^ n \<Longrightarrow> be_bytes n v = replicate n 0 \<longleftrightarrow> v = 0"
proof (induction n)
  case (Suc n)
  have "v div 256 ^ n < 256" using Suc.prems by (simp add: less_mult_imp_div_less mult.commute)
  then have byte: "(of_nat (v div 256 ^ n mod 256) :: u8) = 0 \<longleftrightarrow> v < 256 ^ n"
    by (simp add: of_nat_u8_eq div_eq_0_iff)
  show ?case
  proof (cases "v < 256 ^ n")
    case True
    with Suc.IH byte show ?thesis by simp
  next
    case False
    then have "v \<noteq> 0" by (intro notI) simp
    with False byte show ?thesis by simp
  qed
qed simp

text \<open>A field whose byte number \<open>k\<close> is the first that is not 0, and is 1.\<close>

lemma be_bytes_one:
  "v < 256 ^ n \<Longrightarrow> k < n \<Longrightarrow>
     take (Suc k) (be_bytes n v) = replicate k 0 @ [1] \<longleftrightarrow> 256 ^ (n - 1 - k) \<le> v \<and> v < 2 * 256 ^ (n - 1 - k)"
proof (induction n arbitrary: k)
  case (Suc n)
  have b: "v div 256 ^ n < 256" using Suc.prems(1) by (simp add: less_mult_imp_div_less mult.commute)
  show ?case
  proof (cases k)
    case 0
    have "(of_nat (v div 256 ^ n mod 256) :: u8) = 1 \<longleftrightarrow> v div 256 ^ n = 1" using b by (simp add: of_nat_u8_eq)
    also have "\<dots> \<longleftrightarrow> 256 ^ n \<le> v \<and> v < 2 * 256 ^ n"
    proof
      assume d: "v div 256 ^ n = 1"
      have "v = v div 256 ^ n * 256 ^ n + v mod 256 ^ n" by (rule div_mult_mod_eq [symmetric])
      moreover have "v mod 256 ^ n < 256 ^ n" by simp
      ultimately show "256 ^ n \<le> v \<and> v < 2 * 256 ^ n" unfolding d by linarith
    qed (auto intro: div_nat_eqI)
    finally show ?thesis by (simp add: 0)
  next
    case (Suc j)
    have zero: "(of_nat (v div 256 ^ n mod 256) :: u8) = 0 \<longleftrightarrow> v < 256 ^ n"
      using b by (simp add: of_nat_u8_eq div_eq_0_iff)
    show ?thesis
    proof (cases "v < 256 ^ n")
      case True
      with Suc.IH [of j] Suc.prems Suc zero show ?thesis by simp
    next
      case False
      obtain e where e: "n = Suc e" using Suc.prems(2) Suc by (cases n) auto
      have "(256 :: nat) ^ (n - Suc j) \<le> 256 ^ e" by (rule power_increasing) (simp_all add: e)
      moreover have "(256 :: nat) ^ n = 256 * 256 ^ e" by (simp add: e)
      ultimately have "\<not> v < 2 * 256 ^ (n - Suc j)" using False by linarith
      with False zero Suc show ?thesis by simp
    qed
  qed
qed simp

text \<open>
  The units at which the byte number \<open>k\<close> of a packet with length fields of \<open>n\<close> bytes is the first that
  is not 0, and is 1: the units before the one with that byte in its field are empty, and the length of
  that one has there its highest byte, which is 1.
\<close>

definition first_one_at :: "nat \<Rightarrow> bytes list \<Rightarrow> nat \<Rightarrow> bool" where
  "first_one_at n us k \<longleftrightarrow>
     k div n < length us \<and> list_all (\<lambda>u. u = []) (take (k div n) us) \<and>
     256 ^ (n - 1 - k mod n) \<le> length (us ! (k div n)) \<and> length (us ! (k div n)) < 2 * 256 ^ (n - 1 - k mod n)"

lemma avcc_form_one:
  assumes "0 < n" "list_all (\<lambda>u. length u < 256 ^ n) us"
  shows "is_prefix (replicate k 0 @ [1]) (avcc_form n us) \<longleftrightarrow> first_one_at n us k"
  using assms(2)
proof (induction us arbitrary: k)
  case (Cons u us)
  have len: "length u < 256 ^ n" using Cons.prems by simp
  show ?case
  proof (cases "k < n")
    case True
    with be_bytes_one [OF len True] show ?thesis by (simp add: is_prefix_def first_one_at_def)
  next
    case False
    define j where "j = k - n"
    have k: "k = n + j" using False by (simp add: j_def)
    have "is_prefix (replicate k 0 @ [1]) (avcc_form n (u # us)) \<longleftrightarrow>
        be_bytes n (length u) = replicate n 0 \<and> is_prefix (replicate j 0 @ [1]) (u @ avcc_form n us)"
      by (auto simp: is_prefix_def k replicate_add)
    also have "\<dots> \<longleftrightarrow> u = [] \<and> is_prefix (replicate j 0 @ [1]) (avcc_form n us)"
      unfolding be_bytes_zero [OF len] by auto
    also have "\<dots> \<longleftrightarrow> u = [] \<and> first_one_at n us j" using Cons.IH [of j] Cons.prems by simp
    also have "\<dots> \<longleftrightarrow> first_one_at n (u # us) k"
    proof -
      have "k div n = Suc (j div n)" "k mod n = j mod n" using assms(1) by (simp_all add: k div_add_self1)
      then show ?thesis
        by (simp only: first_one_at_def length_Cons take_Suc_Cons list.pred_inject nth_Cons_Suc Suc_less_eq) blast
    qed
    finally show ?thesis .
  qed
qed (simp add: is_prefix_def first_one_at_def)

text \<open>
  C28: for every size of the length fields, the test for Annex B takes a packet for Annex B exactly if its
  third or its fourth byte is the first that is not 0, and is 1, all of which belong to length fields; such a packet is passed on
  unconverted. With fields of four bytes these are the packets whose first unit has 1 or 256 to 511
  bytes; with three bytes, a first unit of 1 byte, or an empty one before a unit of 65536 to 131071; with two
  bytes, an empty first unit before one of 1 or 256 to 511; with one byte, two or three empty ones before one of 1.
\<close>

theorem avcc_taken_for_annex_b:
  assumes "0 < n" "list_all (\<lambda>u. length u < 256 ^ n) us"
  shows "(looks_like_annex_b (avcc_form n us) \<longleftrightarrow> first_one_at n us 2 \<or> first_one_at n us 3) \<and>
    (first_one_at n us 2 \<or> first_one_at n us 3 \<longrightarrow>
       normalize_h264_payload (avcc_form n us) False config = Inr (avcc_form n us))"
proof -
  have "looks_like_annex_b (avcc_form n us) \<longleftrightarrow> first_one_at n us 2 \<or> first_one_at n us 3"
    using avcc_form_one [OF assms, of 2] avcc_form_one [OF assms, of 3]
    by (auto simp: looks_like_annex_b_def start_code_def numeral_2_eq_2 numeral_3_eq_3)
  then show ?thesis by (auto simp: normalize_h264_payload_def)
qed

lemma first_one_cases:
  assumes "k div n = i" "n - 1 - k mod n = e"
  shows "first_one_at n us k \<longleftrightarrow>
    i < length us \<and> list_all (\<lambda>u. u = []) (take i us) \<and> 256 ^ e \<le> length (us ! i) \<and> length (us ! i) < 2 * 256 ^ e"
  unfolding first_one_at_def assms ..

lemma first_one_fields:
  "first_one_at 4 (u # us) 2 \<longleftrightarrow> 256 \<le> length u \<and> length u < 512"
  "first_one_at 4 (u # us) 3 \<longleftrightarrow> length u = 1"
  "first_one_at 3 (u # us) 2 \<longleftrightarrow> length u = 1"
  "first_one_at 3 (u # v # us) 3 \<longleftrightarrow> u = [] \<and> 65536 \<le> length v \<and> length v < 131072"
  "first_one_at 2 (u # v # us) 2 \<longleftrightarrow> u = [] \<and> 256 \<le> length v \<and> length v < 512"
  "first_one_at 2 (u # v # us) 3 \<longleftrightarrow> u = [] \<and> length v = 1"
proof -
  have one: "1 \<le> k \<and> k < 2 \<longleftrightarrow> k = 1" for k :: nat by linarith
  have n: "2 div 4 = (0 :: nat)" "4 - 1 - 2 mod 4 = (1 :: nat)" "3 div 4 = (0 :: nat)" "4 - 1 - 3 mod 4 = (0 :: nat)"
    "2 div 3 = (0 :: nat)" "3 - 1 - 2 mod 3 = (0 :: nat)" "3 div 3 = (1 :: nat)" "3 - 1 - 3 mod 3 = (2 :: nat)"
    "2 div 2 = (1 :: nat)" "2 - 1 - 2 mod 2 = (1 :: nat)" "3 div 2 = (1 :: nat)" "2 - 1 - 3 mod 2 = (0 :: nat)"
    by simp_all
  show "first_one_at 4 (u # us) 2 \<longleftrightarrow> 256 \<le> length u \<and> length u < 512"
    unfolding first_one_cases [OF n(1,2)] by simp
  show "first_one_at 4 (u # us) 3 \<longleftrightarrow> length u = 1"
    unfolding first_one_cases [OF n(3,4)] one [symmetric] by simp
  show "first_one_at 3 (u # us) 2 \<longleftrightarrow> length u = 1"
    unfolding first_one_cases [OF n(5,6)] one [symmetric] by simp
  show "first_one_at 3 (u # v # us) 3 \<longleftrightarrow> u = [] \<and> 65536 \<le> length v \<and> length v < 131072"
    unfolding first_one_cases [OF n(7,8)] by simp
  show "first_one_at 2 (u # v # us) 2 \<longleftrightarrow> u = [] \<and> 256 \<le> length v \<and> length v < 512"
    unfolding first_one_cases [OF n(9,10)] by simp
  show "first_one_at 2 (u # v # us) 3 \<longleftrightarrow> u = [] \<and> length v = 1"
    unfolding first_one_cases [OF n(11,12)] one [symmetric] by simp
qed

theorem avcc_taken_for_annex_b_witness:
  "normalize_h264_payload (avcc_form 3 [[7], [8, 9]]) False None = Inr (avcc_form 3 [[7], [8, 9]]) \<and>
   looks_like_annex_b (avcc_form 4 [replicate 300 9, [7]])"
proof
  have three: "list_all (\<lambda>u. length u < 256 ^ 3) [[7], [8, 9 :: u8]]" by simp
  have "first_one_at 3 [[7], [8, 9]] 2" unfolding first_one_fields by simp
  with avcc_taken_for_annex_b [OF _ three, of None]
  show "normalize_h264_payload (avcc_form 3 [[7], [8, 9]]) False None = Inr (avcc_form 3 [[7], [8, 9]])"
    by (simp del: avcc_form_simps)
  have four: "list_all (\<lambda>u. length u < 256 ^ 4) [replicate 300 9, [7 :: u8]]" by simp
  have "first_one_at 4 [replicate 300 9, [7]] 2" unfolding first_one_fields length_replicate by simp
  with avcc_taken_for_annex_b [OF _ four, of None] show "looks_like_annex_b (avcc_form 4 [replicate 300 9, [7]])"
    by (simp del: avcc_form_simps)
qed

section \<open>Extradata\<close>

lemma read_avcc_units_form:
  "units_fit 2 us \<Longrightarrow>
     read_avcc_units (length us) (avcc_form 2 us @ rest) out = Inr (rest, out @ annex_b_form us)"
proof (induction us arbitrary: out)
  case (Cons u us)
  then have "be_value (be_bytes 2 (length u)) = length u" by (simp add: be_value_be_bytes)
  with Cons show ?case by (simp add: read_avcc_unit_def Let_def)
qed simp

text \<open>
  C29: parsing the extradata of a stream yields the length field's size and the parameter sets of
  both lists in Annex B form, in their order, whatever the profile bytes and reserved bits are.
\<close>

theorem extradata_roundtrip:
  assumes "list_all (\<lambda>u. length u < 256 ^ 2) (sps @ pps)"
    and "unat (y AND 0x1F) = length sps" "length pps < 256"
  shows "parse_avcc_extradata ([1, profile, flags, level, x, y] @ avcc_form 2 sps
      @ of_nat (length pps) # avcc_form 2 pps) =
    Inr (unat (x AND 3) + 1, annex_b_form (sps @ pps))"
proof -
  have "read_avcc_units (length sps) (avcc_form 2 sps @ of_nat (length pps) # avcc_form 2 pps) [] =
      Inr (of_nat (length pps) # avcc_form 2 pps, annex_b_form sps)"
    using read_avcc_units_form [of sps "of_nat (length pps) # avcc_form 2 pps" "[]"] assms(1) by simp
  moreover have "read_avcc_units (length pps) (avcc_form 2 pps) (annex_b_form sps) =
      Inr ([], annex_b_form (sps @ pps))"
    using read_avcc_units_form [of pps "[]" "annex_b_form sps"] assms(1) by simp
  moreover have "unat (of_nat (length pps) :: u8) = length pps" using assms(3) by (simp add: unat_of_nat)
  ultimately show ?thesis
    using assms(2) by (simp add: parse_avcc_extradata_def Let_def)
qed

theorem extradata_roundtrip_witness:
  "parse_avcc_extradata [1, 66, 0, 30, 0xFF, 0xE1, 0, 2, 0x67, 0x42, 1, 0, 1, 0x68] =
     Inr (4, [0, 0, 0, 1, 0x67, 0x42, 0, 0, 0, 1, 0x68])"
proof -
  have "list_all (\<lambda>u. length u < 256 ^ 2) ([[0x67, 0x42]] @ [[0x68 :: u8]])" by simp
  moreover have "unat ((0xE1 :: u8) AND 0x1F) = length [[0x67, 0x42 :: u8]]" by simp
  moreover have "length [[0x68 :: u8]] < 256" by simp
  ultimately have "parse_avcc_extradata ([1, 66, 0, 30, 0xFF, 0xE1] @ avcc_form 2 [[0x67, 0x42]]
      @ of_nat (length [[0x68 :: u8]]) # avcc_form 2 [[0x68]]) =
    Inr (unat ((0xFF :: u8) AND 3) + 1, annex_b_form ([[0x67, 0x42]] @ [[0x68]]))"
    by (rule extradata_roundtrip)
  then show ?thesis by (simp add: start_code_def be_bytes_2)
qed

end
