(* ===== verification/Caml_Media.thy ===== *)
theory Caml_Media
  imports Caml_Compiler Caml_Pool
begin

text \<open>
  What flows through a pipeline (\<^verbatim>\<open>crates/caml-core/src/runtime.rs\<close>): media payloads and where
  their bytes live, and the sink that only records packets. A borrowed slice keeps its owner alive,
  so it stands for its bytes; a pooled payload is a read handle and is read through the pool.
\<close>

datatype media_storage =
    Pooled pooled_buffer
  | Owned "u8 list"
  | BorrowedSlice "u8 list"
  | MappedFrame "u8 list"
  | FfmpegPacket "u8 list"

definition from_vec :: "u8 list \<Rightarrow> media_storage" where
  "from_vec bytes = Owned bytes"

fun storage_slice :: "store \<Rightarrow> media_storage \<Rightarrow> u8 list option" where
  "storage_slice st (Pooled buf) = as_slice buf st"
| "storage_slice st (Owned v) = Some v"
| "storage_slice st (BorrowedSlice s) = Some s"
| "storage_slice st (MappedFrame s) = Some s"
| "storage_slice st (FfmpegPacket s) = Some s"

text \<open>\<open>MediaStorage::len\<close>; for a pooled buffer it is the length cached in the slot.\<close>

fun storage_len :: "store \<Rightarrow> media_storage \<Rightarrow> nat option" where
  "storage_len st (Pooled buf) =
     (if pb_slot_index buf < length (slots st)
      then Some (slot_len (slots st ! pb_slot_index buf)) else None)"
| "storage_len st (Owned v) = Some (length v)"
| "storage_len st (BorrowedSlice s) = Some (length s)"
| "storage_len st (MappedFrame s) = Some (length s)"
| "storage_len st (FfmpegPacket s) = Some (length s)"

record encoded_packet =
  ep_codec :: str
  ep_timestamp :: "duration option"
  ep_duration :: "duration option"
  ep_is_keyframe :: bool
  ep_data :: media_storage

record decoded_frame =
  df_pixel_format :: str
  df_width :: u32
  df_height :: u32
  df_timestamp :: "duration option"
  df_data :: media_storage

datatype media_payload =
    EncodedPacket encoded_packet
  | DecodedFrame decoded_frame
  | EndOfStream

text \<open>\<open>MediaPayload::data\<close>.\<close>

fun payload_storage :: "media_payload \<Rightarrow> media_storage option" where
  "payload_storage (EncodedPacket packet) = Some (ep_data packet)"
| "payload_storage (DecodedFrame frame) = Some (df_data frame)"
| "payload_storage EndOfStream = None"

definition payload_data :: "store \<Rightarrow> media_payload \<Rightarrow> u8 list option" where
  "payload_data st payload = Option.bind (payload_storage payload) (storage_slice st)"

text \<open>\<open>RecordingSink\<close> keeps a line per encoded packet and ignores everything else.\<close>

record recorded_packet =
  rc_codec :: str
  rc_bytes :: nat
  rc_is_keyframe :: bool
  rc_timestamp :: "duration option"

fun recording_sink_consume ::
  "store \<Rightarrow> media_payload \<Rightarrow> recorded_packet list \<Rightarrow> (recorded_packet list) option" where
  "recording_sink_consume st (EncodedPacket packet) packets =
     map_option (\<lambda>len. packets @
        [\<lparr> rc_codec = ep_codec packet, rc_bytes = len, rc_is_keyframe = ep_is_keyframe packet,
           rc_timestamp = ep_timestamp packet \<rparr>]) (storage_len st (ep_data packet))"
| "recording_sink_consume st (DecodedFrame frame) packets = Some packets"
| "recording_sink_consume st EndOfStream packets = Some packets"

end
