(* ===== verification/Rust_Float.thy ===== *)
theory Rust_Float
  imports Complex_Main Rust_String "HOL-Library.Log_Nat"
begin

text \<open>
  What the runtime uses of \<open>f32\<close>: a finite \<open>f32\<close> is the rational number it stands for, an
  operation rounds to the nearest \<open>f32\<close> with ties to even (24 bits of significand, exponents down to
  \<open>-149\<close>), and \<open>None\<close> is an overflow to infinity. \<open>powi\<close> multiplies by repeated squaring. On top of
  it are the conversions between durations and seconds that \<open>Duration::mul_f32\<close> makes.
\<close>

section \<open>Rounding\<close>

definition round_half_even :: "rat \<Rightarrow> int" where
  "round_half_even x =
     (let f = \<lfloor>x\<rfloor>; d = x - of_int f in
      if d < 1 / 2 then f else if d > 1 / 2 then f + 1 else if even f then f else f + 1)"

text \<open>\<open>floor (log 2 x)\<close> of a positive number.\<close>

definition rat_log2 :: "rat \<Rightarrow> int" where
  "rat_log2 x =
     (if x \<ge> 1 then int (nat (bitlen \<lfloor>x\<rfloor>)) - 1 else - int (nat (bitlen (\<lceil>1 / x\<rceil> - 1))))"

definition round_f32 :: "rat \<Rightarrow> rat option" where
  "round_f32 x =
     (if x = 0 then Some 0
      else (let a = \<bar>x\<bar>; e = max (- 149) (rat_log2 a - 23);
                r = of_int (round_half_even (a / 2 powi e)) * 2 powi e
            in if r \<ge> 2 ^ 128 then None else Some (sgn x * r)))"

definition f32_mul :: "rat \<Rightarrow> rat \<Rightarrow> rat option" where
  "f32_mul a b = round_f32 (a * b)"

text \<open>The loop of \<open>powi\<close> for a non-negative exponent: \<open>r\<close> collects, \<open>a\<close> is squared.\<close>

function powi_loop :: "rat \<Rightarrow> rat \<Rightarrow> nat \<Rightarrow> rat option" where
  "powi_loop r a b =
     (case (if odd b then f32_mul r a else Some r) of
        None \<Rightarrow> None
      | Some r' \<Rightarrow>
          if b div 2 = 0 then Some r'
          else (case f32_mul a a of None \<Rightarrow> None | Some a' \<Rightarrow> powi_loop r' a' (b div 2)))"
  by pat_completeness auto
termination
  by (relation "measure (\<lambda>(r, a, b). b)") auto

declare powi_loop.simps [simp del]

definition f32_powi :: "rat \<Rightarrow> int \<Rightarrow> rat option" where
  "f32_powi a b =
     (case powi_loop 1 a (nat \<bar>b\<bar>) of
        None \<Rightarrow> if b < 0 then Some 0 else None
      | Some r \<Rightarrow> if b < 0 then (if r = 0 then None else round_f32 (1 / r)) else Some r)"

section \<open>Durations and seconds\<close>

definition as_secs_f32 :: "duration \<Rightarrow> rat option" where
  "as_secs_f32 d =
     Option.bind (round_f32 (of_nat (d div 1000000000))) (\<lambda>secs.
       Option.bind (round_f32 (of_nat (d mod 1000000000))) (\<lambda>nanos.
         Option.bind (round_f32 (nanos / 1000000000)) (\<lambda>fraction.
           round_f32 (secs + fraction))))"

text \<open>\<open>from_secs_f32\<close> panics on a negative or too large number.\<close>

definition from_secs_f32 :: "rat \<Rightarrow> duration option" where
  "from_secs_f32 x =
     (let n = round_half_even (x * 1000000000) in
      if x < 0 \<or> n \<ge> 2 ^ 64 * 1000000000 then None else Some (nat n))"

definition mul_f32 :: "duration \<Rightarrow> rat \<Rightarrow> duration option" where
  "mul_f32 d r =
     Option.bind (as_secs_f32 d) (\<lambda>secs. Option.bind (f32_mul r secs) from_secs_f32)"

section \<open>Rounding is exact on what fits\<close>

lemma powi2_mono: "(2 :: rat) powi a \<le> 2 powi b \<longleftrightarrow> a \<le> b"
proof
  assume le: "(2 :: rat) powi a \<le> 2 powi b"
  show "a \<le> b"
  proof (rule ccontr)
    assume "\<not> a \<le> b"
    then have "(2 :: rat) powi b < 2 powi a" by (intro power_int_strict_increasing) simp_all
    with le show False by simp
  qed
next
  assume "a \<le> b"
  then show "(2 :: rat) powi a \<le> 2 powi b" by (rule power_int_increasing) simp_all
qed

lemma powi2_strict_mono: "(2 :: rat) powi a < 2 powi b \<longleftrightarrow> a < b"
  using powi2_mono [of b a] by auto

lemma rat_log2_bounds:
  assumes "0 < x"
  shows "2 powi rat_log2 x \<le> x \<and> x < 2 powi (rat_log2 x + 1)"
proof (cases "x \<ge> 1")
  case True
  then have pos: "0 < \<lfloor>x\<rfloor>" by simp
  define b where "b = nat (bitlen \<lfloor>x\<rfloor>)"
  have b: "0 < bitlen \<lfloor>x\<rfloor>" using pos by (simp add: bitlen_alt_def)
  from bitlen_bounds [OF pos] have lo: "2 ^ (b - 1) \<le> \<lfloor>x\<rfloor>" and hi: "\<lfloor>x\<rfloor> < 2 ^ b"
    using b by (auto simp: b_def nat_diff_distrib)
  have log: "rat_log2 x = int (b - 1)" "rat_log2 x + 1 = int b"
    using True b by (auto simp: rat_log2_def b_def)
  from lo have "(2 :: rat) ^ (b - 1) \<le> x"
    by (metis le_floor_iff of_int_numeral of_int_power)
  moreover from hi have "x < 2 ^ b"
    by (metis floor_less_iff of_int_numeral of_int_power)
  ultimately show ?thesis unfolding log(2) unfolding log(1) by (simp only: power_int_of_nat simp_thms)
next
  case False
  let ?y = "1 / x"
  have y: "1 < ?y" using False assms by simp
  then have c: "1 < \<lceil>?y\<rceil>" by simp
  then have pos: "0 < \<lceil>?y\<rceil> - 1" by simp
  define b where "b = nat (bitlen (\<lceil>?y\<rceil> - 1))"
  have b: "0 < bitlen (\<lceil>?y\<rceil> - 1)" using pos by (simp add: bitlen_alt_def)
  from bitlen_bounds [OF pos] have lo: "2 ^ (b - 1) \<le> \<lceil>?y\<rceil> - 1" and hi: "\<lceil>?y\<rceil> - 1 < 2 ^ b"
    using b by (auto simp: b_def nat_diff_distrib)
  have log: "rat_log2 x = - int b" "rat_log2 x + 1 = - int (b - 1)"
    using False b by (auto simp: rat_log2_def b_def)
  have "(2 :: rat) ^ (b - 1) < ?y"
    using lo by (metis less_ceiling_iff of_int_numeral of_int_power zle_diff1_eq)
  then have "x < 1 / 2 ^ (b - 1)" using assms by (simp add: field_simps)
  moreover have "?y \<le> 2 ^ b"
  proof -
    have "\<lceil>?y\<rceil> \<le> 2 ^ b" using hi by simp
    then show ?thesis by (metis ceiling_le_iff of_int_numeral of_int_power)
  qed
  then have "1 / 2 ^ b \<le> x" using assms by (simp add: field_simps)
  ultimately show ?thesis
    unfolding log(2) unfolding log(1)
    by (simp only: power_int_minus power_int_of_nat inverse_eq_divide simp_thms)
qed

lemma round_half_even_int [simp]: "round_half_even (of_int m) = m"
  by (simp add: round_half_even_def)

lemma round_f32_exact:
  assumes x: "x = of_int m * 2 powi e" and "0 < m" "m < 2 ^ 24" "- 149 \<le> e" "x < 2 ^ 128"
  shows "round_f32 x = Some x"
proof -
  have p: "(0 :: rat) < 2 powi e" by simp
  have pos: "0 < x" using x assms(2) p by simp
  define l where "l = rat_log2 x"
  have "2 powi l \<le> x" using rat_log2_bounds [OF pos] by (simp add: l_def)
  also have "x < 2 ^ 24 * 2 powi e"
  proof -
    have "(of_int m :: rat) < of_int (2 ^ 24)" using assms(3) by (simp only: of_int_less_iff)
    then have "(of_int m :: rat) < 2 ^ 24" by simp
    then show ?thesis unfolding x using p by (rule mult_strict_right_mono)
  qed
  also have "2 ^ 24 * 2 powi e = (2 :: rat) powi (24 + e)"
    by (simp add: power_int_add)
  finally have "(2 :: rat) powi l < 2 powi (24 + e)" .
  then have "l < 24 + e" by (simp add: powi2_strict_mono)
  then have e': "max (- 149) (l - 23) \<le> e" using assms(4) by simp
  define e' where "e' = max (- 149) (l - 23)"
  define k where "k = nat (e - e')"
  have k: "e = e' + int k" using e' by (simp add: k_def e'_def)
  have "x = of_int (m * 2 ^ k) * 2 powi e'"
    by (simp add: x k power_int_add)
  then have q: "x / 2 powi e' = of_int (m * 2 ^ k)" by simp
  have "of_int (round_half_even (x / 2 powi e')) * 2 powi e' = x"
    unfolding q round_half_even_int by (simp add: x k power_int_add)
  then show ?thesis
    using pos assms(5) by (simp add: round_f32_def Let_def l_def [symmetric] e'_def [symmetric])
qed

lemma round_f32_0 [simp]: "round_f32 0 = Some 0"
  by (simp add: round_f32_def)

lemma round_f32_power: "k < 128 \<Longrightarrow> - 149 \<le> k \<Longrightarrow> round_f32 (2 powi k) = Some (2 powi k)"
proof (rule round_f32_exact [where m = 1 and e = k])
  assume "k < 128"
  then have "(2 :: rat) powi k < 2 powi 128" by (simp only: powi2_strict_mono)
  then show "(2 :: rat) powi k < 2 ^ 128" by simp
qed auto

lemma round_f32_overflow: "128 \<le> k \<Longrightarrow> round_f32 (2 powi k) = None"
proof -
  assume k: "128 \<le> k"
  let ?x = "(2 :: rat) powi k"
  have b: "2 powi rat_log2 ?x \<le> ?x" "?x < 2 powi (rat_log2 ?x + 1)"
    using rat_log2_bounds [of ?x] by simp_all
  then have "rat_log2 ?x \<le> k" "k < rat_log2 ?x + 1"
    by (simp_all add: powi2_strict_mono powi2_mono)
  then have l: "rat_log2 ?x = k" by simp
  have "?x / 2 powi (k - 23) = 2 powi 23" by (simp add: power_int_diff)
  also have "\<dots> = of_int (2 ^ 23)" by simp
  finally have q: "?x / 2 powi (k - 23) = of_int (2 ^ 23)" .
  have "of_int (round_half_even (?x / 2 powi (k - 23))) * 2 powi (k - 23) = ?x"
    unfolding q round_half_even_int by (simp add: power_int_diff)
  moreover have "(2 :: rat) ^ 128 \<le> ?x"
  proof -
    have "(2 :: rat) powi 128 \<le> ?x" using k by (simp only: powi2_mono)
    then show ?thesis by simp
  qed
  ultimately show ?thesis using k by (simp add: round_f32_def Let_def l)
qed

lemma round_f32_pow: "k < 128 \<Longrightarrow> round_f32 (2 ^ k) = Some (2 ^ k)"
  using round_f32_power [of "int k"] by simp

lemma powi_loop_2: "0 < b \<Longrightarrow> i + j * b < 128 \<Longrightarrow> powi_loop (2 ^ i) (2 ^ j) b = Some (2 ^ (i + j * b))"
proof (induction b arbitrary: i j rule: less_induct)
  case (less b)
  have jb: "j \<le> j * b" using less.prems(1) by simp
  show ?case
  proof (cases "b = 1")
    case True
    have "f32_mul (2 ^ i) (2 ^ j) = Some (2 ^ (i + j))"
      using round_f32_pow [of "i + j"] less.prems True by (simp add: f32_mul_def power_add)
    then show ?thesis using True by (simp add: powi_loop.simps)
  next
    case False
    then have half: "0 < b div 2" "b div 2 < b" using less.prems(1) by auto
    have b: "b = 2 * (b div 2) + b mod 2" by simp
    then have eq: "j * b = (j + j) * (b div 2) + j * (b mod 2)"
      by (metis distrib_left mult.assoc mult.commute mult_2)
    have "j + j \<le> (j + j) * (b div 2)" using half(1) by simp
    then have jj: "j + j < 128" using eq less.prems(2) by linarith
    have sq: "f32_mul (2 ^ j) (2 ^ j) = Some (2 ^ (j + j))"
      using round_f32_pow [OF jj] by (simp add: f32_mul_def power_add)
    show ?thesis
    proof (cases "odd b")
      case True
      then have eq1: "j * b = (j + j) * (b div 2) + j" using eq by (simp add: odd_iff_mod_2_eq_one)
      have "f32_mul (2 ^ i) (2 ^ j) = Some (2 ^ (i + j))"
        using round_f32_pow [of "i + j"] less.prems(2) jb by (simp add: f32_mul_def power_add)
      moreover have "powi_loop (2 ^ (i + j)) (2 ^ (j + j)) (b div 2) =
          Some (2 ^ (i + j + (j + j) * (b div 2)))"
        using less.IH [OF half(2,1)] less.prems(2) eq1 by simp
      ultimately show ?thesis
        using True half(1) sq eq1 by (subst powi_loop.simps) (simp add: add_ac)
    next
      case even: False
      then have eq0: "j * b = (j + j) * (b div 2)" using eq by simp
      have "powi_loop (2 ^ i) (2 ^ (j + j)) (b div 2) = Some (2 ^ (i + (j + j) * (b div 2)))"
        using less.IH [OF half(2,1)] less.prems(2) eq0 by simp
      then show ?thesis
        using even half(1) sq eq0 by (subst powi_loop.simps) simp
    qed
  qed
qed

lemma f32_powi_2: "k < 128 \<Longrightarrow> f32_powi 2 (int k) = Some (2 ^ k)"
proof (cases "k = 0")
  case True
  then show ?thesis by (simp add: f32_powi_def powi_loop.simps)
next
  case False
  assume "k < 128"
  with False powi_loop_2 [of k 0 1] show ?thesis by (simp add: f32_powi_def)
qed

lemma as_secs_quarter: "as_secs_f32 250000000 = Some (2 powi - 2)"
proof -
  have "round_f32 250000000 = Some 250000000"
    by (rule round_f32_exact [where m = 15625000 and e = 4]) simp_all
  moreover have "round_f32 (1 / 4) = Some (1 / 4)"
    using round_f32_power [of "- 2"] by (simp add: power_int_minus)
  ultimately show ?thesis by (simp add: as_secs_f32_def power_int_minus)
qed

lemma as_secs_whole: "k < 64 \<Longrightarrow> as_secs_f32 (2 ^ k * 1000000000) = Some (2 powi int k)"
  using round_f32_pow [of k] by (simp add: as_secs_f32_def)

lemma mul_f32_pow:
  assumes s: "as_secs_f32 d = Some (2 powi j)" and j: "- 2 \<le> j" and n: "int k + j < 128"
    and d: "(of_nat d :: rat) = 2 powi j * 1000000000"
  shows "mul_f32 d (2 ^ k) = (if d * 2 ^ k < 2 ^ 64 * 1000000000 then Some (d * 2 ^ k) else None)"
proof -
  have e: "(2 :: rat) ^ k * 2 powi j = 2 powi (int k + j)"
    by (simp add: power_int_add)
  have "round_f32 ((2 :: rat) ^ k * 2 powi j) = Some (2 powi (int k + j))"
    unfolding e using n j by (intro round_f32_power) simp_all
  then have m: "f32_mul (2 ^ k) (2 powi j) = Some (2 powi (int k + j))"
    by (simp add: f32_mul_def)
  have "(2 :: rat) powi (int k + j) * 1000000000 = of_nat (d * 2 ^ k)"
    unfolding e [symmetric] using d by simp
  also have "\<dots> = of_int (int (d * 2 ^ k))" by simp
  finally have r: "round_half_even (2 powi (int k + j) * 1000000000) = int (d * 2 ^ k)"
    by (simp only: round_half_even_int)
  have big: "int v \<ge> 2 ^ 64 * 1000000000 \<longleftrightarrow> \<not> v < 2 ^ 64 * 1000000000" for v
    by simp linarith
  define v where "v = d * 2 ^ k"
  have pos: "\<not> (2 :: rat) powi (int k + j) < 0" by (simp add: not_less)
  have "from_secs_f32 (2 powi (int k + j)) =
      (if d * 2 ^ k < 2 ^ 64 * 1000000000 then Some (d * 2 ^ k) else None)"
    unfolding from_secs_f32_def Let_def r v_def [symmetric] big using pos by simp
  then show ?thesis by (simp add: mul_f32_def s m)
qed

end
