(* ===== verification/Caml_Runtime.thy ===== *)
theory Caml_Runtime
  imports Caml_Media Rust_Float
begin

text \<open>
  The runtime of \<^verbatim>\<open>crates/caml-core/src/runtime.rs\<close>: the loop that moves payloads from the source
  through the transforms to the sink, and the supervisor that restarts a pipeline with a backoff.

  The code is asynchronous; what it waits for is input. One turn of the pipeline loop consumes a
  \<open>tick\<close>: how the \<open>select!\<close> between cancellation, the source and the watchdog ended, and what
  the transforms and the sink would answer. One turn of the supervisor consumes a \<open>cycle\<close>. A run
  that uses up its inputs is still running, so nothing is assumed about fairness or termination of
  the environment. What the code does to the outside is a list of effects in order. Status map and
  broadcast channel belong to the runtime handle; a receiver that lags behind is not modelled.
\<close>

datatype task_status = Spawning | Running | Stalled | Recovering | Stopped | Failed

datatype runtime_event =
    StatusChanged str task_status "str option"
  | BackendStarted str str str

datatype pipeline_loop_exit =
    ExitCancelled
  | ExitEndOfStream
  | ExitRecoverable str
  | ExitFatal str

fun event_pid :: "runtime_event \<Rightarrow> str" where
  "event_pid (StatusChanged pid status message) = pid"
| "event_pid (BackendStarted pid codec_path backend) = pid"

section \<open>The pipeline loop\<close>

datatype select_outcome =
    Cancelled
  | SourceNext "runtime_error + media_payload"
  | WatchdogElapsed

record tick =
  tk_select :: select_outcome
  tk_data_len :: "nat option"
  tk_transforms :: "(media_payload \<Rightarrow> runtime_error + media_payload) list"
  tk_sink :: "media_payload \<Rightarrow> runtime_error + unit"

text \<open>
  \<open>tk_data_len\<close> is the length of the payload's data, if it has data; the metrics see it.
\<close>

datatype effect =
    Throughput str nat
  | StreamError str str
  | Transformed nat media_payload
  | Consumed media_payload

definition pipeline_exit_from_error :: "runtime_error \<Rightarrow> pipeline_loop_exit" where
  "pipeline_exit_from_error error =
     (let message = runtime_error_display error in
      if is_recoverable error then ExitRecoverable message else ExitFatal message)"

definition watchdog_message :: "duration \<Rightarrow> str" where
  "watchdog_message timeout = ''no media received within '' @ debug_duration timeout"

definition stream_error :: "bool \<Rightarrow> str \<Rightarrow> runtime_error \<Rightarrow> effect list" where
  "stream_error metrics pid error =
     (if metrics then [StreamError pid (runtime_error_display error)] else [])"

fun apply_transforms ::
  "nat \<Rightarrow> (media_payload \<Rightarrow> runtime_error + media_payload) list \<Rightarrow> media_payload
     \<Rightarrow> (runtime_error + media_payload) \<times> effect list" where
  "apply_transforms i [] payload = (Inr payload, [])"
| "apply_transforms i (t # ts) payload =
     (case t payload of
        Inl error \<Rightarrow> (Inl error, [Transformed i payload])
      | Inr transformed \<Rightarrow>
          (let (r, effects) = apply_transforms (i + 1) ts transformed
           in (r, Transformed i payload # effects)))"

text \<open>One turn: \<open>None\<close> goes on, \<open>Some\<close> leaves the loop.\<close>

definition loop_turn ::
  "compiled_pipeline \<Rightarrow> bool \<Rightarrow> tick \<Rightarrow> pipeline_loop_exit option \<times> effect list" where
  "loop_turn p metrics t =
     (case tk_select t of
        Cancelled \<Rightarrow> (Some ExitCancelled, [])
      | WatchdogElapsed \<Rightarrow>
          (Some (ExitRecoverable (watchdog_message (rt_watchdog_timeout (cpl_runtime p)))), [])
      | SourceNext (Inl error) \<Rightarrow>
          (Some (pipeline_exit_from_error error), stream_error metrics (cpl_id p) error)
      | SourceNext (Inr payload) \<Rightarrow>
          (let seen = (case tk_data_len t of
                         Some len \<Rightarrow> if metrics then [Throughput (cpl_id p) len] else []
                       | None \<Rightarrow> []) in
           if payload = EndOfStream then (Some ExitEndOfStream, seen)
           else (case apply_transforms 0 (tk_transforms t) payload of
               (Inl error, effects) \<Rightarrow>
                 (Some (pipeline_exit_from_error error),
                  seen @ effects @ stream_error metrics (cpl_id p) error)
             | (Inr transformed, effects) \<Rightarrow>
                 (case tk_sink t transformed of
                    Inl error \<Rightarrow>
                      (Some (pipeline_exit_from_error error),
                       seen @ effects @ Consumed transformed # stream_error metrics (cpl_id p) error)
                  | Inr _ \<Rightarrow> (None, seen @ effects @ [Consumed transformed])))))"

fun run_pipeline_loop ::
  "compiled_pipeline \<Rightarrow> bool \<Rightarrow> tick list \<Rightarrow> pipeline_loop_exit option \<times> effect list" where
  "run_pipeline_loop p metrics [] = (None, [])"
| "run_pipeline_loop p metrics (t # ts) =
     (case loop_turn p metrics t of
        (Some e, effects) \<Rightarrow> (Some e, effects)
      | (None, effects) \<Rightarrow>
          (let (r, effects') = run_pipeline_loop p metrics ts in (r, effects @ effects')))"

section \<open>The supervisor\<close>

record runtime_inner =
  statuses :: "str \<rightharpoonup> task_status"
  events :: "runtime_event list"
  restarts :: "(str \<times> str) list"
  sleeps :: "duration list"

text \<open>\<open>restarts\<close> are the calls of \<open>record_restart\<close>, \<open>sleeps\<close> the backoffs that were waited for.\<close>

definition send_event :: "runtime_event \<Rightarrow> runtime_inner \<Rightarrow> runtime_inner" where
  "send_event e h = h\<lparr> events := events h @ [e] \<rparr>"

definition publish_status ::
  "str \<Rightarrow> task_status \<Rightarrow> str option \<Rightarrow> runtime_inner \<Rightarrow> runtime_inner" where
  "publish_status pid status message h =
     send_event (StatusChanged pid status message) (h\<lparr> statuses := (statuses h)(pid \<mapsto> status) \<rparr>)"

fun codec_path_debug :: "codec_path \<Rightarrow> str" where
  "codec_path_debug PathPassthrough = ''Passthrough''"
| "codec_path_debug SoftwareTranscode = ''SoftwareTranscode''"
| "codec_path_debug HardwareTranscode = ''HardwareTranscode''"
| "codec_path_debug PathHardwareDecode = ''HardwareDecode''"

fun backend_debug :: "resolved_input_backend \<Rightarrow> str" where
  "backend_debug FfmpegRtsp = ''FfmpegRtsp''"
| "backend_debug V4l2Device = ''V4l2Device''"
| "backend_debug LibcameraDevice = ''LibcameraDevice''"
| "backend_debug AutoDevice = ''AutoDevice''"

fun recovery_class_debug :: "recovery_class \<Rightarrow> str" where
  "recovery_class_debug RecoverNetwork = ''Network''"
| "recovery_class_debug RecoverDevice = ''Device''"
| "recovery_class_debug RecoverHardware = ''Hardware''"

text \<open>
  The wait before restart number \<open>attempts\<close>; \<open>None\<close> is a panic. The multiplication is evaluated
  before the minimum with the largest backoff, and the exponent is \<open>attempts as i32 - 1\<close>.
\<close>

definition backoff :: "recovery_policy \<Rightarrow> u32 \<Rightarrow> duration option" where
  "backoff r attempts =
     Option.bind (f32_powi (backoff_multiplier r) (sint (attempts - 1))) (\<lambda>factor.
       map_option (\<lambda>d. min d (max_backoff r)) (mul_f32 (initial_backoff r) factor))"

text \<open>
  What the environment does during one turn: whether the task was cancelled before it, how building
  the stages ended, how the pipeline loop ended and how long it had run, and whether cancellation
  came during the backoff. \<open>None\<close> is a panic of the factory or of a stage, which ends the task where it stands.
\<close>

record cycle =
  cy_cancelled :: bool
  cy_build :: "(runtime_error + unit) option"
  cy_exit :: "pipeline_loop_exit option"
  cy_elapsed :: duration
  cy_cancelled_in_backoff :: bool

datatype task_end = StillRunning | Finished | Panicked

text \<open>The status and the event of a pipeline that starts to run, and those of a restart.\<close>

definition announce_running :: "compiled_pipeline \<Rightarrow> runtime_inner \<Rightarrow> runtime_inner" where
  "announce_running p h =
     send_event (BackendStarted (cpl_id p) (codec_path_debug (cpl_codec_path p))
         (backend_debug (cpl_resolved_backend p)))
       (publish_status (cpl_id p) Running None h)"

definition note_restart ::
  "compiled_pipeline \<Rightarrow> bool \<Rightarrow> u32 \<Rightarrow> str \<Rightarrow> runtime_inner \<Rightarrow> runtime_inner" where
  "note_restart p metrics n message h =
     (let pid = cpl_id p;
          h1 = publish_status pid Stalled (Some message) h;
          h2 = publish_status pid Recovering (Some (''restart attempt '' @ show_unsigned n)) h1
      in if metrics
         then h2\<lparr> restarts := restarts h2 @
                [(pid, recovery_class_debug (rec_class (cpl_recovery p)) @ '': '' @ message)] \<rparr>
         else h2)"

fun supervise_pipeline_task ::
  "compiled_pipeline \<Rightarrow> bool \<Rightarrow> u32 \<Rightarrow> cycle list \<Rightarrow> runtime_inner \<Rightarrow> task_end \<times> runtime_inner" where
  "supervise_pipeline_task p metrics attempts [] h = (StillRunning, h)"
| "supervise_pipeline_task p metrics attempts (c # cs) h =
     (if cy_cancelled c then (Finished, publish_status (cpl_id p) Stopped None h)
      else (case cy_build c of
          None \<Rightarrow> (Panicked, h)
        | Some (Inl error) \<Rightarrow>
            (Finished, publish_status (cpl_id p) Failed (Some (runtime_error_display error)) h)
        | Some (Inr _) \<Rightarrow>
            (let h1 = announce_running p h in
             case cy_exit c of
               None \<Rightarrow> (Panicked, h1)
             | Some ExitCancelled \<Rightarrow> (Finished, publish_status (cpl_id p) Stopped None h1)
             | Some ExitEndOfStream \<Rightarrow> (Finished, publish_status (cpl_id p) Stopped None h1)
             | Some (ExitFatal message) \<Rightarrow> (Finished, publish_status (cpl_id p) Failed (Some message) h1)
             | Some (ExitRecoverable message) \<Rightarrow>
                 (let attempts' =
                        (if cy_elapsed c \<ge> reset_after (cpl_recovery p) then 0 else attempts) in
                  if attempts' < max_restarts (cpl_recovery p)
                  then (let n = attempts' + 1; h2 = note_restart p metrics n message h1
                        in case backoff (cpl_recovery p) n of
                             None \<Rightarrow> (Panicked, h2)
                           | Some d \<Rightarrow>
                               if cy_cancelled_in_backoff c
                               then (Finished, publish_status (cpl_id p) Stopped None h2)
                               else supervise_pipeline_task p metrics n cs
                                      (h2\<lparr> sleeps := sleeps h2 @ [d] \<rparr>))
                  else (Finished, publish_status (cpl_id p) Failed (Some message) h1)))))"

section \<open>Starting and shutting down\<close>

definition initial_inner :: "compiled_graph \<Rightarrow> runtime_inner" where
  "initial_inner g =
     \<lparr> statuses = map_of (map (\<lambda>p. (cpl_id p, Spawning)) (cg_pipelines g)),
       events = [], restarts = [], sleeps = [] \<rparr>"

text \<open>The statuses that \<open>RuntimeEngine::start\<close> publishes: one per pipeline, in order. The tasks it
  spawns on the way may publish theirs in between: \<open>Caml_Engine\<close> interleaves them.\<close>

definition start :: "compiled_graph \<Rightarrow> runtime_inner" where
  "start g =
     foldl (\<lambda>h p. publish_status (cpl_id p) Spawning None h) (initial_inner g) (cg_pipelines g)"

definition status_of :: "runtime_inner \<Rightarrow> str \<Rightarrow> task_status option" where
  "status_of h pid = statuses h pid"

text \<open>
  \<open>shutdown\<close> awaits the tasks in order and reports the first that did not end properly; \<open>join_error\<close>
  is the text of tokio's error for a task that panicked.
\<close>

fun shutdown :: "(nat \<Rightarrow> str) \<Rightarrow> nat \<Rightarrow> task_end list \<Rightarrow> runtime_error + unit" where
  "shutdown join_error i [] = Inr ()"
| "shutdown join_error i (e # es) =
     (if e = Panicked then Inl (Join (join_error i)) else shutdown join_error (i + 1) es)"

end
