(* ===== verification/Caml_Runtime_Correct.thy ===== *)
theory Caml_Runtime_Correct
  imports Caml_Runtime
begin

text \<open>
  What the runtime guarantees: the pipeline loop delivers payloads in order and ends for a known
  cause, the supervisor follows its state machine, restarts a bounded number of times with an exact
  backoff and never panics for a compiled policy, and pipelines do not disturb each other's status.
\<close>


section \<open>The pipeline loop\<close>

lemma run_pipeline_loop_Some:
  "run_pipeline_loop p metrics ts = (Some e, effs) \<longleftrightarrow>
     (\<exists>before t after. ts = before @ t # after \<and>
        list_all (\<lambda>t. fst (loop_turn p metrics t) = None) before \<and>
        fst (loop_turn p metrics t) = Some e \<and>
        effs = concat (map (\<lambda>t. snd (loop_turn p metrics t)) (before @ [t])))"
  (is "_ \<longleftrightarrow> ?R ts effs")
proof (induction ts arbitrary: effs)
  case (Cons t ts)
  obtain r es where turn: "loop_turn p metrics t = (r, es)" by fastforce
  show ?case
  proof (cases r)
    case None
    have "run_pipeline_loop p metrics (t # ts) = (Some e, effs) \<longleftrightarrow>
        (\<exists>effs'. run_pipeline_loop p metrics ts = (Some e, effs') \<and> effs = es @ effs')"
      using turn None by (auto split: prod.splits)
    also have "\<dots> \<longleftrightarrow> (\<exists>effs'. ?R ts effs' \<and> effs = es @ effs')"
      using Cons by simp
    also have "\<dots> \<longleftrightarrow> ?R (t # ts) effs"
    proof
      assume "\<exists>effs'. ?R ts effs' \<and> effs = es @ effs'"
      then obtain before u after where "ts = before @ u # after"
        "list_all (\<lambda>t. fst (loop_turn p metrics t) = None) before" "fst (loop_turn p metrics u) = Some e"
        "effs = es @ concat (map (\<lambda>t. snd (loop_turn p metrics t)) (before @ [u]))" by blast
      with turn None show "?R (t # ts) effs"
        by (intro exI [of _ "t # before"] exI [of _ u] exI [of _ after]) simp
    next
      assume "?R (t # ts) effs"
      then obtain before u after where *: "t # ts = before @ u # after"
        "list_all (\<lambda>t. fst (loop_turn p metrics t) = None) before" "fst (loop_turn p metrics u) = Some e"
        "effs = concat (map (\<lambda>t. snd (loop_turn p metrics t)) (before @ [u]))" by blast
      from * turn None obtain before' where "before = t # before'" by (cases before) auto
      with * turn show "\<exists>effs'. ?R ts effs' \<and> effs = es @ effs'"
        by (intro exI [of _ "concat (map (\<lambda>t. snd (loop_turn p metrics t)) (before' @ [u]))"]) auto
    qed
    finally show ?thesis .
  next
    case (Some x)
    have "?R (t # ts) effs \<longleftrightarrow> x = e \<and> effs = es"
    proof
      assume "?R (t # ts) effs"
      then obtain before u after where *: "t # ts = before @ u # after"
        "list_all (\<lambda>t. fst (loop_turn p metrics t) = None) before" "fst (loop_turn p metrics u) = Some e"
        "effs = concat (map (\<lambda>t. snd (loop_turn p metrics t)) (before @ [u]))" by blast
      from * turn Some have "before = []" by (cases before) auto
      with * turn Some show "x = e \<and> effs = es" by simp
    next
      assume "x = e \<and> effs = es"
      with turn Some show "?R (t # ts) effs"
        by (intro exI [of _ "[]"] exI [of _ t] exI [of _ ts]) simp
    qed
    with turn Some show ?thesis by auto
  qed
qed simp

text \<open>What a turn hands to the sink, if it gets that far.\<close>

definition turn_output :: "tick \<Rightarrow> media_payload option" where
  "turn_output t =
     (case tk_select t of
        SourceNext (Inr payload) \<Rightarrow>
          if payload = EndOfStream then None
          else (case fst (apply_transforms 0 (tk_transforms t) payload) of
              Inl e \<Rightarrow> None | Inr out \<Rightarrow> Some out)
      | _ \<Rightarrow> None)"

definition delivered :: "effect list \<Rightarrow> media_payload list" where
  "delivered effs = List.map_filter (\<lambda>e. case e of Consumed x \<Rightarrow> Some x | _ \<Rightarrow> None) effs"

lemma delivered_simps [simp]:
  "delivered [] = []" "delivered (Consumed x # es) = x # delivered es"
  "delivered (Throughput a b # es) = delivered es" "delivered (StreamError a c # es) = delivered es"
  "delivered (Transformed i x # es) = delivered es"
  by (simp_all add: delivered_def List.map_filter_def)

lemma delivered_append [simp]: "delivered (es @ fs) = delivered es @ delivered fs"
  by (simp add: delivered_def List.map_filter_def)

lemma delivered_stream_error [simp]: "delivered (stream_error metrics pid error) = []"
  by (simp add: stream_error_def)

lemma apply_transforms_delivered [simp]: "delivered (snd (apply_transforms i ts x)) = []"
  by (induction i ts x rule: apply_transforms.induct) (auto split: sum.splits prod.splits)

lemma apply_transforms_delivered' [simp]: "apply_transforms i ts x = (r, es) \<Longrightarrow> delivered es = []"
  using apply_transforms_delivered [of i ts x] by simp

lemma loop_turn_delivered:
  "delivered (snd (loop_turn p metrics t)) = (case turn_output t of None \<Rightarrow> [] | Some x \<Rightarrow> [x])"
  by (auto simp: loop_turn_def turn_output_def Let_def
      split: select_outcome.splits sum.splits option.splits prod.splits)

lemma loop_turn_exit_output: "fst (loop_turn p metrics t) = None \<Longrightarrow> turn_output t \<noteq> None"
  by (auto simp: loop_turn_def turn_output_def Let_def
      split: select_outcome.splits sum.splits option.splits prod.splits if_splits)

text \<open>
  The loop ends with the first turn that must end it and with that turn's exit; until then
  every turn hands exactly one payload to the sink, the source's payload after all transforms, in
  the order of the source, and the turn that ends the loop hands over at most its own payload.
\<close>

theorem loop_delivers_in_order:
  assumes "run_pipeline_loop p metrics ts = (Some e, effs)"
  shows "\<exists>before t after. ts = before @ t # after \<and> fst (loop_turn p metrics t) = Some e \<and>
    map Some (delivered effs) = map turn_output before @ (if turn_output t = None then [] else [turn_output t])"
proof -
  from assms obtain before t after where t: "ts = before @ t # after"
    "list_all (\<lambda>t. fst (loop_turn p metrics t) = None) before" "fst (loop_turn p metrics t) = Some e"
    "effs = concat (map (\<lambda>t. snd (loop_turn p metrics t)) (before @ [t]))"
    unfolding run_pipeline_loop_Some by blast
  have "map Some (delivered (concat (map (\<lambda>t. snd (loop_turn p metrics t)) us))) = map turn_output us"
    if "list_all (\<lambda>t. fst (loop_turn p metrics t) = None) us" for us
    using that
    by (induction us) (auto simp: loop_turn_delivered dest!: loop_turn_exit_output)
  with t have "map Some (delivered effs) =
      map turn_output before @ (if turn_output t = None then [] else [turn_output t])"
    by (auto simp: loop_turn_delivered split: option.splits)
  with t show ?thesis by blast
qed

definition example_packet :: media_payload where
  "example_packet = EncodedPacket \<lparr> ep_codec = ''h264'', ep_timestamp = None, ep_duration = None,
     ep_is_keyframe = True, ep_data = Owned [1, 2] \<rparr>"

definition example_ticks :: "tick list" where
  "example_ticks =
     [\<lparr> tk_select = SourceNext (Inr example_packet), tk_data_len = Some 2, tk_transforms = [Inr],
        tk_sink = (\<lambda>_. Inr ()) \<rparr>,
      \<lparr> tk_select = SourceNext (Inr EndOfStream), tk_data_len = None, tk_transforms = [Inr],
        tk_sink = (\<lambda>_. Inr ()) \<rparr>]"

lemma example_loop:
  "run_pipeline_loop sentinel True example_ticks =
     (Some ExitEndOfStream, [Throughput ''__sentinel__'' 2, Transformed 0 example_packet, Consumed example_packet])"
  by (simp add: example_ticks_def loop_turn_def sentinel_def example_packet_def)

theorem loop_delivers_in_order_witness:
  "delivered (snd (run_pipeline_loop sentinel True example_ticks)) = [example_packet]"
proof -
  from loop_delivers_in_order [OF example_loop] show ?thesis by (simp add: example_loop)
qed

text \<open>
  The end of the stream never reaches a transform or the sink: the loop returns as soon as the
  source reports it, so a sink is never told to flush (unless a transform makes up such a payload).
\<close>

theorem end_of_stream_never_delivered:
  assumes "list_all (\<lambda>t. list_all (\<lambda>f. \<forall>x. f x \<noteq> Inr EndOfStream) (tk_transforms t)) ts"
  shows "EndOfStream \<notin> set (delivered (snd (run_pipeline_loop p metrics ts)))"
proof -
  have no: "fst (apply_transforms i fs x) \<noteq> Inr EndOfStream"
    if "list_all (\<lambda>f. \<forall>x. f x \<noteq> Inr EndOfStream) fs" "x \<noteq> EndOfStream" for i fs x
    using that
  proof (induction i fs x rule: apply_transforms.induct)
    case (2 i f fs x)
    show ?case
    proof (cases "f x")
      case (Inr y)
      with "2.prems" have "y \<noteq> EndOfStream" by auto
      with "2.IH" [OF Inr] "2.prems" Inr show ?thesis by (auto split: prod.splits)
    qed simp
  qed simp
  have turn: "EndOfStream \<notin> set (delivered (snd (loop_turn p metrics t)))"
    if "list_all (\<lambda>f. \<forall>x. f x \<noteq> Inr EndOfStream) (tk_transforms t)" for t
    using no [OF that] by (auto simp: loop_turn_delivered turn_output_def
        split: option.splits select_outcome.splits sum.splits if_splits)
  from assms show ?thesis
  proof (induction ts)
    case (Cons t ts)
    then have "EndOfStream \<notin> set (delivered (snd (loop_turn p metrics t)))" by (intro turn) simp
    with Cons show ?case by (auto split: prod.splits option.splits)
  qed simp
qed

theorem end_of_stream_never_delivered_witness:
  "EndOfStream \<notin> set (delivered (snd (run_pipeline_loop sentinel True
     [\<lparr> tk_select = SourceNext (Inr EndOfStream), tk_data_len = None, tk_transforms = [],
        tk_sink = (\<lambda>_. Inr ()) \<rparr>])))"
  by (rule end_of_stream_never_delivered) simp

text \<open>
  Why a turn ends the loop: only a cancellation gives the cancelled exit, only the source's end
  of stream gives that exit, and a failure is recoverable exactly if the watchdog elapsed or the
  error that the source, a transform or the sink reported is of the recoverable kind, with the
  error's text as the message.
\<close>

theorem loop_exit_cause:
  "fst (loop_turn p metrics t) = Some e \<longleftrightarrow>
     (case tk_select t of
        Cancelled \<Rightarrow> e = ExitCancelled
      | WatchdogElapsed \<Rightarrow> e = ExitRecoverable (watchdog_message (rt_watchdog_timeout (cpl_runtime p)))
      | SourceNext (Inr EndOfStream) \<Rightarrow> e = ExitEndOfStream
      | SourceNext r \<Rightarrow>
          (\<exists>error. e = (if is_recoverable error then ExitRecoverable (runtime_error_display error)
                        else ExitFatal (runtime_error_display error)) \<and>
             res_bind r (\<lambda>x. res_bind (fst (apply_transforms 0 (tk_transforms t) x)) (tk_sink t)) = Inl error))"
proof (cases "tk_select t")
  case (SourceNext r)
  show ?thesis
  proof (cases r)
    case (Inl error)
    with SourceNext show ?thesis
      by (auto simp: loop_turn_def pipeline_exit_from_error_def Let_def)
  next
    case (Inr x)
    obtain r' es where a: "apply_transforms 0 (tk_transforms t) x = (r', es)" by fastforce
    show ?thesis
    proof (cases "x = EndOfStream")
      case True
      with SourceNext Inr show ?thesis by (auto simp: loop_turn_def Let_def)
    next
      case False
      then have "(case r of Inl e \<Rightarrow> P | Inr EndOfStream \<Rightarrow> Q | Inr y \<Rightarrow> P) = P" for P Q :: bool
        by (cases x) (simp_all add: Inr)
      with False SourceNext Inr a show ?thesis
        by (cases x; cases r'; cases "tk_sink t (projr r')")
          (auto simp: loop_turn_def pipeline_exit_from_error_def Let_def)
    qed
  qed
qed (auto simp: loop_turn_def)

section \<open>The supervisor's state machine\<close>

inductive may_follow :: "task_status \<Rightarrow> task_status \<Rightarrow> bool" where
  Run: "s \<in> {Spawning, Recovering} \<Longrightarrow> may_follow s Running"
| Stop: "s \<in> {Spawning, Recovering, Running} \<Longrightarrow> may_follow s Stopped"
| Fail: "s \<in> {Spawning, Recovering, Running} \<Longrightarrow> may_follow s Failed"
| Stall: "may_follow Running Stalled"
| Recover: "may_follow Stalled Recovering"

inductive_simps may_follow_simps [simp]:
  "may_follow s Running" "may_follow s Stopped" "may_follow s Failed" "may_follow s Stalled"
  "may_follow s Recovering" "may_follow s Spawning"

fun status_path :: "task_status \<Rightarrow> task_status list \<Rightarrow> bool" where
  "status_path s [] = True"
| "status_path s (t # ts) = (may_follow s t \<and> status_path t ts)"

fun status_in :: "runtime_event \<Rightarrow> task_status option" where
  "status_in (StatusChanged pid status message) = Some status"
| "status_in (BackendStarted pid codec_path backend) = None"

definition statuses_in :: "runtime_event list \<Rightarrow> task_status list" where
  "statuses_in es = List.map_filter status_in es"

lemma statuses_in_simps [simp]:
  "statuses_in [] = []" "statuses_in (StatusChanged pid s m # es) = s # statuses_in es"
  "statuses_in (BackendStarted pid c b # es) = statuses_in es"
  by (simp_all add: statuses_in_def List.map_filter_def)

lemma publish_simps [simp]:
  "events (publish_status pid s m h) = events h @ [StatusChanged pid s m]"
  "statuses (publish_status pid s m h) = (statuses h)(pid \<mapsto> s)"
  "restarts (publish_status pid s m h) = restarts h" "sleeps (publish_status pid s m h) = sleeps h"
  by (simp_all add: publish_status_def send_event_def)

lemma send_simps [simp]:
  "events (send_event e h) = events h @ [e]" "statuses (send_event e h) = statuses h"
  "restarts (send_event e h) = restarts h" "sleeps (send_event e h) = sleeps h"
  by (simp_all add: send_event_def)

text \<open>What one run of the supervisor adds to the events and the status of its pipeline.\<close>

definition run_ok :: "task_status \<Rightarrow> str \<Rightarrow> runtime_inner \<Rightarrow> task_end \<Rightarrow> runtime_inner \<Rightarrow> bool" where
  "run_ok s pid h e h' \<longleftrightarrow>
     (\<exists>es. events h' = events h @ es \<and> status_path s (statuses_in es) \<and>
        statuses h' pid = Some (last (s # statuses_in es)) \<and>
        (e = Finished \<longleftrightarrow> last (s # statuses_in es) \<in> {Stopped, Failed}) \<and>
        (e \<noteq> Finished \<longrightarrow> last (s # statuses_in es) \<in> {s, Running, Recovering}))"

lemma run_okI:
  "events h' = events h @ es \<Longrightarrow> status_path s (statuses_in es) \<Longrightarrow>
     statuses h' pid = Some (last (s # statuses_in es)) \<Longrightarrow>
     (e = Finished \<longleftrightarrow> last (s # statuses_in es) \<in> {Stopped, Failed}) \<Longrightarrow>
     (e \<noteq> Finished \<longrightarrow> last (s # statuses_in es) \<in> {s, Running, Recovering}) \<Longrightarrow> run_ok s pid h e h'"
  unfolding run_ok_def by blast

lemma status_path_append:
  "status_path s (ts @ us) \<longleftrightarrow> status_path s ts \<and> status_path (last (s # ts)) us"
  by (induction ts arbitrary: s) auto

lemma statuses_in_append [simp]: "statuses_in (es @ fs) = statuses_in es @ statuses_in fs"
  by (simp add: statuses_in_def List.map_filter_def)

lemma run_ok_extend:
  assumes "run_ok Recovering pid h1 e h'" "events h1 = events h @ es"
    "status_path s (statuses_in es)" "last (s # statuses_in es) = Recovering"
  shows "run_ok s pid h e h'"
proof -
  from assms(1) obtain fs where fs: "events h' = events h1 @ fs"
    "status_path Recovering (statuses_in fs)"
    "statuses h' pid = Some (last (Recovering # statuses_in fs))"
    "e = Finished \<longleftrightarrow> last (Recovering # statuses_in fs) \<in> {Stopped, Failed}"
    "e \<noteq> Finished \<longrightarrow> last (Recovering # statuses_in fs) \<in> {Running, Recovering}"
    unfolding run_ok_def by auto
  have "last (s # statuses_in (es @ fs)) = last (Recovering # statuses_in fs)"
    using assms(4) by (auto simp: last_append split: if_splits)
  with fs assms(2-4) show ?thesis
    by (intro run_okI [where es = "es @ fs"]) (simp_all add: status_path_append)
qed

definition running_events :: "compiled_pipeline \<Rightarrow> runtime_event list" where
  "running_events p = [StatusChanged (cpl_id p) Running None,
     BackendStarted (cpl_id p) (codec_path_debug (cpl_codec_path p)) (backend_debug (cpl_resolved_backend p))]"

lemma announce_simps [simp]:
  "events (announce_running p h) = events h @ running_events p"
  "statuses (announce_running p h) = (statuses h)(cpl_id p \<mapsto> Running)"
  "restarts (announce_running p h) = restarts h" "sleeps (announce_running p h) = sleeps h"
  by (simp_all add: announce_running_def running_events_def)

lemma statuses_in_running [simp]: "statuses_in (running_events p) = [Running]"
  by (simp add: running_events_def)

definition restart_events :: "compiled_pipeline \<Rightarrow> u32 \<Rightarrow> str \<Rightarrow> runtime_event list" where
  "restart_events p n message = [StatusChanged (cpl_id p) Stalled (Some message),
     StatusChanged (cpl_id p) Recovering (Some (''restart attempt '' @ show_unsigned n))]"

lemma note_restart_simps [simp]:
  "events (note_restart p metrics n message h) = events h @ restart_events p n message"
  "statuses (note_restart p metrics n message h) = (statuses h)(cpl_id p \<mapsto> Recovering)"
  "sleeps (note_restart p metrics n message h) = sleeps h"
  by (simp_all add: note_restart_def restart_events_def Let_def)

lemma statuses_in_restart [simp]: "statuses_in (restart_events p n message) = [Stalled, Recovering]"
  by (simp add: restart_events_def)

text \<open>The attempts a turn counts, after the reset for a long enough run.\<close>

definition counted :: "compiled_pipeline \<Rightarrow> cycle \<Rightarrow> u32 \<Rightarrow> u32" where
  "counted p c attempts = (if cy_elapsed c \<ge> reset_after (cpl_recovery p) then 0 else attempts)"

text \<open>The turns that end the task at once.\<close>

lemma supervise_stop:
  assumes "cy_cancelled c \<or> cy_build c = Some (Inr ()) \<and> cy_exit c \<in> {Some ExitCancelled, Some ExitEndOfStream}"
  shows "supervise_pipeline_task p metrics attempts (c # cs) h =
      (Finished, publish_status (cpl_id p) Stopped None h) \<or>
    supervise_pipeline_task p metrics attempts (c # cs) h =
      (Finished, publish_status (cpl_id p) Stopped None (announce_running p h))"
  using assms by (auto simp: Let_def)

lemma supervise_fail:
  assumes "\<not> cy_cancelled c" "cy_build c \<noteq> None"
    and "(\<exists>error. cy_build c = Some (Inl error)) \<or> (\<exists>message. cy_exit c = Some (ExitFatal message)) \<or>
      (\<exists>message. cy_exit c = Some (ExitRecoverable message) \<and> \<not> counted p c attempts < max_restarts (cpl_recovery p))"
  shows "\<exists>m. supervise_pipeline_task p metrics attempts (c # cs) h =
      (Finished, publish_status (cpl_id p) Failed (Some m) h) \<or>
    supervise_pipeline_task p metrics attempts (c # cs) h =
      (Finished, publish_status (cpl_id p) Failed (Some m) (announce_running p h))"
  using assms by (auto simp: Let_def counted_def split: if_splits option.splits sum.splits)

text \<open>A turn in which the factory or a stage panics.\<close>

definition cycle_panics :: "cycle \<Rightarrow> bool" where
  "cycle_panics c \<longleftrightarrow> \<not> cy_cancelled c \<and> (cy_build c = None \<or> cy_build c = Some (Inr ()) \<and> cy_exit c = None)"

lemma supervise_panic:
  assumes "cycle_panics c"
  shows "\<exists>f \<in> {id, announce_running p}.
    \<forall>metrics h. supervise_pipeline_task p metrics attempts (c # cs) h = (Panicked, f h)"
  using assms by (auto simp: cycle_panics_def)

lemma supervise_restart:
  assumes "\<not> cy_cancelled c" "cy_build c = Some (Inr u)" "cy_exit c = Some (ExitRecoverable message)"
    and "counted p c attempts < max_restarts (cpl_recovery p)"
  shows "supervise_pipeline_task p metrics attempts (c # cs) h =
    (let n = counted p c attempts + 1; h2 = note_restart p metrics n message (announce_running p h) in
     case backoff (cpl_recovery p) n of
       None \<Rightarrow> (Panicked, h2)
     | Some d \<Rightarrow>
         if cy_cancelled_in_backoff c then (Finished, publish_status (cpl_id p) Stopped None h2)
         else supervise_pipeline_task p metrics n cs (h2\<lparr> sleeps := sleeps h2 @ [d] \<rparr>))"
  using assms by (simp add: counted_def)

lemma turn_without_panic:
  assumes "\<not> (cy_cancelled c \<or> cycle_panics c)"
  obtains (refused) error where "cy_build c = Some (Inl error)"
  | (ran) x where "cy_build c = Some (Inr ())" "cy_exit c = Some x"
proof (cases "cy_build c")
  case (Some r)
  with assms that show ?thesis by (cases r; cases "cy_exit c") (auto simp: cycle_panics_def)
qed (use assms in \<open>simp add: cycle_panics_def\<close>)

text \<open>Every turn is one of these four kinds.\<close>

lemma turn_kind:
  obtains (stop) "cy_cancelled c \<or> cy_build c = Some (Inr ()) \<and> cy_exit c \<in> {Some ExitCancelled, Some ExitEndOfStream}"
  | (panic) "cycle_panics c"
  | (fail) "\<not> cy_cancelled c" "cy_build c \<noteq> None"
      "(\<exists>error. cy_build c = Some (Inl error)) \<or> (\<exists>message. cy_exit c = Some (ExitFatal message)) \<or>
       (\<exists>message. cy_exit c = Some (ExitRecoverable message) \<and> \<not> counted p c attempts < max_restarts (cpl_recovery p))"
  | (restart) message where "\<not> cy_cancelled c" "cy_build c = Some (Inr ())" "cy_exit c = Some (ExitRecoverable message)"
      "counted p c attempts < max_restarts (cpl_recovery p)"
proof (cases "cy_cancelled c \<or> cycle_panics c")
  case False
  then show ?thesis
  proof (cases rule: turn_without_panic)
    case (ran x)
    with False stop fail restart show ?thesis by (cases x) auto
  qed (use False fail in auto)
qed (use stop panic in auto)

text \<open>A turn that ends the task does so in the same way for every handle, with metrics or without.\<close>

lemma supervise_turn:
  obtains (ends) s m f where "f \<in> {id, announce_running p}"
      "\<And>metrics h. supervise_pipeline_task p metrics attempts (c # cs) h =
         (Finished, publish_status (cpl_id p) s m (f h))"
  | (panics) f where "f \<in> {id, announce_running p}" "cycle_panics c"
      "\<And>metrics h. supervise_pipeline_task p metrics attempts (c # cs) h = (Panicked, f h)"
  | (restart) message where "\<not> cy_cancelled c" "cy_build c = Some (Inr ())" "cy_exit c = Some (ExitRecoverable message)"
      "counted p c attempts < max_restarts (cpl_recovery p)"
proof (cases "cy_cancelled c \<or> cycle_panics c")
  case True
  show ?thesis
  proof (cases "cycle_panics c")
    case True
    from supervise_panic [OF this, of p attempts cs] panics [OF _ this] show ?thesis by blast
  next
    case False
    with \<open>cy_cancelled c \<or> cycle_panics c\<close> show ?thesis by (intro ends [of id Stopped None]) simp_all
  qed
next
  case nc: False
  then show ?thesis
  proof (cases rule: turn_without_panic)
    case (refused error)
    with nc show ?thesis by (intro ends [of id Failed "Some (runtime_error_display error)"]) simp_all
  next
    case Inr: (ran x)
    show ?thesis
    proof (cases x)
      case (ExitRecoverable message)
      with nc Inr restart show ?thesis
        by (cases "counted p c attempts < max_restarts (cpl_recovery p)")
          (auto intro: ends [of "announce_running p" Failed "Some message"] simp: counted_def)
    next
      case (ExitFatal message)
      with nc Inr show ?thesis by (intro ends [of "announce_running p" Failed "Some message"]) simp_all
    qed (use nc Inr in \<open>intro ends [of "announce_running p" Stopped None]; simp\<close>)+
  qed
qed

lemma supervise_run_ok:
  assumes "s \<in> {Spawning, Recovering}" "statuses h (cpl_id p) = Some s"
    and "supervise_pipeline_task p metrics attempts cs h = (e, h')"
  shows "run_ok s (cpl_id p) h e h'"
  using assms
proof (induction cs arbitrary: attempts h s)
  case Nil
  then show ?case by (intro run_okI [where es = "[]"]) auto
next
  case (Cons c cs)
  show ?case
  proof (cases rule: turn_kind [where c = c and p = p and attempts = attempts])
    case stop
    from supervise_stop [OF this, of p metrics attempts cs h] Cons.prems(3) obtain h1 where
      h': "e = Finished" "h' = publish_status (cpl_id p) Stopped None h1" "h1 = h \<or> h1 = announce_running p h"
      by auto
    from h'(3) show ?thesis
    proof
      assume "h1 = h"
      with h' Cons.prems(1) show ?thesis
        by (intro run_okI [where es = "[StatusChanged (cpl_id p) Stopped None]"]) auto
    next
      assume "h1 = announce_running p h"
      with h' Cons.prems(1) show ?thesis
        by (intro run_okI [where es = "running_events p @ [StatusChanged (cpl_id p) Stopped None]"]) auto
    qed
  next
    case panic
    from supervise_panic [OF this, of p attempts cs] Cons.prems(3)
    have "e = Panicked" "h' = h \<or> h' = announce_running p h" by (metis id_apply insertE prod.inject singletonD)+
    from this(2) show ?thesis
    proof
      assume "h' = h"
      with Cons.prems(1,2) \<open>e = Panicked\<close> show ?thesis by (intro run_okI [where es = "[]"]) auto
    next
      assume "h' = announce_running p h"
      with Cons.prems(1) \<open>e = Panicked\<close> show ?thesis by (intro run_okI [where es = "running_events p"]) auto
    qed
  next
    case fail
    from supervise_fail [OF this, of metrics cs h] Cons.prems(3) obtain h1 m where
      h': "e = Finished" "h' = publish_status (cpl_id p) Failed (Some m) h1" "h1 = h \<or> h1 = announce_running p h"
      by auto
    from h'(3) show ?thesis
    proof
      assume "h1 = h"
      with h' Cons.prems(1) show ?thesis
        by (intro run_okI [where es = "[StatusChanged (cpl_id p) Failed (Some m)]"]) auto
    next
      assume "h1 = announce_running p h"
      with h' Cons.prems(1) show ?thesis
        by (intro run_okI [where es = "running_events p @ [StatusChanged (cpl_id p) Failed (Some m)]"]) auto
    qed
  next
    case (restart message)
    define n where "n = counted p c attempts + 1"
    define h2 where "h2 = note_restart p metrics n message (announce_running p h)"
    let ?es = "running_events p @ restart_events p n message"
    have h2: "events h2 = events h @ ?es" "statuses h2 (cpl_id p) = Some Recovering"
      by (simp_all add: h2_def)
    have path: "status_path s (statuses_in ?es)" "last (s # statuses_in ?es) = Recovering"
      using Cons.prems(1) by auto
    note sup = supervise_restart [OF restart, of metrics cs h, folded n_def, unfolded Let_def, folded h2_def]
    show ?thesis
    proof (cases "backoff (cpl_recovery p) n")
      case None
      with sup Cons.prems(3) have "e = Panicked" "h' = h2" by simp_all
      with h2 path show ?thesis by (intro run_okI [where es = ?es]) auto
    next
      case (Some d)
      show ?thesis
      proof (cases "cy_cancelled_in_backoff c")
        case True
        with sup Some Cons.prems(3) have "e = Finished" "h' = publish_status (cpl_id p) Stopped None h2"
          by simp_all
        with h2 path show ?thesis
          by (intro run_okI [where es = "?es @ [StatusChanged (cpl_id p) Stopped None]"])
            (auto simp: status_path_append)
      next
        case False
        let ?h3 = "h2\<lparr> sleeps := sleeps h2 @ [d] \<rparr>"
        have "supervise_pipeline_task p metrics n cs ?h3 = (e, h')"
          using sup Some False Cons.prems(3) by simp
        moreover have "statuses ?h3 (cpl_id p) = Some Recovering" using h2(2) by simp
        ultimately have "run_ok Recovering (cpl_id p) ?h3 e h'"
          by (intro Cons.IH [where attempts = n]) auto
        then show ?thesis
          by (rule run_ok_extend [where es = ?es]) (use h2 path in auto)
      qed
    qed
  qed
qed

section \<open>Backoff\<close>

lemma sint_pred:
  fixes n :: u32
  assumes "1 \<le> unat n" "unat n < 2 ^ 31"
  shows "sint (n - 1) = int (unat n - 1)"
proof -
  define m where "m = n - 1"
  have u: "unat m = unat n - 1"
    unfolding m_def using assms(1) by (intro unat_minus_one) auto
  then have b: "unat m < 2 ^ 31" using assms by simp
  have "int k < 2 ^ 31" if "k < 2 ^ 31" for k :: nat using that by simp
  from this [OF b] have lt: "int (unat m) < 2 ^ 31" .
  have "signed_take_bit 31 (int (unat m)) = int (unat m)"
    by (rule signed_take_bit_int_eq_self) (use lt in linarith)+
  moreover have "sint m = signed_take_bit 31 (uint m)" by (simp add: sint_uint)
  moreover have "uint m = int (unat m)" by (rule uint_nat)
  ultimately have "sint m = int (unat m)" by metis
  with u show ?thesis by (simp add: m_def)
qed

lemma policy_mul:
  assumes "k \<le> 119"
  shows "mul_f32 (initial_backoff (recovery_policy_of cls)) (2 ^ k) =
    (if initial_backoff (recovery_policy_of cls) * 2 ^ k < 2 ^ 64 * 1000000000
     then Some (initial_backoff (recovery_policy_of cls) * 2 ^ k) else None)"
proof -
  have w1: "as_secs_f32 1000000000 = Some (2 powi 0)" using as_secs_whole [of 0] by simp
  have w2: "as_secs_f32 2000000000 = Some (2 powi 1)" using as_secs_whole [of 1] by simp
  show ?thesis
  proof (cases cls)
    case RecoverNetwork
    show ?thesis
      using mul_f32_pow [OF as_secs_quarter, of k] assms RecoverNetwork
      by (simp add: from_millis_def power_int_minus)
  next
    case RecoverDevice
    show ?thesis
      using mul_f32_pow [OF w1, of k] assms RecoverDevice by (simp add: from_secs_def)
  next
    case RecoverHardware
    show ?thesis
      using mul_f32_pow [OF w2, of k] assms RecoverHardware by (simp add: from_secs_def)
  qed
qed

lemma policy_backoff:
  assumes "1 \<le> unat n" "unat n \<le> 120"
  shows "backoff (recovery_policy_of cls) n =
    (let wait = initial_backoff (recovery_policy_of cls) * 2 ^ (unat n - 1) in
     if wait < 2 ^ 64 * 1000000000 then Some (min wait (max_backoff (recovery_policy_of cls))) else None)"
proof -
  have e: "sint (n - 1) = int (unat n - 1)" using assms by (intro sint_pred) simp_all
  have f: "f32_powi 2 (int (unat n - 1)) = Some (2 ^ (unat n - 1))"
    using assms by (intro f32_powi_2) simp
  have m: "mul_f32 (initial_backoff (recovery_policy_of cls)) (2 ^ (unat n - 1)) =
      (if initial_backoff (recovery_policy_of cls) * 2 ^ (unat n - 1) < 2 ^ 64 * 1000000000
       then Some (initial_backoff (recovery_policy_of cls) * 2 ^ (unat n - 1)) else None)"
    using assms(2) by (intro policy_mul) simp
  have "backoff_multiplier (recovery_policy_of cls) = 2" by (cases cls) simp_all
  then show ?thesis
    unfolding backoff_def by (simp only: e f bind.bind_lunit) (simp only: m Let_def option.map split: if_split, simp)
qed

text \<open>
  The wait before restart \<open>n\<close> of a compiled policy doubles from the initial backoff and is
  capped at the largest one, computed without rounding although the code multiplies in single
  precision; but the product is formed before it is capped, so for a policy whose number of
  restarts was raised by hand the task panics as soon as it exceeds the range of a duration.
\<close>

theorem compiled_backoff_exact:
  assumes "1 \<le> unat n" "unat n \<le> 120"
  shows "backoff (recovery_policy_of cls) n =
    (let wait = initial_backoff (recovery_policy_of cls) * 2 ^ (unat n - 1) in
     if wait < 2 ^ 64 * 1000000000 then Some (min wait (max_backoff (recovery_policy_of cls))) else None)"
  using assms by (rule policy_backoff)

theorem compiled_backoff_exact_witness:
  "backoff (recovery_policy_of RecoverNetwork) 6 = Some 5000000000 \<and>
   backoff (recovery_policy_of RecoverNetwork) 100 = None"
  using compiled_backoff_exact [of 6 RecoverNetwork] compiled_backoff_exact [of 100 RecoverNetwork]
  by (simp add: from_millis_def from_secs_def)

section \<open>The restarts of a compiled pipeline\<close>

definition wait :: "recovery_policy \<Rightarrow> nat \<Rightarrow> duration" where
  "wait r i = min (initial_backoff r * 2 ^ i) (max_backoff r)"

abbreviation restart_limit :: "compiled_pipeline \<Rightarrow> nat" where
  "restart_limit p \<equiv> unat (max_restarts (cpl_recovery p))"

lemma compiled_wait:
  assumes "1 \<le> unat n" "unat n \<le> unat (max_restarts (recovery_policy_of cls))"
  shows "backoff (recovery_policy_of cls) n = Some (wait (recovery_policy_of cls) (unat n - 1))"
proof -
  have "unat n \<le> 5" using assms(2) by (cases cls) simp_all
  then have "(2 :: nat) ^ (unat n - 1) \<le> 2 ^ 4" by (intro power_increasing) simp_all
  moreover have "initial_backoff (recovery_policy_of cls) \<le> 2000000000"
    by (cases cls) (simp_all add: from_millis_def from_secs_def)
  ultimately have "initial_backoff (recovery_policy_of cls) * 2 ^ (unat n - 1) \<le> 2000000000 * 2 ^ 4"
    by (intro mult_mono) simp_all
  then have "initial_backoff (recovery_policy_of cls) * 2 ^ (unat n - 1) < 2 ^ 64 * 1000000000"
    by (rule le_less_trans) simp
  with policy_backoff [OF assms(1), of cls] \<open>unat n \<le> 5\<close> show ?thesis
    by (simp add: wait_def Let_def)
qed

text \<open>The next attempt's number, as a natural number.\<close>

lemma unat_next:
  assumes "counted p c attempts < max_restarts (cpl_recovery p)"
  shows "unat (counted p c attempts + 1) = Suc (unat (counted p c attempts))"
    and "Suc (unat (counted p c attempts)) \<le> restart_limit p"
proof -
  from assms have lt: "unat (counted p c attempts) < restart_limit p" by (simp add: word_less_nat_alt)
  have "restart_limit p < 2 ^ 32"
    using unsigned_less [of "max_restarts (cpl_recovery p)", where ?'a = nat] by simp
  with lt have "Suc (unat (counted p c attempts)) < 2 ^ 32" by linarith
  then show "unat (counted p c attempts + 1) = Suc (unat (counted p c attempts))"
    by (simp add: unat_word_ariths)
  from lt show "Suc (unat (counted p c attempts)) \<le> restart_limit p" by simp
qed

lemma unat_counted:
  "unat (counted p c attempts) = (if cy_elapsed c \<ge> reset_after (cpl_recovery p) then 0 else unat attempts)"
  by (simp add: counted_def)

text \<open>The numbers of the waits: each is one more than the one before, or starts again at 0.\<close>

fun wait_chain :: "nat \<Rightarrow> nat list \<Rightarrow> bool" where
  "wait_chain k [] = True"
| "wait_chain k (i # is) = (i \<in> {k, 0} \<and> wait_chain (Suc i) is)"

lemma supervise_compiled:
  assumes "cpl_recovery p = recovery_policy_of cls" "unat attempts \<le> restart_limit p"
    and "supervise_pipeline_task p metrics attempts cs h = (e, h')"
  shows "(e = Panicked \<longrightarrow> list_ex cycle_panics cs) \<and> (\<exists>is. sleeps h' = sleeps h @ map (wait (cpl_recovery p)) is \<and>
    wait_chain (unat attempts) is \<and> (\<forall>i \<in> set is. i < restart_limit p))"
  using assms(2,3)
proof (induction cs arbitrary: attempts h)
  case Nil
  then show ?case by (intro conjI exI [of _ "[]"]) auto
next
  case (Cons c cs)
  show ?case
  proof (cases rule: turn_kind [where c = c and p = p and attempts = attempts])
    case stop
    from supervise_stop [OF this, of p metrics attempts cs h] Cons.prems(2)
    show ?thesis by (intro conjI exI [of _ "[]"]) auto
  next
    case panic
    from supervise_panic [OF this, of p attempts cs] Cons.prems(2)
    have "h' = h \<or> h' = announce_running p h" by (metis id_apply insertE prod.inject singletonD)
    with panic show ?thesis by (intro conjI exI [of _ "[]"]) auto
  next
    case fail
    from supervise_fail [OF this, of metrics cs h] Cons.prems(2)
    show ?thesis by (intro conjI exI [of _ "[]"]) auto
  next
    case (restart message)
    let ?i = "unat (counted p c attempts)"
    define n where "n = counted p c attempts + 1"
    define h2 where "h2 = note_restart p metrics n message (announce_running p h)"
    have n: "unat n = Suc ?i" "Suc ?i \<le> restart_limit p"
      using unat_next [OF restart(4)] by (simp_all add: n_def)
    then have b: "backoff (cpl_recovery p) n = Some (wait (cpl_recovery p) ?i)"
      using compiled_wait [of n cls] assms(1) by simp
    have h2: "sleeps h2 = sleeps h" by (simp add: h2_def)
    have i: "?i \<in> {unat attempts, 0}" by (simp add: unat_counted)
    note sup = supervise_restart [OF restart, of metrics cs h, folded n_def, unfolded Let_def, folded h2_def]
    show ?thesis
    proof (cases "cy_cancelled_in_backoff c")
      case True
      with sup b Cons.prems(2) h2 show ?thesis by (intro conjI exI [of _ "[]"]) auto
    next
      case False
      define h3 where "h3 = h2\<lparr> sleeps := sleeps h2 @ [wait (cpl_recovery p) ?i] \<rparr>"
      have "supervise_pipeline_task p metrics n cs h3 = (e, h')"
        using sup b False Cons.prems(2) by (simp add: h3_def)
      from Cons.IH [OF _ this] n obtain "is" where "e = Panicked \<longrightarrow> list_ex cycle_panics cs"
        "sleeps h' = sleeps h3 @ map (wait (cpl_recovery p)) is" "wait_chain (Suc ?i) is"
        "\<forall>i \<in> set is. i < restart_limit p" by auto
      with n i h2 show ?thesis by (intro conjI exI [of _ "?i # is"]) (auto simp: h3_def)
    qed
  qed
qed

text \<open>
  The supervisor of a compiled pipeline never panics itself, but only when a factory or a stage that it
  runs does, although the backoff is computed with operations that can; it waits only for backoffs of its policy, each
  the successor of the one before or, after a long enough run, the first again.
\<close>

theorem compiled_supervisor_never_panics:
  assumes "cpl_recovery p = recovery_policy_of cls"
  shows "(fst (supervise_pipeline_task p metrics 0 cs h) = Panicked \<longrightarrow> list_ex cycle_panics cs) \<and>
    (\<exists>is. sleeps (snd (supervise_pipeline_task p metrics 0 cs h)) = sleeps h @ map (wait (cpl_recovery p)) is \<and>
       wait_chain 0 is \<and> (\<forall>i \<in> set is. i < restart_limit p))"
proof -
  obtain e h' where r: "supervise_pipeline_task p metrics 0 cs h = (e, h')" by fastforce
  from supervise_compiled [OF assms _ r] show ?thesis by (simp add: r)
qed

text \<open>Example runs: a media device that fails and comes back.\<close>

definition example_pipeline :: compiled_pipeline where
  "example_pipeline = sentinel\<lparr> cpl_recovery := recovery_policy_of RecoverNetwork \<rparr>"

definition failing_cycle :: cycle where
  "failing_cycle = \<lparr> cy_cancelled = False, cy_build = Some (Inr ()), cy_exit = Some (ExitRecoverable ''lost''),
     cy_elapsed = 0, cy_cancelled_in_backoff = False \<rparr>"

abbreviation example_inner :: runtime_inner where
  "example_inner \<equiv> \<lparr> statuses = [''__sentinel__'' \<mapsto> Spawning], events = [], restarts = [], sleeps = [] \<rparr>"

theorem compiled_supervisor_never_panics_witness:
  "fst (supervise_pipeline_task example_pipeline False 0 [failing_cycle] example_inner) \<noteq> Panicked"
  using compiled_supervisor_never_panics
    [of example_pipeline RecoverNetwork False "[failing_cycle]" example_inner]
  by (auto simp: example_pipeline_def failing_cycle_def cycle_panics_def)

lemma supervise_bounded:
  assumes "list_all (\<lambda>c. cy_elapsed c < reset_after (cpl_recovery p)) cs"
    and "unat attempts \<le> restart_limit p" "restart_limit p < unat attempts + length cs"
  shows "fst (supervise_pipeline_task p metrics attempts cs h) \<noteq> StillRunning"
  using assms
proof (induction cs arbitrary: attempts h)
  case (Cons c cs)
  show ?case
  proof (cases rule: turn_kind [where c = c and p = p and attempts = attempts])
    case stop
    from supervise_stop [OF this, of p metrics attempts cs h] show ?thesis
      by (auto simp del: supervise_pipeline_task.simps)
  next
    case panic
    obtain f where "supervise_pipeline_task p metrics attempts (c # cs) h = (Panicked, f h)"
      using supervise_panic [OF panic, of p attempts cs] by blast
    then show ?thesis by (simp del: supervise_pipeline_task.simps)
  next
    case fail
    from supervise_fail [OF this, of metrics cs h] show ?thesis
      by (auto simp del: supervise_pipeline_task.simps)
  next
    case (restart message)
    have "counted p c attempts = attempts" using Cons.prems(1) by (simp add: counted_def)
    then have n: "unat (counted p c attempts + 1) = Suc (unat attempts)" "Suc (unat attempts) \<le> restart_limit p"
      using unat_next [OF restart(4)] by simp_all
    define n where "n = counted p c attempts + 1"
    have "fst (supervise_pipeline_task p metrics n cs h3) \<noteq> StillRunning" for h3
      using Cons.prems n by (intro Cons.IH) (simp_all add: n_def)
    with supervise_restart [OF restart, of metrics cs h, folded n_def] show ?thesis
      by (simp add: Let_def split: option.split)
  qed
qed simp

text \<open>
  C32: a pipeline whose runs are all shorter than the reset interval is not restarted for ever: for
  any policy, after one run more than its number of restarts the task has ended.
\<close>

theorem supervisor_terminates:
  assumes "list_all (\<lambda>c. cy_elapsed c < reset_after (cpl_recovery p)) cs" "restart_limit p < length cs"
  shows "fst (supervise_pipeline_task p metrics 0 cs h) \<in> {Finished, Panicked}"
proof -
  have "fst (supervise_pipeline_task p metrics 0 cs h) \<noteq> StillRunning"
    using assms by (intro supervise_bounded) simp_all
  then show ?thesis by (cases "fst (supervise_pipeline_task p metrics 0 cs h)") simp_all
qed

lemma example_pipeline_simps [simp]:
  "cpl_recovery example_pipeline = recovery_policy_of RecoverNetwork" "cpl_id example_pipeline = ''__sentinel__''"
  by (simp_all add: example_pipeline_def sentinel_def)

lemma failing_cycles: "replicate n failing_cycle = cs \<Longrightarrow>
  list_all (\<lambda>c. \<not> cy_cancelled c \<and> cy_build c = Some (Inr ()) \<and> \<not> cy_cancelled_in_backoff c \<and>
     cy_exit c = Some (ExitRecoverable ''lost'') \<and> cy_elapsed c < reset_after (cpl_recovery example_pipeline)) cs"
  by (auto simp: list_all_iff failing_cycle_def from_secs_def)

theorem supervisor_terminates_witness:
  "fst (supervise_pipeline_task example_pipeline False 0 (replicate 6 failing_cycle) example_inner)
     \<in> {Finished, Panicked}"
  by (rule supervisor_terminates) (simp_all add: failing_cycle_def from_secs_def list_all_iff)

text \<open>A device that keeps failing: the exact run.\<close>

lemma supervise_failing:
  assumes "cpl_recovery p = recovery_policy_of cls"
    and "list_all (\<lambda>c. \<not> cy_cancelled c \<and> cy_build c = Some (Inr ()) \<and> \<not> cy_cancelled_in_backoff c \<and>
      cy_exit c = Some (ExitRecoverable message) \<and> cy_elapsed c < reset_after (cpl_recovery p)) cs"
    and "unat attempts \<le> restart_limit p"
    and "supervise_pipeline_task p metrics attempts cs h = (e, h')"
  shows "sleeps h' = sleeps h @ map (wait (cpl_recovery p))
           [unat attempts..<min (restart_limit p) (unat attempts + length cs)] \<and>
         (if unat attempts + length cs \<le> restart_limit p then e = StillRunning
          else e = Finished \<and> statuses h' (cpl_id p) = Some Failed \<and>
               last (events h') = StatusChanged (cpl_id p) Failed (Some message))"
  using assms(2-)
proof (induction cs arbitrary: attempts h)
  case (Cons c cs)
  have same: "counted p c attempts = attempts" using Cons.prems(1) by (simp add: counted_def)
  have c: "\<not> cy_cancelled c" "cy_build c = Some (Inr ())" "cy_exit c = Some (ExitRecoverable message)"
    "\<not> cy_cancelled_in_backoff c" using Cons.prems(1) by simp_all
  show ?case
  proof (cases "attempts < max_restarts (cpl_recovery p)")
    case False
    then have "unat attempts = restart_limit p" using Cons.prems(2) by (simp add: word_less_nat_alt)
    with c same False Cons.prems(3) show ?thesis by (auto simp: counted_def Let_def split: if_splits)
  next
    case True
    then have r: "counted p c attempts < max_restarts (cpl_recovery p)" by (simp add: same)
    define n where "n = attempts + 1"
    define h2 where "h2 = note_restart p metrics n message (announce_running p h)"
    define h3 where "h3 = h2\<lparr> sleeps := sleeps h2 @ [wait (cpl_recovery p) (unat attempts)] \<rparr>"
    have n: "unat n = Suc (unat attempts)" "Suc (unat attempts) \<le> restart_limit p"
      using unat_next [OF r] by (simp_all add: n_def same)
    then have b: "backoff (cpl_recovery p) n = Some (wait (cpl_recovery p) (unat attempts))"
      using compiled_wait [of n cls] assms(1) by simp
    have h3: "sleeps h3 = sleeps h @ [wait (cpl_recovery p) (unat attempts)]" by (simp add: h3_def h2_def)
    note sup = supervise_restart [OF c(1-3) r, of metrics cs h, unfolded same, folded n_def,
        unfolded Let_def, folded h2_def]
    have "supervise_pipeline_task p metrics n cs h3 = (e, h')"
      using sup b c(4) Cons.prems(3) by (simp add: h3_def)
    note ih = Cons.IH [OF _ _ this, unfolded n(1) h3]
    have "[unat attempts..<min (restart_limit p) (unat attempts + length (c # cs))] =
        unat attempts # [Suc (unat attempts)..<min (restart_limit p) (Suc (unat attempts) + length cs)]"
      using n(2) by (subst upt_rec) auto
    with ih n(2) Cons.prems(1) show ?thesis by (simp split: if_splits)
  qed
qed simp

text \<open>
  C30: a compiled pipeline that fails recoverably as soon as it runs is tried again exactly as often
  as its policy says, after the waits of the policy in order; one failure more and it is given up,
  with the status failed and the last error as the message.
\<close>

theorem restart_budget_exact:
  assumes "cpl_recovery p = recovery_policy_of cls"
    and "list_all (\<lambda>c. \<not> cy_cancelled c \<and> cy_build c = Some (Inr ()) \<and> \<not> cy_cancelled_in_backoff c \<and>
      cy_exit c = Some (ExitRecoverable message) \<and> cy_elapsed c < reset_after (cpl_recovery p)) cs"
    and "supervise_pipeline_task p metrics 0 cs h = (e, h')"
  shows "sleeps h' = sleeps h @ map (wait (cpl_recovery p)) [0..<min (restart_limit p) (length cs)] \<and>
    (if length cs \<le> restart_limit p then e = StillRunning
     else e = Finished \<and> statuses h' (cpl_id p) = Some Failed \<and>
          last (events h') = StatusChanged (cpl_id p) Failed (Some message))"
  using supervise_failing [OF assms(1,2) _ assms(3)] by simp

theorem restart_budget_exact_witness:
  "sleeps (snd (supervise_pipeline_task example_pipeline False 0 (replicate 6 failing_cycle) example_inner)) =
     [250000000, 500000000, 1000000000, 2000000000, 4000000000]"
proof -
  obtain e h' where r: "supervise_pipeline_task example_pipeline False 0 (replicate 6 failing_cycle) example_inner
      = (e, h')" by fastforce
  have "map (wait (recovery_policy_of RecoverNetwork)) [0..<5] =
      [250000000, 500000000, 1000000000, 2000000000, 4000000000]"
    by (simp add: wait_def upt_rec from_millis_def from_secs_def)
  with restart_budget_exact [OF _ failing_cycles [OF refl] r, of RecoverNetwork] r show ?thesis by simp
qed

section \<open>Statuses and events\<close>

text \<open>A step of the supervisor touches only its own pipeline.\<close>

definition only_of :: "str \<Rightarrow> runtime_inner \<Rightarrow> runtime_inner \<Rightarrow> bool" where
  "only_of pid h h' \<longleftrightarrow> (\<exists>es. events h' = events h @ es \<and> list_all (\<lambda>e. event_pid e = pid) es) \<and>
     (\<forall>q. q \<noteq> pid \<longrightarrow> statuses h' q = statuses h q)"

lemma only_of_refl [intro, simp]: "only_of pid h h"
  by (simp add: only_of_def)

lemma only_of_trans:
  assumes "only_of pid h h1" "only_of pid h1 h2"
  shows "only_of pid h h2"
proof -
  from assms obtain es fs where "events h1 = events h @ es" "events h2 = events h1 @ fs"
    "list_all (\<lambda>e. event_pid e = pid) (es @ fs)"
    unfolding only_of_def by auto
  then have "events h2 = events h @ (es @ fs) \<and> list_all (\<lambda>e. event_pid e = pid) (es @ fs)" by simp
  with assms show ?thesis unfolding only_of_def by auto
qed

lemma only_of_publish [intro, simp]: "only_of pid h (publish_status pid s m h)"
  by (simp add: only_of_def)

lemma only_of_announce [intro, simp]: "only_of (cpl_id p) h (announce_running p h)"
  by (simp add: only_of_def running_events_def)

lemma only_of_restart [intro, simp]: "only_of (cpl_id p) h (note_restart p metrics n message h)"
  by (simp add: only_of_def restart_events_def)

lemma only_of_sleeps [simp]: "only_of pid h1 (h2\<lparr> sleeps := x \<rparr>) = only_of pid h1 h2"
  by (simp add: only_of_def)

lemma supervise_only_of: "only_of (cpl_id p) h (snd (supervise_pipeline_task p metrics attempts cs h))"
proof (induction cs arbitrary: attempts h)
  case (Cons c cs)
  show ?case
  proof (cases rule: turn_kind [where c = c and p = p and attempts = attempts])
    case stop
    from supervise_stop [OF this, of p metrics attempts cs h] show ?thesis
      using only_of_trans [OF only_of_announce only_of_publish]
      by (auto simp del: supervise_pipeline_task.simps)
  next
    case panic
    then obtain f where "f \<in> {id, announce_running p}" "supervise_pipeline_task p metrics attempts (c # cs) h = (Panicked, f h)"
      using supervise_panic [of c p attempts cs] by blast
    then show ?thesis by (auto simp del: supervise_pipeline_task.simps)
  next
    case fail
    from supervise_fail [OF this, of metrics cs h] show ?thesis
      using only_of_trans [OF only_of_announce only_of_publish]
      by (auto simp del: supervise_pipeline_task.simps)
  next
    case (restart message)
    define n where "n = counted p c attempts + 1"
    define h2 where "h2 = note_restart p metrics n message (announce_running p h)"
    have h2: "only_of (cpl_id p) h h2"
      unfolding h2_def by (rule only_of_trans [OF only_of_announce only_of_restart])
    have "only_of (cpl_id p) h (snd (supervise_pipeline_task p metrics n cs (h2\<lparr> sleeps := d \<rparr>)))" for d
      by (rule only_of_trans [OF _ Cons.IH]) (simp add: h2)
    with supervise_restart [OF restart, of metrics cs h, folded n_def] h2
      only_of_trans [OF h2 only_of_publish] show ?thesis
      by (simp add: Let_def h2_def split: option.split)
  qed
qed simp

text \<open>
  C31: whatever happens to a pipeline, the statuses it goes through are a path of the status machine
  from spawning on (running after spawning or recovering, stalled and then recovering after a
  failure, and stopped or failed at the end); the status map holds the last one that was published,
  it is stopped or failed exactly if the task has ended on its own, and not by a panic, and no other pipeline's status
  or events are touched.
\<close>

theorem supervisor_follows_state_machine:
  assumes "statuses h (cpl_id p) = Some Spawning"
    and "supervise_pipeline_task p metrics 0 cs h = (e, h')"
  shows "\<exists>es. events h' = events h @ es \<and> status_path Spawning (statuses_in es) \<and>
      list_all (\<lambda>x. event_pid x = cpl_id p) es \<and>
      statuses h' (cpl_id p) = Some (last (Spawning # statuses_in es)) \<and>
      (e = Finished \<longleftrightarrow> last (Spawning # statuses_in es) \<in> {Stopped, Failed}) \<and>
      (\<forall>q. q \<noteq> cpl_id p \<longrightarrow> statuses h' q = statuses h q)"
proof -
  from supervise_run_ok [OF _ assms, of] obtain es where "events h' = events h @ es"
    "status_path Spawning (statuses_in es)" "statuses h' (cpl_id p) = Some (last (Spawning # statuses_in es))"
    "e = Finished \<longleftrightarrow> last (Spawning # statuses_in es) \<in> {Stopped, Failed}"
    unfolding run_ok_def by auto
  moreover have "only_of (cpl_id p) h h'"
    using supervise_only_of [of p h metrics 0 cs] assms(2) by simp
  ultimately show ?thesis unfolding only_of_def by auto
qed

theorem supervisor_follows_state_machine_witness:
  "statuses (snd (supervise_pipeline_task example_pipeline False 0 [failing_cycle] example_inner))
     ''__sentinel__'' \<noteq> None"
proof -
  obtain e h' where r: "supervise_pipeline_task example_pipeline False 0 [failing_cycle] example_inner = (e, h')"
    by fastforce
  have "statuses example_inner (cpl_id example_pipeline) = Some Spawning" by simp
  from supervisor_follows_state_machine [OF this r] show ?thesis
    unfolding r by auto
qed

lemma start_fold:
  "events (foldl (\<lambda>h p. publish_status (cpl_id p) Spawning None h) h ps) =
     events h @ map (\<lambda>p. StatusChanged (cpl_id p) Spawning None) ps"
  "statuses (foldl (\<lambda>h p. publish_status (cpl_id p) Spawning None h) h ps) q =
     (if q \<in> cpl_id ` set ps then Some Spawning else statuses h q)"
  by (induction ps arbitrary: h) auto

text \<open>
  A runtime before any of its tasks is scheduled: it knows exactly the pipelines of its graph, all of
  them spawning.
\<close>

lemma start_exact:
  "statuses (start g) q = (if q \<in> cpl_id ` set (cg_pipelines g) then Some Spawning else None) \<and>
   events (start g) = map (\<lambda>p. StatusChanged (cpl_id p) Spawning None) (cg_pipelines g)"
proof
  have "map_of (map (\<lambda>p. (cpl_id p, Spawning)) ps) q = None" if "q \<notin> cpl_id ` set ps" for ps
    using that by (induction ps) auto
  from this [of "cg_pipelines g"] show "statuses (start g) q = (if q \<in> cpl_id ` set (cg_pipelines g) then Some Spawning else None)"
    by (simp add: start_def start_fold initial_inner_def)
  show "events (start g) = map (\<lambda>p. StatusChanged (cpl_id p) Spawning None) (cg_pipelines g)"
    by (simp add: start_def start_fold initial_inner_def)
qed

end
