(* ===== verification/Caml_Fanout.thy ===== *)
theory Caml_Fanout
  imports Caml_Media
begin

text \<open>
  \<open>FanoutRouter\<close> of \<^verbatim>\<open>crates/caml-core/src/runtime.rs\<close>: one task and one bounded channel per sink.
  The channels are tokio's; how a send on one ended is input: \<open>send\<close> fails only if the receiver is
  gone, \<open>try_send\<close> also if the channel is full. What the router puts into the channels is a list of
  pairs of an actor's index and the payload, in the order of the sends.
\<close>

datatype router_drop_policy = RouterBlock | RouterDropOldest | RouterDropNewest

record 'sink sink_actor_config =
  sac_sink :: 'sink
  sac_queue_limit :: usize
  sac_drop_policy :: router_drop_policy

record 'sink sink_actor =
  sa_sink :: 'sink
  sa_capacity :: nat
  sa_policy :: router_drop_policy

text \<open>
  \<open>FanoutRouter::new\<close>; \<open>None\<close> is the panic of \<open>mpsc::channel\<close>, which is documented for a capacity of
  0 and for one above \<open>usize::MAX >> 3\<close>.
\<close>

definition max_permits :: nat where
  "max_permits = (2 ^ 64 - 1) div 8"

fun fanout_new :: "'sink sink_actor_config list \<Rightarrow> 'sink sink_actor list option" where
  "fanout_new [] = Some []"
| "fanout_new (c # cs) =
     (if sac_queue_limit c = 0 \<or> unat (sac_queue_limit c) > max_permits then None
      else map_option (\<lambda>as. \<lparr> sa_sink = sac_sink c, sa_capacity = unat (sac_queue_limit c),
             sa_policy = sac_drop_policy c \<rparr> # as) (fanout_new cs))"

text \<open>The task of an actor: it hands every received payload to its sink and ignores the errors.\<close>

fun actor_loop ::
  "('sink \<Rightarrow> media_payload \<Rightarrow> (runtime_error + unit) \<times> 'sink) \<Rightarrow> media_payload list \<Rightarrow> 'sink \<Rightarrow> 'sink" where
  "actor_loop consume [] sink = sink"
| "actor_loop consume (payload # received) sink =
     (let (ignored, sink') = consume sink payload in actor_loop consume received sink')"

text \<open>How the sends of one call to one actor end: the send, and for a dropping policy the retry.\<close>

record send_answer =
  an_send :: bool
  an_retry :: bool

definition fanout_error :: runtime_error where
  "fanout_error = Sink ''fanout actor task terminated unexpectedly''"

fun fanout_consume ::
  "nat \<Rightarrow> (router_drop_policy \<times> send_answer) list \<Rightarrow> media_payload
     \<Rightarrow> (runtime_error + unit) \<times> (nat \<times> media_payload) list" where
  "fanout_consume i [] payload = (Inr (), [])"
| "fanout_consume i ((policy, answer) # actors) payload =
     (let go = (\<lambda>sent. let (r, rest) = fanout_consume (i + 1) actors payload
                        in (r, (if sent then [(i, payload)] else []) @ rest))
      in case policy of
           RouterBlock \<Rightarrow> if an_send answer then go True else (Inl fanout_error, [])
         | RouterDropNewest \<Rightarrow> go (an_send answer)
         | RouterDropOldest \<Rightarrow> if an_send answer then go True else go (an_retry answer))"

section \<open>What reaches the sinks\<close>

definition accepts :: "router_drop_policy \<times> send_answer \<Rightarrow> bool" where
  "accepts a = (an_send (snd a) \<or> fst a = RouterDropOldest \<and> an_retry (snd a))"

definition blocks_dead :: "router_drop_policy \<times> send_answer \<Rightarrow> bool" where
  "blocks_dead a = (fst a = RouterBlock \<and> \<not> an_send (snd a))"

lemma fanout_consume_result:
  "fst (fanout_consume i actors payload) =
     (if list_ex blocks_dead actors then Inl fanout_error else Inr ())"
  by (induction i actors payload rule: fanout_consume.induct)
    (auto simp: blocks_dead_def Let_def split: prod.splits router_drop_policy.splits if_splits)

lemma fanout_consume_sent:
  "snd (fanout_consume i actors payload) =
     map (\<lambda>(j, _). (j, payload))
       (filter (accepts \<circ> snd) (takeWhile (Not \<circ> blocks_dead \<circ> snd) (enumerate i actors)))"
  by (induction i actors payload rule: fanout_consume.induct)
    (auto simp: accepts_def blocks_dead_def Let_def split: prod.splits router_drop_policy.splits)

text \<open>
  A payload reaches the channels of exactly those sinks whose send succeeded (for the policy
  that says it evicts, also after the one retry), each once, in the order of the sinks, but only up
  to the first blocking sink whose task is gone; only such a sink makes the router fail, so a
  dropping sink never stops a pipeline.
\<close>

theorem fanout_delivery_exact:
  "fanout_consume i actors payload =
     (if list_ex blocks_dead actors then Inl fanout_error else Inr (),
      map (\<lambda>(j, _). (j, payload))
        (filter (accepts \<circ> snd) (takeWhile (Not \<circ> blocks_dead \<circ> snd) (enumerate i actors))))"
  by (rule prod_eqI) (simp_all add: fanout_consume_result fanout_consume_sent)

lemma fanout_new_panics:
  "fanout_new cs = None \<longleftrightarrow>
     (\<exists>c \<in> set cs. sac_queue_limit c = 0 \<or> unat (sac_queue_limit c) > max_permits)"
  by (induction cs) auto

end
