(* ===== verification/Caml_Webrtc.thy ===== *)
theory Caml_Webrtc
  imports Caml_Fanout "HOL-Library.Sublist"
begin

text \<open>
  \<^verbatim>\<open>crates/caml-webrtc/src/lib.rs\<close>: the WebRTC sink. The pipeline loop puts packets into a bounded
  queue, a task of its own takes them out, packetizes them and writes the RTP packets.

  Queue, closed flag and error sit behind one mutex, so what happens under the lock is one step:
  \<open>enqueue_section\<close> and \<open>dequeue_section\<close>. Between the steps the two tasks interleave in any
  order; \<open>webrtc_step\<close> is that interleaving. \<open>Notify\<close> only decides when a waiting task looks again;
  here it may look again at any time, so the properties hold for every way of waking. The H.264
  packetizer of the \<^verbatim>\<open>rtp\<close> crate and the packet writer are parameters.
\<close>

section \<open>Time stamps and synchronisation sources\<close>

definition video_clock_rate :: u32 where
  "video_clock_rate = 90000"

definition default_frame_duration :: duration where
  "default_frame_duration = from_millis 33"

definition duration_to_rtp_samples_with_rate :: "duration \<Rightarrow> u32 \<Rightarrow> u32" where
  "duration_to_rtp_samples_with_rate duration clock_rate =
     (let nanos = of_nat duration :: u128;
          samples = saturating_mul nanos (ucast clock_rate) div 1000000000
      in ucast (min (max samples 1) (ucast (- 1 :: u32))))"

definition duration_to_rtp_samples :: "duration \<Rightarrow> u32" where
  "duration_to_rtp_samples duration = duration_to_rtp_samples_with_rate duration video_clock_rate"

text \<open>\<open>hash\<close> is what \<open>DefaultHasher\<close> of the standard library finishes with after hashing a string.\<close>

definition stable_ssrc :: "(str \<Rightarrow> u64) \<Rightarrow> str \<Rightarrow> u32" where
  "stable_ssrc hash pipeline_id = ucast (hash pipeline_id)"

section \<open>The queue\<close>

fun position :: "('a \<Rightarrow> bool) \<Rightarrow> 'a list \<Rightarrow> nat option" where
  "position P [] = None"
| "position P (x # xs) = (if P x then Some 0 else map_option Suc (position P xs))"

definition drop_oldest_prefer_delta ::
  "encoded_packet list \<Rightarrow> encoded_packet option \<times> encoded_packet list" where
  "drop_oldest_prefer_delta queue =
     (case position (\<lambda>packet. \<not> ep_is_keyframe packet) queue of
        Some index \<Rightarrow> (Some (queue ! index), take index queue @ drop (Suc index) queue)
      | None \<Rightarrow> (case queue of [] \<Rightarrow> (None, []) | packet # rest \<Rightarrow> (Some packet, rest)))"

record webrtc_shared =
  w_queue :: "encoded_packet list"
  w_closed :: bool
  w_error :: "runtime_error option"
  w_metrics :: bool

record webrtc_sink =
  ws_pipeline_id :: str
  ws_queue_limit :: usize
  ws_drop_policy :: router_drop_policy

definition shared_error :: "webrtc_shared \<Rightarrow> runtime_error + unit" where
  "shared_error s = (case w_error s of Some error \<Rightarrow> Inl error | None \<Rightarrow> Inr ())"

definition install_metrics :: "bool \<Rightarrow> webrtc_shared \<Rightarrow> webrtc_shared" where
  "install_metrics metrics s = (if metrics \<and> \<not> w_metrics s then s\<lparr> w_metrics := True \<rparr> else s)"

text \<open>
  How the locked part of \<open>enqueue_packet\<close> ends. \<open>Evicted\<close> and \<open>Refused\<close> are the two cases that
  record a drop; \<open>Evicted\<close> carries the packet that left the queue.
\<close>

datatype enqueue_outcome =
    Enqueued
  | Evicted "encoded_packet option"
  | Refused
  | WaitForCapacity
  | EnqueueClosed runtime_error

definition enqueue_section ::
  "webrtc_sink \<Rightarrow> encoded_packet \<Rightarrow> webrtc_shared \<Rightarrow> enqueue_outcome \<times> webrtc_shared" where
  "enqueue_section sink packet s =
     (if w_closed s
      then (EnqueueClosed (Sink (pipeline_msg (ws_pipeline_id sink)
              ''cannot enqueue after WebRTC sink is closed'')), s)
      else if length (w_queue s) < unat (ws_queue_limit sink)
        then (Enqueued, s\<lparr> w_queue := w_queue s @ [packet] \<rparr>)
      else (case ws_drop_policy sink of
          RouterBlock \<Rightarrow> (WaitForCapacity, s)
        | RouterDropNewest \<Rightarrow> (Refused, s)
        | RouterDropOldest \<Rightarrow>
            (let (dropped, queue) = drop_oldest_prefer_delta (w_queue s)
             in (Evicted dropped, s\<lparr> w_queue := queue @ [packet] \<rparr>))))"

datatype dequeue_outcome = SenderStops | Dequeued encoded_packet bool | WaitForPacket

definition dequeue_section :: "webrtc_shared \<Rightarrow> dequeue_outcome \<times> webrtc_shared" where
  "dequeue_section s =
     (if w_error s \<noteq> None then (SenderStops, s)
      else (case w_queue s of
          packet # rest \<Rightarrow> (Dequeued packet (w_metrics s), s\<lparr> w_queue := rest \<rparr>)
        | [] \<Rightarrow> if w_closed s then (SenderStops, s) else (WaitForPacket, s)))"

definition set_sender_error :: "runtime_error \<Rightarrow> webrtc_shared \<Rightarrow> webrtc_shared" where
  "set_sender_error error s =
     (if w_error s = None then s\<lparr> w_error := Some error \<rparr> else s)"

section \<open>The sender\<close>

record webrtc_sender_config =
  sc_pipeline_id :: str
  sc_packet_size_limit :: usize
  sc_default_frame_duration :: "duration option"
  sc_codec :: str
  sc_payload_type :: u8
  sc_ssrc :: u32
  sc_clock_rate :: u32

text \<open>Writing the packets of one frame stops at the first error.\<close>

fun write_packets ::
  "('w \<Rightarrow> 'r \<Rightarrow> (runtime_error + unit) \<times> 'w) \<Rightarrow> 'w \<Rightarrow> 'r list \<Rightarrow> (runtime_error + unit) \<times> 'w" where
  "write_packets write w [] = (Inr (), w)"
| "write_packets write w (r # rs) =
     (case write w r of
        (Inl e, w') \<Rightarrow> (Inl e, w')
      | (Inr _, w') \<Rightarrow> write_packets write w' rs)"

definition codec_error :: "webrtc_sender_config \<Rightarrow> str \<Rightarrow> runtime_error" where
  "codec_error config codec =
     Sink (pipeline_msg (sc_pipeline_id config)
       (''emitted codec '' @ quoted codec @ '' but the current WebRTC sink only packetizes '' @
        (if eq_ignore_ascii_case (sc_codec config) ''h264'' then ''H.264'' else sc_codec config)))"

text \<open>
  \<open>process_packet\<close>: \<open>bytes\<close> are the packet's data, copied to memory of their own, which is not
  modelled; \<open>packetize\<close> is the packetizer with its state. What it
  reports is the copied length for the metrics, if the packet got that far.
\<close>

definition frame_duration :: "webrtc_sender_config \<Rightarrow> encoded_packet \<Rightarrow> duration" where
  "frame_duration config packet =
     (case ep_duration packet of Some d \<Rightarrow> d
      | None \<Rightarrow> unwrap_or default_frame_duration (sc_default_frame_duration config))"

definition process_packet ::
  "('p \<Rightarrow> u8 list \<Rightarrow> u32 \<Rightarrow> (str + 'r list) \<times> 'p) \<Rightarrow> ('w \<Rightarrow> 'r \<Rightarrow> (runtime_error + unit) \<times> 'w)
     \<Rightarrow> webrtc_sender_config \<Rightarrow> encoded_packet \<Rightarrow> u8 list \<Rightarrow> 'p \<Rightarrow> 'w
     \<Rightarrow> (runtime_error + unit) \<times> 'p \<times> 'w" where
  "process_packet packetize write config packet bytes p w =
     (if \<not> eq_ignore_ascii_case (ep_codec packet) (sc_codec config)
      then (Inl (codec_error config (ep_codec packet)), p, w)
      else
        (let samples = duration_to_rtp_samples_with_rate (frame_duration config packet) (sc_clock_rate config)
         in case packetize p bytes samples of
              (Inl error, p') \<Rightarrow>
                (Inl (Sink (pipeline_msg (sc_pipeline_id config)
                   (''failed to packetize H.264 RTP payloads: '' @ error))), p', w)
            | (Inr packets, p') \<Rightarrow>
                (let (r, w') = write_packets write w packets in (r, p', w'))))"

section \<open>The two tasks\<close>

text \<open>
  Where the pipeline loop is in \<open>consume\<close>, and where the sender task is. \<open>FlushedWith\<close> is the result
  of \<open>close_and_flush\<close>, after which the sink is not used again.
\<close>

datatype producer =
    Idle
  | Checking encoded_packet
  | Enqueuing encoded_packet
  | Waiting encoded_packet
  | Closing
  | Flushing
  | FlushedWith "runtime_error + unit"

datatype sender =
    Dequeuing
  | SenderWaiting
  | Processing encoded_packet
  | Failing encoded_packet runtime_error
  | SenderDone

text \<open>
  The last five fields are ghosts: what was put into the queue, what was processed to the end, what
  failed in the sender, what was evicted, and what \<open>consume\<close> returned.
\<close>

record webrtc_world =
  shared :: webrtc_shared
  producer :: producer
  sender :: sender
  accepted :: "encoded_packet list"
  processed :: "encoded_packet list"
  failed :: "encoded_packet list"
  evicted :: "encoded_packet list"
  results :: "(runtime_error + unit) list"

definition reply :: "runtime_error + unit \<Rightarrow> webrtc_world \<Rightarrow> webrtc_world" where
  "reply r w = w\<lparr> producer := Idle, results := results w @ [r] \<rparr>"

text \<open>The locked part of \<open>enqueue_packet\<close> and what follows it.\<close>

definition enqueue_step :: "webrtc_sink \<Rightarrow> encoded_packet \<Rightarrow> webrtc_world \<Rightarrow> webrtc_world" where
  "enqueue_step sink packet w =
     (let (outcome, s) = enqueue_section sink packet (shared w); w1 = w\<lparr> shared := s \<rparr> in
      case outcome of
        Enqueued \<Rightarrow> reply (Inr ()) (w1\<lparr> accepted := accepted w1 @ [packet] \<rparr>)
      | Evicted dropped \<Rightarrow>
          reply (Inr ()) (w1\<lparr> accepted := accepted w1 @ [packet],
            evicted := evicted w1 @ (case dropped of None \<Rightarrow> [] | Some d \<Rightarrow> [d]) \<rparr>)
      | Refused \<Rightarrow> reply (Inr ()) w1
      | WaitForCapacity \<Rightarrow> w1\<lparr> producer := Waiting packet \<rparr>
      | EnqueueClosed error \<Rightarrow> reply (Inl error) w1)"

definition dequeue_step :: "webrtc_world \<Rightarrow> webrtc_world" where
  "dequeue_step w =
     (let (outcome, s) = dequeue_section (shared w); w1 = w\<lparr> shared := s \<rparr> in
      case outcome of
        SenderStops \<Rightarrow> w1\<lparr> sender := SenderDone \<rparr>
      | Dequeued packet metrics \<Rightarrow> w1\<lparr> sender := Processing packet \<rparr>
      | WaitForPacket \<Rightarrow> w1\<lparr> sender := SenderWaiting \<rparr>)"

definition decoded_frame_error :: "webrtc_sink \<Rightarrow> runtime_error" where
  "decoded_frame_error sink =
     Sink (pipeline_msg (ws_pipeline_id sink)
       ''produced decoded frames but the current WebRTC sink expects packetized encoded video'')"

text \<open>\<open>consume\<close> up to its first wait: metrics, error, and what the payload asks for.\<close>

definition consume_step :: "webrtc_sink \<Rightarrow> bool \<Rightarrow> media_payload \<Rightarrow> webrtc_world \<Rightarrow> webrtc_world" where
  "consume_step sink metrics payload w =
     (let w1 = w\<lparr> shared := install_metrics metrics (shared w) \<rparr> in
      case shared_error (shared w1) of
        Inl error \<Rightarrow> reply (Inl error) w1
      | Inr _ \<Rightarrow>
          (case payload of
             EncodedPacket packet \<Rightarrow> w1\<lparr> producer := Checking packet \<rparr>
           | DecodedFrame frame \<Rightarrow> reply (Inl (decoded_frame_error sink)) w1
           | EndOfStream \<Rightarrow> w1\<lparr> producer := Closing \<rparr>))"

text \<open>\<open>close_and_flush\<close> up to joining the sender task.\<close>

definition close_step :: "webrtc_world \<Rightarrow> webrtc_world" where
  "close_step w = w\<lparr> shared := (shared w)\<lparr> w_closed := True \<rparr>, producer := Flushing \<rparr>"

definition check_step :: "encoded_packet \<Rightarrow> webrtc_world \<Rightarrow> webrtc_world" where
  "check_step packet w =
     (case shared_error (shared w) of
        Inl error \<Rightarrow> reply (Inl error) w
      | Inr _ \<Rightarrow> w\<lparr> producer := Enqueuing packet \<rparr>)"

inductive webrtc_step :: "webrtc_sink \<Rightarrow> webrtc_world \<Rightarrow> webrtc_world \<Rightarrow> bool" for sink where
  Consume: "producer w = Idle \<Longrightarrow> webrtc_step sink w (consume_step sink metrics payload w)"
| Check: "producer w = Checking packet \<Longrightarrow> webrtc_step sink w (check_step packet w)"
| Enqueue: "producer w = Enqueuing packet \<Longrightarrow> webrtc_step sink w (enqueue_step sink packet w)"
| WakeProducer: "producer w = Waiting packet \<Longrightarrow> webrtc_step sink w (w\<lparr> producer := Checking packet \<rparr>)"
| Close: "producer w = Closing \<Longrightarrow> webrtc_step sink w (close_step w)"
| Flush: "producer w = Flushing \<Longrightarrow> sender w = SenderDone \<Longrightarrow>
    webrtc_step sink w (w\<lparr> producer := FlushedWith (shared_error (shared w)) \<rparr>)"
| Dequeue: "sender w = Dequeuing \<Longrightarrow> webrtc_step sink w (dequeue_step w)"
| WakeSender: "sender w = SenderWaiting \<Longrightarrow> webrtc_step sink w (w\<lparr> sender := Dequeuing \<rparr>)"
| Sent: "sender w = Processing packet \<Longrightarrow>
    webrtc_step sink w (w\<lparr> sender := Dequeuing, processed := processed w @ [packet] \<rparr>)"
| SendFails: "sender w = Processing packet \<Longrightarrow>
    webrtc_step sink w (w\<lparr> sender := Failing packet error \<rparr>)"
| SetError: "sender w = Failing packet error \<Longrightarrow>
    webrtc_step sink w (w\<lparr> sender := SenderDone, shared := set_sender_error error (shared w),
      failed := failed w @ [packet] \<rparr>)"

definition webrtc_initial :: webrtc_world where
  "webrtc_initial =
     \<lparr> shared = \<lparr> w_queue = [], w_closed = False, w_error = None, w_metrics = False \<rparr>,
       producer = Idle, sender = Dequeuing, accepted = [], processed = [], failed = [], evicted = [], results = [] \<rparr>"

definition webrtc_reachable :: "webrtc_sink \<Rightarrow> webrtc_world \<Rightarrow> bool" where
  "webrtc_reachable sink w \<longleftrightarrow> (webrtc_step sink)\<^sup>*\<^sup>* webrtc_initial w"

section \<open>Building the sink\<close>

fun router_policy :: "drop_policy \<Rightarrow> router_drop_policy" where
  "router_policy Block = RouterBlock"
| "router_policy DropOldest = RouterDropOldest"
| "router_policy DropNewest = RouterDropNewest"

definition is_webrtc_output :: "output_profile \<Rightarrow> bool" where
  "is_webrtc_output profile = (case profile of WebrtcRtp _ _ _ _ _ _ _ \<Rightarrow> True | _ \<Rightarrow> False)"

definition queue_limit_error :: "str \<Rightarrow> runtime_error" where
  "queue_limit_error pid = Sink (pipeline_msg pid ''queue_limit must be at least 1 for WebRTC output'')"

definition new_configured ::
  "webrtc_sender_config \<Rightarrow> usize \<Rightarrow> router_drop_policy
     \<Rightarrow> runtime_error + webrtc_sink \<times> webrtc_sender_config" where
  "new_configured config queue_limit policy =
     (if unat (sc_packet_size_limit config) \<le> 12
      then Inl (Sink (pipeline_msg (sc_pipeline_id config)
             (''packet_size_limit '' @ show_unsigned (sc_packet_size_limit config) @
              '' is too small for RTP output'')))
      else if queue_limit = 0 then Inl (queue_limit_error (sc_pipeline_id config))
      else Inr (\<lparr> ws_pipeline_id = sc_pipeline_id config, ws_queue_limit = queue_limit,
                  ws_drop_policy = policy \<rparr>, config))"

definition output_ssrc :: "(str \<Rightarrow> u64) \<Rightarrow> str \<Rightarrow> str option \<Rightarrow> u32" where
  "output_ssrc hash pid ssrc =
     (case ssrc of
        None \<Rightarrow> stable_ssrc hash pid
      | Some s \<Rightarrow> if s = ''stable'' then stable_ssrc hash pid
                  else (case parse_unsigned s of Some parsed \<Rightarrow> parsed | None \<Rightarrow> stable_ssrc hash s))"

definition output_frame_duration :: "compiled_pipeline \<Rightarrow> duration option" where
  "output_frame_duration pipeline =
     Option.bind (cpl_processing pipeline) (\<lambda>profile.
       if cp_out_frame_rate profile = 0 then None
       else Some (from_nanos (1000000000 div ucast (cp_out_frame_rate profile))))"

definition build_sink ::
  "(str \<Rightarrow> u64) \<Rightarrow> compiled_pipeline \<Rightarrow> runtime_error + webrtc_sink \<times> webrtc_sender_config" where
  "build_sink hash pipeline =
     (let (codec, payload_type, mtu, ssrc, clock_rate, queue_limit, policy) =
            (case find is_webrtc_output (cpl_outputs pipeline) of
               Some (WebrtcRtp codec payload_type mtu ssrc clock_rate queue_limit policy) \<Rightarrow>
                 (codec, payload_type, mtu, ssrc, clock_rate, queue_limit, policy)
             | _ \<Rightarrow> (None, None, None, None, None, None, Block));
          final_mtu = (case mtu of Some m \<Rightarrow> m
            | None \<Rightarrow> (case cpl_network pipeline of
                Some profile \<Rightarrow> cn_packet_size_limit profile | None \<Rightarrow> 1200));
          limit = unwrap_or 10 queue_limit
      in if limit = 0 then Inl (queue_limit_error (cpl_id pipeline))
         else new_configured
           \<lparr> sc_pipeline_id = cpl_id pipeline, sc_packet_size_limit = final_mtu,
             sc_default_frame_duration = output_frame_duration pipeline,
             sc_codec = unwrap_or ''h264'' codec, sc_payload_type = unwrap_or 102 payload_type,
             sc_ssrc = output_ssrc hash (cpl_id pipeline) ssrc,
             sc_clock_rate = unwrap_or video_clock_rate clock_rate \<rparr>
           limit (router_policy policy))"

end
