(* ===== verification/Caml_Webrtc_Correct.thy ===== *)
theory Caml_Webrtc_Correct
  imports Caml_Webrtc
begin

text \<open>
  What the WebRTC sink guarantees under every interleaving of the pipeline loop and the sender task:
  the queue stays within its limit, packets are sent in order and lost only as the drop policy or an
  error says, a successful flush has sent everything, and key frames are the last to be evicted.
\<close>

section \<open>Evicting from a queue\<close>

text \<open>What the queue needs of an eviction: it removes one element, wherever it is.\<close>

locale eviction =
  fixes evict :: "'a list \<Rightarrow> 'a option \<times> 'a list"
  assumes evict_Nil: "evict [] = (None, [])"
    and evict_split: "q \<noteq> [] \<Longrightarrow> \<exists>u x v. q = u @ x # v \<and> evict q = (Some x, u @ v)"
begin

lemma evict_length: "length (snd (evict q)) = length q - 1"
proof (cases "q = []")
  case False
  from evict_split [OF this] obtain u x v where "q = u @ x # v" "evict q = (Some x, u @ v)" by blast
  then show ?thesis by simp
qed (simp add: evict_Nil)

lemma evict_subseq: "subseq (snd (evict q)) q"
proof (cases "q = []")
  case False
  from evict_split [OF this] obtain u x v where "q = u @ x # v" "evict q = (Some x, u @ v)" by blast
  then show ?thesis by (simp add: list_emb_append_mono subseq_Cons')
qed (simp add: evict_Nil)

lemma evict_mset: "mset q = mset (case fst (evict q) of None \<Rightarrow> [] | Some x \<Rightarrow> [x]) + mset (snd (evict q))"
proof (cases "q = []")
  case False
  from evict_split [OF this] obtain u x v where "q = u @ x # v" "evict q = (Some x, u @ v)" by blast
  then show ?thesis by simp
qed (simp add: evict_Nil)

end

lemma position_Some:
  "position P xs = Some i \<Longrightarrow> i < length xs \<and> P (xs ! i) \<and> (\<forall>j < i. \<not> P (xs ! j))"
proof (induction xs arbitrary: i)
  case (Cons x xs)
  show ?case
  proof (cases "P x")
    case False
    with Cons.prems obtain k where "i = Suc k" "position P xs = Some k" by auto
    with Cons.IH [of k] False show ?thesis by (auto simp: less_Suc_eq_0_disj)
  qed (use Cons.prems in auto)
qed simp

lemma position_None: "position P xs = None \<longleftrightarrow> (\<forall>x \<in> set xs. \<not> P x)"
  by (induction xs) auto

interpretation delta_first: eviction drop_oldest_prefer_delta
proof
  show "drop_oldest_prefer_delta [] = (None, [])" by (simp add: drop_oldest_prefer_delta_def)
  fix q :: "encoded_packet list" assume "q \<noteq> []"
  show "\<exists>u x v. q = u @ x # v \<and> drop_oldest_prefer_delta q = (Some x, u @ v)"
  proof (cases "position (\<lambda>packet. \<not> ep_is_keyframe packet) q")
    case None
    from \<open>q \<noteq> []\<close> None show ?thesis
      by (intro exI [of _ "[]"]) (auto simp: drop_oldest_prefer_delta_def neq_Nil_conv)
  next
    case (Some i)
    then have "q = take i q @ q ! i # drop (Suc i) q" using position_Some [OF Some]
      by (simp add: id_take_nth_drop)
    with Some show ?thesis unfolding drop_oldest_prefer_delta_def by auto
  qed
qed

text \<open>
  Eviction removes exactly one packet, the oldest one that is not a key frame, and a key frame
  (then the oldest packet) only if the queue holds nothing else; the others keep their order.
\<close>

theorem keyframes_evicted_last:
  assumes "queue \<noteq> []"
  shows "\<exists>u dropped v. queue = u @ dropped # v \<and>
    drop_oldest_prefer_delta queue = (Some dropped, u @ v) \<and>
    (if list_all ep_is_keyframe queue then u = []
     else \<not> ep_is_keyframe dropped \<and> list_all ep_is_keyframe u)"
proof (cases "position (\<lambda>packet. \<not> ep_is_keyframe packet) queue")
  case None
  then have "list_all ep_is_keyframe queue" by (simp add: position_None list_all_iff)
  with None assms show ?thesis
    by (intro exI [of _ "[]"]) (auto simp: drop_oldest_prefer_delta_def neq_Nil_conv)
next
  case (Some i)
  note i = position_Some [OF Some]
  have q: "queue = take i queue @ queue ! i # drop (Suc i) queue" using i by (simp add: id_take_nth_drop)
  have "list_all ep_is_keyframe (take i queue)"
    using i by (auto simp: list_all_length)
  moreover have "\<not> list_all ep_is_keyframe queue" using i by (auto simp: list_all_length)
  ultimately show ?thesis using Some q i
    unfolding drop_oldest_prefer_delta_def
    by (intro exI [of _ "take i queue"] exI [of _ "queue ! i"] exI [of _ "drop (Suc i) queue"]) simp
qed

definition example_frame :: "bool \<Rightarrow> nat \<Rightarrow> encoded_packet" where
  "example_frame key t = \<lparr> ep_codec = ''h264'', ep_timestamp = Some t, ep_duration = None,
     ep_is_keyframe = key, ep_data = Owned [101] \<rparr>"

theorem keyframes_evicted_last_witness:
  "\<exists>u dropped v. [example_frame True 0, example_frame False 33] = u @ dropped # v \<and>
     \<not> ep_is_keyframe dropped"
  using keyframes_evicted_last [of "[example_frame True 0, example_frame False 33]"]
  by (force simp: example_frame_def)

section \<open>The invariant\<close>

fun in_flight :: "sender \<Rightarrow> encoded_packet list" where
  "in_flight (Processing p) = [p]"
| "in_flight (Failing p e) = [p]"
| "in_flight Dequeuing = []"
| "in_flight SenderWaiting = []"
| "in_flight SenderDone = []"

text \<open>What became of the packets that were put into the queue and not evicted, oldest first.\<close>

definition handled :: "webrtc_world \<Rightarrow> encoded_packet list" where
  "handled w = processed w @ failed w @ in_flight (sender w) @ w_queue (shared w)"

fun closing :: "producer \<Rightarrow> bool" where
  "closing Flushing = True"
| "closing (FlushedWith r) = True"
| "closing _ = False"

definition queue_inv :: "webrtc_sink \<Rightarrow> webrtc_world \<Rightarrow> bool" where
  "queue_inv sink w \<longleftrightarrow>
     length (w_queue (shared w)) \<le> unat (ws_queue_limit sink) \<and>
     subseq (handled w) (accepted w) \<and>
     mset (accepted w) = mset (handled w) + mset (evicted w) \<and>
     (ws_drop_policy sink \<noteq> RouterDropOldest \<longrightarrow> evicted w = [])"

definition control_inv :: "webrtc_world \<Rightarrow> bool" where
  "control_inv w \<longleftrightarrow>
     (w_closed (shared w) \<longleftrightarrow> closing (producer w)) \<and>
     (w_error (shared w) \<noteq> None \<longleftrightarrow> failed w \<noteq> []) \<and>
     (failed w \<noteq> [] \<longrightarrow> sender w = SenderDone) \<and>
     (sender w = SenderDone \<and> failed w = [] \<longrightarrow> closing (producer w) \<and> w_queue (shared w) = []) \<and>
     (\<forall>r. producer w = FlushedWith r \<longrightarrow> sender w = SenderDone \<and> r = shared_error (shared w)) \<and>
     length (failed w) \<le> 1"

lemma enqueue_section_cases:
  obtains (closed) e where "w_closed s" "enqueue_section sink p s = (EnqueueClosed e, s)"
  | (room) "\<not> w_closed s" "length (w_queue s) < unat (ws_queue_limit sink)"
      "enqueue_section sink p s = (Enqueued, s\<lparr> w_queue := w_queue s @ [p] \<rparr>)"
  | (block) "\<not> w_closed s" "enqueue_section sink p s = (WaitForCapacity, s)"
  | (newest) "\<not> w_closed s" "enqueue_section sink p s = (Refused, s)"
  | (oldest) d q where "\<not> w_closed s" "ws_drop_policy sink = RouterDropOldest"
      "unat (ws_queue_limit sink) \<le> length (w_queue s)"
      "drop_oldest_prefer_delta (w_queue s) = (d, q)"
      "enqueue_section sink p s = (Evicted d, s\<lparr> w_queue := q @ [p] \<rparr>)"
  by (cases "w_closed s"; cases "length (w_queue s) < unat (ws_queue_limit sink)";
      cases "ws_drop_policy sink"; cases "drop_oldest_prefer_delta (w_queue s)")
    (auto simp: enqueue_section_def)

lemma queue_inv_evict:
  assumes "drop_oldest_prefer_delta q = (d, q')"
  shows "length q' = length q - 1" "subseq q' q"
    "mset q = mset (case d of None \<Rightarrow> [] | Some x \<Rightarrow> [x]) + mset q'"
  using delta_first.evict_length [of q] delta_first.evict_subseq [of q] delta_first.evict_mset [of q]
  by (simp_all add: assms)

lemma queue_inv_enqueue:
  assumes "queue_inv sink w" "ws_queue_limit sink \<noteq> 0"
  shows "queue_inv sink (enqueue_step sink p w)"
proof (cases rule: enqueue_section_cases [where s = "shared w" and sink = sink and p = p])
  case room
  have "subseq (handled w @ [p]) (accepted w @ [p])"
    using assms(1) by (simp add: queue_inv_def list_emb_append_mono)
  with room assms(1) show ?thesis
    by (simp add: queue_inv_def enqueue_step_def reply_def handled_def Let_def)
next
  case (oldest d q)
  note e = queue_inv_evict [OF oldest(4)]
  have pos: "0 < unat (ws_queue_limit sink)" using assms(2) by (simp add: unat_gt_0)
  let ?pre = "processed w @ failed w @ in_flight (sender w)"
  have "subseq (?pre @ q @ [p]) (?pre @ w_queue (shared w) @ [p])"
    using e(2) by (intro list_emb_append_mono) auto
  moreover have "subseq (?pre @ w_queue (shared w) @ [p]) (accepted w @ [p])"
    using assms(1) list_emb_append_mono [of "(=)" "handled w" "accepted w" "[p]" "[p]"]
    by (simp add: queue_inv_def handled_def)
  ultimately have "subseq (?pre @ q @ [p]) (accepted w @ [p])" by (rule subseq_order.trans)
  moreover have "length q + 1 \<le> unat (ws_queue_limit sink)"
    using assms(1) oldest(3) e(1) pos by (simp add: queue_inv_def)
  ultimately show ?thesis
    using oldest assms(1) e(3)
    by (simp add: queue_inv_def enqueue_step_def reply_def handled_def Let_def)
qed (use assms(1) in \<open>simp_all add: queue_inv_def enqueue_step_def reply_def handled_def Let_def\<close>)

lemma queue_inv_dequeue:
  assumes "queue_inv sink w" "sender w = Dequeuing"
  shows "queue_inv sink (dequeue_step w)"
  using assms
  by (auto simp: queue_inv_def dequeue_step_def dequeue_section_def handled_def Let_def split: list.split)

lemma queue_inv_consume:
  assumes "queue_inv sink w"
  shows "queue_inv sink (consume_step sink' metrics payload w)"
  using assms
  by (auto simp: queue_inv_def consume_step_def install_metrics_def reply_def handled_def Let_def
      split: sum.split media_payload.split)

lemma queue_inv_check: "queue_inv sink w \<Longrightarrow> queue_inv sink (check_step p w)"
  by (auto simp: queue_inv_def check_step_def reply_def handled_def split: sum.split)

lemma queue_inv_step:
  assumes "webrtc_step sink w w'" "queue_inv sink w" "control_inv w" "ws_queue_limit sink \<noteq> 0"
  shows "queue_inv sink w'"
  using assms
proof cases
  case (SetError p e)
  with assms(3) have "failed w = []" by (auto simp: control_inv_def)
  with SetError assms(2) show ?thesis by (simp add: queue_inv_def handled_def set_sender_error_def)
next
  case (Sent p)
  with assms(3) have "failed w = []" by (auto simp: control_inv_def)
  with Sent assms(2) show ?thesis by (simp add: queue_inv_def handled_def)
next
  case (Enqueue p)
  then show ?thesis using queue_inv_enqueue [OF assms(2,4)] by simp
next
  case Dequeue
  then show ?thesis using queue_inv_dequeue [OF assms(2)] by simp
next
  case (Consume metrics payload)
  then show ?thesis using queue_inv_consume [OF assms(2)] by simp
next
  case (Check p)
  then show ?thesis using queue_inv_check [OF assms(2)] by simp
qed (use assms(2) in \<open>simp_all add: queue_inv_def handled_def close_step_def\<close>)

lemma control_inv_consume:
  assumes "control_inv w" "producer w = Idle"
  shows "control_inv (consume_step sink metrics payload w)"
  using assms
  by (cases payload)
    (auto simp: control_inv_def consume_step_def install_metrics_def reply_def shared_error_def Let_def
      split: option.splits sum.split)

lemma control_inv_check:
  assumes "control_inv w" "producer w = Checking p"
  shows "control_inv (check_step p w)"
  using assms by (auto simp: control_inv_def check_step_def reply_def shared_error_def split: option.splits)

lemma control_inv_enqueue:
  assumes "control_inv w" "producer w = Enqueuing p"
  shows "control_inv (enqueue_step sink p w)"
  using assms
  by (cases rule: enqueue_section_cases [where s = "shared w" and sink = sink and p = p])
    (auto simp: control_inv_def enqueue_step_def reply_def shared_error_def Let_def)

lemma control_inv_dequeue:
  assumes "control_inv w" "sender w = Dequeuing"
  shows "control_inv (dequeue_step w)"
  using assms
  by (auto simp: control_inv_def dequeue_step_def dequeue_section_def shared_error_def Let_def split: list.split)

lemma control_inv_step:
  assumes "webrtc_step sink w w'" "control_inv w"
  shows "control_inv w'"
  using assms
proof cases
  case (SetError p e)
  with assms(2) show ?thesis
    by (auto simp: control_inv_def set_sender_error_def shared_error_def)
next
  case (Enqueue p)
  then show ?thesis using control_inv_enqueue [OF assms(2)] by simp
next
  case Dequeue
  then show ?thesis using control_inv_dequeue [OF assms(2)] by simp
next
  case (Consume metrics payload)
  then show ?thesis using control_inv_consume [OF assms(2)] by simp
next
  case (Check p)
  then show ?thesis using control_inv_check [OF assms(2)] by simp
qed (use assms(2) in \<open>auto simp: control_inv_def close_step_def shared_error_def\<close>)

lemma webrtc_reachable_inv:
  assumes "webrtc_reachable sink w" "ws_queue_limit sink \<noteq> 0"
  shows "queue_inv sink w \<and> control_inv w"
  using assms(1) unfolding webrtc_reachable_def
proof (induction rule: rtranclp_induct)
  case base
  show ?case by (simp add: queue_inv_def control_inv_def webrtc_initial_def handled_def)
next
  case (step w w')
  then show ?case using queue_inv_step control_inv_step assms(2) by blast
qed

text \<open>A sink as \<open>new_configured\<close> makes it.\<close>

lemma new_configured_limit:
  "new_configured config limit policy = Inr (sink, config') \<Longrightarrow>
     ws_queue_limit sink = limit \<and> limit \<noteq> 0 \<and> ws_drop_policy sink = policy"
  by (auto simp: new_configured_def split: if_splits)

text \<open>
  However the pipeline loop and the sender interleave, the queue of a sink never holds more
  packets than its limit.
\<close>

theorem webrtc_queue_bounded:
  assumes "new_configured config limit policy = Inr (sink, config')" "webrtc_reachable sink w"
  shows "length (w_queue (shared w)) \<le> unat limit"
  using webrtc_reachable_inv [OF assms(2)] new_configured_limit [OF assms(1)]
  by (simp add: queue_inv_def)

definition example_config :: webrtc_sender_config where
  "example_config = \<lparr> sc_pipeline_id = ''cam'', sc_packet_size_limit = 1200,
     sc_default_frame_duration = None, sc_codec = ''h264'', sc_payload_type = 102, sc_ssrc = 7,
     sc_clock_rate = video_clock_rate \<rparr>"

definition example_sink :: "router_drop_policy \<Rightarrow> webrtc_sink" where
  "example_sink policy =
     \<lparr> ws_pipeline_id = ''cam'', ws_queue_limit = 1, ws_drop_policy = policy \<rparr>"

lemma example_new_configured:
  "new_configured example_config 1 policy = Inr (example_sink policy, example_config)"
  by (simp add: new_configured_def example_config_def example_sink_def)

text \<open>A run: one frame is put into the queue.\<close>

definition example_queued :: webrtc_world where
  "example_queued = webrtc_initial
     \<lparr> shared := (shared webrtc_initial)\<lparr> w_queue := [example_frame True 0] \<rparr>,
       accepted := [example_frame True 0], results := [Inr ()] \<rparr>"

lemma example_queued_reachable: "webrtc_reachable (example_sink policy) example_queued"
proof -
  let ?sink = "example_sink policy" and ?p = "example_frame True 0"
  let ?w1 = "webrtc_initial\<lparr> producer := Checking ?p \<rparr>"
  let ?w2 = "webrtc_initial\<lparr> producer := Enqueuing ?p \<rparr>"
  have "webrtc_step ?sink webrtc_initial (consume_step ?sink False (EncodedPacket ?p) webrtc_initial)"
    by (rule Consume) (simp add: webrtc_initial_def)
  then have 1: "webrtc_step ?sink webrtc_initial ?w1"
    by (simp add: consume_step_def install_metrics_def shared_error_def webrtc_initial_def)
  have "webrtc_step ?sink ?w1 (check_step ?p ?w1)" by (rule Check) simp
  then have 2: "webrtc_step ?sink ?w1 ?w2"
    by (simp add: check_step_def shared_error_def webrtc_initial_def)
  have "webrtc_step ?sink ?w2 (enqueue_step ?sink ?p ?w2)" by (rule Enqueue) simp
  then have 3: "webrtc_step ?sink ?w2 example_queued"
    by (simp add: enqueue_step_def enqueue_section_def reply_def example_sink_def example_queued_def
        webrtc_initial_def)
  from 1 2 3 show ?thesis
    unfolding webrtc_reachable_def by (meson rtranclp.rtrancl_into_rtrancl rtranclp.rtrancl_refl)
qed

theorem webrtc_queue_bounded_witness:
  "length (w_queue (shared example_queued)) \<le> unat (1 :: usize)"
  by (rule webrtc_queue_bounded [OF example_new_configured example_queued_reachable])

text \<open>
  Packets leave the queue in the order they entered it and none is lost or duplicated except by
  eviction: what was processed, what failed, what is in flight and what is queued, in this order, is
  a subsequence of what was accepted, the rest was evicted, and only the policy that drops the
  oldest evicts.
\<close>

theorem webrtc_queue_fifo:
  assumes "new_configured config limit policy = Inr (sink, config')" "webrtc_reachable sink w"
  shows "subseq (handled w) (accepted w) \<and> mset (accepted w) = mset (handled w) + mset (evicted w) \<and>
    (policy \<noteq> RouterDropOldest \<longrightarrow> handled w = accepted w)"
proof -
  have inv: "queue_inv sink w" "ws_drop_policy sink = policy"
    using webrtc_reachable_inv [OF assms(2)] new_configured_limit [OF assms(1)] by simp_all
  have "handled w = accepted w" if "policy \<noteq> RouterDropOldest"
  proof -
    from that inv have "mset (accepted w) = mset (handled w)" by (simp add: queue_inv_def)
    then have "length (accepted w) = length (handled w)" by (rule mset_eq_length)
    with inv show ?thesis by (simp add: queue_inv_def subseq_same_length)
  qed
  with inv show ?thesis by (simp add: queue_inv_def)
qed

theorem webrtc_queue_fifo_witness: "handled example_queued = accepted example_queued"
  using webrtc_queue_fifo [OF example_new_configured [of RouterBlock] example_queued_reachable] by simp

text \<open>
  A flush that reports success has sent every packet that was accepted and not evicted, in
  order; if it reports an error, it is the error of the sender and exactly one packet failed.
\<close>

theorem webrtc_flush_exact:
  assumes "new_configured config limit policy = Inr (sink, config')" "webrtc_reachable sink w"
    and "producer w = FlushedWith r"
  shows "case r of
      Inr _ \<Rightarrow> subseq (processed w) (accepted w) \<and>
        mset (accepted w) = mset (processed w) + mset (evicted w) \<and>
        (policy \<noteq> RouterDropOldest \<longrightarrow> processed w = accepted w)
    | Inl e \<Rightarrow> w_error (shared w) = Some e \<and> length (failed w) = 1"
proof -
  have inv: "queue_inv sink w" "control_inv w" "ws_drop_policy sink = policy"
    using webrtc_reachable_inv [OF assms(2)] new_configured_limit [OF assms(1)] by simp_all
  then have r: "sender w = SenderDone" "r = shared_error (shared w)"
    using assms(3) by (simp_all add: control_inv_def)
  show ?thesis
  proof (cases "w_error (shared w)")
    case None
    with inv(2) r have "failed w = []" "w_queue (shared w) = []" by (simp_all add: control_inv_def)
    with r have h: "handled w = processed w" by (simp add: handled_def)
    have "processed w = accepted w" if "policy \<noteq> RouterDropOldest"
    proof -
      from that inv h have "mset (accepted w) = mset (processed w)" by (simp add: queue_inv_def)
      then have "length (accepted w) = length (processed w)" by (rule mset_eq_length)
      with inv h show ?thesis by (simp add: queue_inv_def subseq_same_length)
    qed
    with None r inv h show ?thesis by (simp add: shared_error_def queue_inv_def)
  next
    case (Some e)
    with inv(2) have "failed w \<noteq> []" "length (failed w) \<le> 1" by (simp_all add: control_inv_def)
    then have "length (failed w) = 1" by (cases "failed w") simp_all
    with Some r show ?thesis by (simp add: shared_error_def)
  qed
qed

definition example_flushed :: webrtc_world where
  "example_flushed = webrtc_initial
     \<lparr> shared := (shared webrtc_initial)\<lparr> w_closed := True \<rparr>,
       producer := FlushedWith (Inr ()), sender := SenderDone \<rparr>"

lemma example_flushed_reachable: "webrtc_reachable (example_sink policy) example_flushed"
proof -
  let ?sink = "example_sink policy"
  let ?w1 = "webrtc_initial\<lparr> producer := Closing \<rparr>"
  let ?w2 = "close_step ?w1"
  let ?w3 = "?w2\<lparr> sender := SenderDone \<rparr>"
  have "webrtc_step ?sink webrtc_initial (consume_step ?sink False EndOfStream webrtc_initial)"
    by (rule Consume) (simp add: webrtc_initial_def)
  then have 1: "webrtc_step ?sink webrtc_initial ?w1"
    by (simp add: consume_step_def install_metrics_def shared_error_def webrtc_initial_def)
  have 2: "webrtc_step ?sink ?w1 ?w2" by (rule Close) simp
  have "webrtc_step ?sink ?w2 (dequeue_step ?w2)"
    by (rule Dequeue) (simp add: close_step_def webrtc_initial_def)
  then have 3: "webrtc_step ?sink ?w2 ?w3"
    by (simp add: dequeue_step_def dequeue_section_def close_step_def webrtc_initial_def)
  have "webrtc_step ?sink ?w3 (?w3\<lparr> producer := FlushedWith (shared_error (shared ?w3)) \<rparr>)"
    by (rule Flush) (simp_all add: close_step_def)
  then have 4: "webrtc_step ?sink ?w3 example_flushed"
    by (simp add: example_flushed_def close_step_def shared_error_def webrtc_initial_def)
  from 1 2 3 4 show ?thesis
    unfolding webrtc_reachable_def by (meson rtranclp.rtrancl_into_rtrancl rtranclp.rtrancl_refl)
qed

theorem webrtc_flush_exact_witness: "processed example_flushed = accepted example_flushed"
proof -
  have "producer example_flushed = FlushedWith (Inr ())" by (simp add: example_flushed_def)
  from webrtc_flush_exact [OF example_new_configured [of RouterBlock] example_flushed_reachable this]
  show ?thesis by simp
qed

section \<open>Time stamps\<close>

lemma unat_div_word: "unat (a div b) = unat a div unat b" for a b :: "'a::len word"
  by (simp add: unat_div)

text \<open>
  The number of RTP samples of a frame is its duration times the clock rate, rounded down but
  at least 1 and at most the largest \<open>u32\<close>, for every duration there is: the multiplication never
  saturates and the cast never wraps.
\<close>

theorem rtp_samples_exact:
  assumes "d \<le> duration_max"
  shows "unat (duration_to_rtp_samples_with_rate d rate) =
    min (max (d * unat rate div 1000000000) 1) (2 ^ 32 - 1)"
proof -
  have r: "unat rate < 2 ^ 32" using unsigned_less [of rate, where ?'a = nat] by simp
  have d: "d < 2 ^ 94" using assms by (simp add: duration_max_def)
  have "d * unat rate < 2 ^ 94 * 2 ^ 32" using d r by (intro mult_strict_mono) simp_all
  then have dr: "d * unat rate < 2 ^ 128" by (rule less_trans) simp
  have n: "unat (of_nat d :: u128) = d" using d by (simp add: unat_of_nat take_bit_nat_eq_self)
  have u: "unat (ucast rate :: u128) = unat rate" using r by (simp add: unsigned_ucast_eq take_bit_nat_eq_self)
  have "unat (saturating_mul (of_nat d :: u128) (ucast rate)) = d * unat rate"
    using dr by (simp add: unat_saturating_mul n u)
  then have s: "unat (saturating_mul (of_nat d :: u128) (ucast rate) div 1000000000) = d * unat rate div 1000000000"
    by (simp add: unat_div_word)
  define x where "x = saturating_mul (of_nat d :: u128) (ucast rate) div 1000000000"
  have m: "unat (ucast (- 1 :: u32) :: u128) = 2 ^ 32 - 1"
    by (simp add: unsigned_ucast_eq unat_max_word take_bit_nat_eq_self)
  have c: "unat (min (max x 1) (ucast (- 1 :: u32))) = min (max (unat x) 1) (2 ^ 32 - 1)"
    by (simp add: min_def max_def word_le_nat_alt m)
  have "unat (ucast (min (max x 1) (ucast (- 1 :: u32))) :: u32) = unat (min (max x 1) (ucast (- 1 :: u32)))"
    unfolding unsigned_ucast_eq by (rule take_bit_nat_eq_self) (simp add: c)
  with c s show ?thesis by (simp add: duration_to_rtp_samples_with_rate_def Let_def x_def)
qed

theorem rtp_samples_exact_witness:
  "unat (duration_to_rtp_samples_with_rate 40000000 video_clock_rate) = 3600"
  using rtp_samples_exact [of 40000000 video_clock_rate]
  by (simp add: duration_max_def video_clock_rate_def)

section \<open>Building the sink\<close>

lemma output_ssrc_number: "output_ssrc hash pid (Some (show_unsigned n)) = n"
proof -
  have "hd (show_unsigned n) = CHR ''s'' \<Longrightarrow> False"
    using hd_show_nat [of "unat n"] by (simp add: show_unsigned_def is_ascii_digit_def)
  then have "show_unsigned n \<noteq> ''stable''" by auto
  then show ?thesis by (simp add: output_ssrc_def)
qed

end
