(* ===== verification/Caml_Adapters.thy ===== *)
theory Caml_Adapters
  imports Caml_Webrtc Caml_Runtime
begin

text \<open>
  How a pipeline is put together from its adapters: \<open>RuntimeAdapters\<close> of
  \<^verbatim>\<open>crates/caml-core/src/runtime.rs\<close>, \<open>BuiltinAdapters\<close> of \<^verbatim>\<open>src/adapters.rs\<close>, and one run of a
  pipeline with its buffer pool (\<open>run_pipeline_once\<close>).

  Sources, WebRTC tracks and camera providers are objects of other crates, so they are type
  variables. The crate's features are a record; a field that a feature removes is empty without it.
\<close>

section \<open>The adapters of the core crate\<close>

record ('source, 'transform, 'sink) pipeline_stages =
  ps_source :: 'source
  ps_transforms :: "'transform list"
  ps_sink :: 'sink

definition noop_transforms :: "compiled_pipeline \<Rightarrow> runtime_error + 'transform list" where
  "noop_transforms pipeline = Inr []"

record ('source, 'transform, 'sink) runtime_adapters =
  ra_source :: "compiled_pipeline \<Rightarrow> runtime_error + 'source"
  ra_transforms :: "compiled_pipeline \<Rightarrow> runtime_error + 'transform list"
  ra_sink :: "compiled_pipeline \<Rightarrow> runtime_error + 'sink"

definition runtime_adapters_new ::
  "(compiled_pipeline \<Rightarrow> runtime_error + 'source) \<Rightarrow> (compiled_pipeline \<Rightarrow> runtime_error + 'sink)
     \<Rightarrow> ('source, 'transform, 'sink) runtime_adapters" where
  "runtime_adapters_new source sink =
     \<lparr> ra_source = source, ra_transforms = noop_transforms, ra_sink = sink \<rparr>"

definition with_transform_factory ::
  "(compiled_pipeline \<Rightarrow> runtime_error + 'transform list)
     \<Rightarrow> ('source, 'transform, 'sink) runtime_adapters \<Rightarrow> ('source, 'transform, 'sink) runtime_adapters" where
  "with_transform_factory f a = a\<lparr> ra_transforms := f \<rparr>"

definition adapters_build_pipeline ::
  "('source, 'transform, 'sink) runtime_adapters \<Rightarrow> compiled_pipeline
     \<Rightarrow> runtime_error + ('source, 'transform, 'sink) pipeline_stages" where
  "adapters_build_pipeline a pipeline =
     res_bind (ra_source a pipeline) (\<lambda>source.
     res_bind (ra_transforms a pipeline) (\<lambda>transforms.
     res_bind (ra_sink a pipeline) (\<lambda>sink.
       Inr \<lparr> ps_source = source, ps_transforms = transforms, ps_sink = sink \<rparr>)))"

section \<open>One run of a pipeline\<close>

definition high_watermark_bytes :: "store \<Rightarrow> nat" where
  "high_watermark_bytes st = st_high_watermark (stats st) * buffer_size st"

definition pipeline_pool :: "compiled_pipeline \<Rightarrow> store" where
  "pipeline_pool p =
     preallocate (unat (rt_buffer_count (cpl_runtime p))) (pool_new (unat (rt_buffer_size (cpl_runtime p))))"

text \<open>
  \<open>run_pipeline_once\<close>: what source, transforms and sink do to the pool during the run is \<open>stages\<close>.
  The result is the exit, the effects, and the memory the metrics are told of.
\<close>

definition run_pipeline_once ::
  "compiled_pipeline \<Rightarrow> bool \<Rightarrow> tick list \<Rightarrow> (store \<Rightarrow> store)
     \<Rightarrow> pipeline_loop_exit option \<times> effect list \<times> (str \<times> nat) option" where
  "run_pipeline_once p metrics ticks stages =
     (let pool = pipeline_pool p; (result, effects) = run_pipeline_loop p metrics ticks
      in (result, effects,
          if metrics \<and> result \<noteq> None then Some (cpl_id p, high_watermark_bytes (stages pool)) else None))"

section \<open>The adapters of the facade crate\<close>

record features =
  feat_ffmpeg :: bool
  feat_webrtc :: bool
  feat_pi :: bool

text \<open>
  The FFmpeg source factory has no state. \<open>recording\<close> names the shared list of recorded packets;
  without it every recording output gets a list of its own, which nobody can read.
\<close>

record ('track, 'provider, 'recording) builtin_adapters =
  ba_ffmpeg_source :: bool
  ba_libcamera_source :: "'provider option"
  ba_webrtc_sinks :: "str \<rightharpoonup> 'track"
  ba_recording_packets :: "'recording option"

definition default_adapters :: "('track, 'provider, 'recording) builtin_adapters" where
  "default_adapters =
     \<lparr> ba_ffmpeg_source = False, ba_libcamera_source = None, ba_webrtc_sinks = Map.empty,
       ba_recording_packets = None \<rparr>"

datatype ('track, 'recording) output_sink =
    RecordingTo "'recording option"
  | WebrtcTo 'track webrtc_sink webrtc_sender_config

datatype ('track, 'recording) built_sink =
    NullSink
  | SingleSink "('track, 'recording) output_sink"
  | FanoutSink "('track, 'recording) output_sink sink_actor list"

text \<open>The two source factories, as what they build for a pipeline.\<close>

record ('provider, 'source) source_builders =
  sb_ffmpeg :: "compiled_pipeline \<Rightarrow> runtime_error + 'source"
  sb_libcamera :: "'provider \<Rightarrow> compiled_pipeline \<Rightarrow> runtime_error + 'source"

definition builtin_source ::
  "features \<Rightarrow> ('provider, 'source) source_builders \<Rightarrow> ('track, 'provider, 'recording) builtin_adapters
     \<Rightarrow> compiled_pipeline \<Rightarrow> runtime_error + 'source" where
  "builtin_source fs sb a pipeline =
     (case cpl_resolved_backend pipeline of
        LibcameraDevice \<Rightarrow>
          if feat_pi fs
          then (case ba_libcamera_source a of
                  Some provider \<Rightarrow> sb_libcamera sb provider pipeline
                | None \<Rightarrow> Inl (Adapter ''libcamera provider factory not configured''))
          else Inl (Adapter ''pi feature is disabled'')
      | _ \<Rightarrow>
          if feat_ffmpeg fs
          then (if ba_ffmpeg_source a then sb_ffmpeg sb pipeline
                else Inl (Adapter ''ffmpeg source factory not configured''))
          else Inl (Adapter ''ffmpeg feature is disabled''))"

fun builtin_output ::
  "features \<Rightarrow> (str \<Rightarrow> u64) \<Rightarrow> ('track, 'provider, 'recording) builtin_adapters \<Rightarrow> compiled_pipeline
     \<Rightarrow> output_profile \<Rightarrow> runtime_error + ('track, 'recording) output_sink sink_actor_config" where
  "builtin_output fs hash a pipeline (Recording queue_limit policy) =
     Inr \<lparr> sac_sink = RecordingTo (ba_recording_packets a), sac_queue_limit = unwrap_or 100 queue_limit,
           sac_drop_policy = router_policy policy \<rparr>"
| "builtin_output fs hash a pipeline (WebrtcRtp codec payload_type mtu ssrc clock_rate queue_limit policy) =
     (if feat_webrtc fs
      then (case ba_webrtc_sinks a (cpl_id pipeline) of
              Some track \<Rightarrow>
                res_bind (build_sink hash pipeline) (\<lambda>(sink, config).
                  Inr \<lparr> sac_sink = WebrtcTo track sink config, sac_queue_limit = unwrap_or 10 queue_limit,
                        sac_drop_policy = router_policy policy \<rparr>)
            | None \<Rightarrow> Inl (Adapter (''no webrtc sink configured for pipeline '' @ cpl_id pipeline)))
      else Inl (Adapter ''webrtc feature is disabled''))"

definition select_sink ::
  "('track, 'recording) output_sink sink_actor_config list \<Rightarrow> ('track, 'recording) built_sink option" where
  "select_sink configs =
     (case configs of
        [] \<Rightarrow> Some NullSink
      | [config] \<Rightarrow> Some (SingleSink (sac_sink config))
      | _ \<Rightarrow> map_option FanoutSink (fanout_new configs))"

text \<open>\<open>BuiltinAdapters::build_pipeline\<close>; \<open>None\<close> is the panic of a router with an impossible queue.\<close>

definition builtin_build_pipeline ::
  "features \<Rightarrow> (str \<Rightarrow> u64) \<Rightarrow> ('provider, 'source) source_builders
     \<Rightarrow> ('track, 'provider, 'recording) builtin_adapters \<Rightarrow> compiled_pipeline
     \<Rightarrow> (runtime_error + ('source, unit, ('track, 'recording) built_sink) pipeline_stages) option" where
  "builtin_build_pipeline fs hash sb a pipeline =
     (case builtin_source fs sb a pipeline of
        Inl error \<Rightarrow> Some (Inl error)
      | Inr source \<Rightarrow>
          (case try_map (builtin_output fs hash a pipeline) (cpl_outputs pipeline) of
             Inl error \<Rightarrow> Some (Inl error)
           | Inr configs \<Rightarrow>
               map_option (\<lambda>sink. Inr \<lparr> ps_source = source, ps_transforms = [], ps_sink = sink \<rparr>)
                 (select_sink configs)))"

end
