(* ===== verification/Caml_Builder.thy ===== *)
theory Caml_Builder
  imports Caml_Adapters
begin

text \<open>
  \<^verbatim>\<open>src/builder.rs\<close>: the two builders of the facade crate. \<open>RuntimeBuilder\<close> collects a manifest, a
  probe, adapters and metrics and starts the engine; \<open>CamlPipelineBuilder\<close> compiles first, checks
  that what the graph needs was supplied, and hands over to the former. Opening a file is its
  result; the URL parser and the YAML deserialiser are those of the front end.
\<close>

section \<open>Errors\<close>

datatype runtime_builder_error =
    BuilderIo str
  | BuilderManifest manifest_error
  | BuilderCompile compile_error
  | BuilderRuntime runtime_error
  | MissingManifest
  | MissingRuntimeFactory

fun runtime_builder_error_display :: "runtime_builder_error \<Rightarrow> str" where
  "runtime_builder_error_display (BuilderIo e) = ''failed to open runtime input: '' @ e"
| "runtime_builder_error_display (BuilderManifest e) = manifest_error_display e"
| "runtime_builder_error_display (BuilderCompile e) = compile_error_display e"
| "runtime_builder_error_display (BuilderRuntime e) = runtime_error_display e"
| "runtime_builder_error_display MissingManifest =
     ''a manifest or compiled graph is required before compile/start''"
| "runtime_builder_error_display MissingRuntimeFactory =
     ''runtime factory is required before starting the graph''"

datatype caml_error =
    CamlManifestError manifest_error
  | CamlCompileError compile_error
  | CamlRuntimeError runtime_error
  | CamlBuilderError runtime_builder_error
  | MissingCapabilityProbe hardware_target
  | MissingWebRtcTrack str
  | MissingLibcameraProvider str
  | MissingAdapter str str
  | UnsupportedOutput str str

fun hardware_target_debug :: "hardware_target \<Rightarrow> str" where
  "hardware_target_debug RaspberryPi4 = ''RaspberryPi4''"
| "hardware_target_debug RaspberryPi5 = ''RaspberryPi5''"
| "hardware_target_debug GenericLinux = ''GenericLinux''"

fun caml_error_display :: "caml_error \<Rightarrow> str" where
  "caml_error_display (CamlManifestError e) = manifest_error_display e"
| "caml_error_display (CamlCompileError e) = compile_error_display e"
| "caml_error_display (CamlRuntimeError e) = runtime_error_display e"
| "caml_error_display (CamlBuilderError e) = runtime_builder_error_display e"
| "caml_error_display (MissingCapabilityProbe target) =
     ''missing capability probe for hardware target '' @ hardware_target_debug target"
| "caml_error_display (MissingWebRtcTrack pid) = ''missing WebRTC track for pipeline '' @ pid"
| "caml_error_display (MissingLibcameraProvider pid) =
     ''missing libcamera provider factory for pipeline '' @ pid"
| "caml_error_display (MissingAdapter pid backend) =
     ''missing adapter for pipeline '' @ pid @ '', backend '' @ backend"
| "caml_error_display (UnsupportedOutput pid output) =
     ''unsupported output for pipeline '' @ pid @ '': '' @ output"

section \<open>\<open>RuntimeBuilder\<close>\<close>

datatype ('track, 'provider, 'recording, 'custom) runtime_factory =
    BuiltinFactory "('track, 'provider, 'recording) builtin_adapters"
  | CustomFactory 'custom

record ('track, 'provider, 'recording, 'custom, 'metrics) runtime_builder =
  rb_manifest :: "caml_manifest option"
  rb_compiled :: "compiled_graph option"
  rb_capability_probe :: "capability_probe option"
  rb_runtime_factory :: "('track, 'provider, 'recording, 'custom) runtime_factory option"
  rb_webrtc_tracks :: "str \<rightharpoonup> 'track"
  rb_libcamera_provider :: "'provider option"
  rb_metrics :: "'metrics option"
  rb_overlay_variables :: "str \<rightharpoonup> str"

definition builder_new :: "('track, 'provider, 'recording, 'custom, 'metrics) runtime_builder" where
  "builder_new =
     \<lparr> rb_manifest = None, rb_compiled = None, rb_capability_probe = None, rb_runtime_factory = None,
       rb_webrtc_tracks = Map.empty, rb_libcamera_provider = None, rb_metrics = None,
       rb_overlay_variables = Map.empty \<rparr>"

type_synonym ('t, 'p, 'r, 'c, 'm) builder_step =
  "('t, 'p, 'r, 'c, 'm) runtime_builder \<Rightarrow> ('t, 'p, 'r, 'c, 'm) runtime_builder"

definition with_manifest :: "caml_manifest \<Rightarrow> ('t, 'p, 'r, 'c, 'm) builder_step" where
  "with_manifest manifest b = b\<lparr> rb_manifest := Some manifest \<rparr>"

definition from_manifest :: "caml_manifest \<Rightarrow> ('t, 'p, 'r, 'c, 'm) runtime_builder" where
  "from_manifest manifest = with_manifest manifest builder_new"

definition builder_from_yaml_str ::
  "(str \<Rightarrow> str + caml_manifest) \<Rightarrow> url_parser \<Rightarrow> str
     \<Rightarrow> runtime_builder_error + ('t, 'p, 'r, 'c, 'm) runtime_builder" where
  "builder_from_yaml_str yaml url_parse input =
     res_bind (map_err BuilderManifest (from_yaml_str yaml url_parse input)) (\<lambda>m. Inr (from_manifest m))"

definition builder_from_reader ::
  "(str \<Rightarrow> str + caml_manifest) \<Rightarrow> url_parser \<Rightarrow> str + str
     \<Rightarrow> runtime_builder_error + ('t, 'p, 'r, 'c, 'm) runtime_builder" where
  "builder_from_reader yaml url_parse raw =
     res_bind (map_err BuilderManifest (from_reader yaml url_parse raw)) (\<lambda>m. Inr (from_manifest m))"

text \<open>\<open>file\<close> is the result of opening the path: what reading the file will give.\<close>

definition builder_from_path ::
  "(str \<Rightarrow> str + caml_manifest) \<Rightarrow> url_parser \<Rightarrow> str + (str + str)
     \<Rightarrow> runtime_builder_error + ('t, 'p, 'r, 'c, 'm) runtime_builder" where
  "builder_from_path yaml url_parse file =
     res_bind (map_err BuilderIo file) (builder_from_reader yaml url_parse)"

definition with_compiled_graph :: "compiled_graph \<Rightarrow> ('t, 'p, 'r, 'c, 'm) builder_step" where
  "with_compiled_graph compiled b = b\<lparr> rb_compiled := Some compiled \<rparr>"

definition with_capability_probe :: "capability_probe \<Rightarrow> ('t, 'p, 'r, 'c, 'm) builder_step" where
  "with_capability_probe probe b = b\<lparr> rb_capability_probe := Some probe \<rparr>"

text \<open>
  What the features probe: FFmpeg and Linux look at the host, WebRTC only says that it packetizes
  (\<open>webrtc_capabilities\<close> of \<^verbatim>\<open>crates/caml-webrtc/src/lib.rs\<close>).
\<close>

definition webrtc_capabilities :: capability_probe where
  "webrtc_capabilities = static_probe (default_capabilities\<lparr> rtp_packetization_available := True \<rparr>)"

definition feature_probes ::
  "features \<Rightarrow> capability_probe \<Rightarrow> capability_probe \<Rightarrow> capability_probe list" where
  "feature_probes fs ffmpeg linux =
     (if feat_ffmpeg fs then [ffmpeg] else []) @ (if feat_webrtc fs then [webrtc_capabilities] else []) @
     (if feat_pi fs then [linux] else [])"

definition with_feature_capability_probe ::
  "features \<Rightarrow> capability_probe \<Rightarrow> capability_probe \<Rightarrow> ('t, 'p, 'r, 'c, 'm) builder_step" where
  "with_feature_capability_probe fs ffmpeg linux b =
     b\<lparr> rb_capability_probe := Some (composite_probe (feature_probes fs ffmpeg linux)) \<rparr>"

definition with_webrtc_track :: "str \<Rightarrow> 't \<Rightarrow> ('t, 'p, 'r, 'c, 'm) builder_step" where
  "with_webrtc_track pid track b = b\<lparr> rb_webrtc_tracks := (rb_webrtc_tracks b)(pid \<mapsto> track) \<rparr>"

definition with_libcamera_provider_factory :: "'p \<Rightarrow> ('t, 'p, 'r, 'c, 'm) builder_step" where
  "with_libcamera_provider_factory provider b = b\<lparr> rb_libcamera_provider := Some provider \<rparr>"

text \<open>The adapters are a snapshot of what the builder holds at this moment.\<close>

definition feature_adapters ::
  "features \<Rightarrow> (str \<rightharpoonup> 't) \<Rightarrow> 'p option \<Rightarrow> ('t, 'p, 'r) builtin_adapters" where
  "feature_adapters fs tracks provider =
     (let a1 = (if feat_ffmpeg fs then default_adapters\<lparr> ba_ffmpeg_source := True \<rparr> else default_adapters);
          a2 = (if feat_pi fs
                then (case provider of Some p \<Rightarrow> a1\<lparr> ba_libcamera_source := Some p \<rparr> | None \<Rightarrow> a1)
                else a1)
      in if feat_webrtc fs then a2\<lparr> ba_webrtc_sinks := ba_webrtc_sinks a2 ++ tracks \<rparr> else a2)"

definition with_feature_media_adapters :: "features \<Rightarrow> ('t, 'p, 'r, 'c, 'm) builder_step" where
  "with_feature_media_adapters fs b =
     b\<lparr> rb_runtime_factory :=
          Some (BuiltinFactory (feature_adapters fs (rb_webrtc_tracks b) (rb_libcamera_provider b))) \<rparr>"

definition with_runtime_factory :: "'c \<Rightarrow> ('t, 'p, 'r, 'c, 'm) builder_step" where
  "with_runtime_factory factory b = b\<lparr> rb_runtime_factory := Some (CustomFactory factory) \<rparr>"

definition with_metrics_exporter :: "'m \<Rightarrow> ('t, 'p, 'r, 'c, 'm) builder_step" where
  "with_metrics_exporter metrics b = b\<lparr> rb_metrics := Some metrics \<rparr>"

definition with_overlay_variable :: "str \<Rightarrow> str \<Rightarrow> ('t, 'p, 'r, 'c, 'm) builder_step" where
  "with_overlay_variable key v b = b\<lparr> rb_overlay_variables := (rb_overlay_variables b)(key \<mapsto> v) \<rparr>"

definition with_overlay_variables :: "(str \<times> str) list \<Rightarrow> ('t, 'p, 'r, 'c, 'm) builder_step" where
  "with_overlay_variables variables b = foldl (\<lambda>b (key, v). with_overlay_variable key v b) b variables"

definition compile_manifest ::
  "caml_manifest \<Rightarrow> capability_probe option \<Rightarrow> (str \<rightharpoonup> str) \<Rightarrow> compile_error + compiled_graph" where
  "compile_manifest manifest probe variables =
     (case probe of
        Some p \<Rightarrow> compile_with_probe_and_overlay_variables manifest p variables
      | None \<Rightarrow> compile_with_overlay_variables manifest variables)"

definition builder_compile ::
  "('t, 'p, 'r, 'c, 'm) runtime_builder \<Rightarrow> runtime_builder_error + ('t, 'p, 'r, 'c, 'm) runtime_builder" where
  "builder_compile b =
     (if rb_compiled b = None
      then res_bind (ok_or MissingManifest (rb_manifest b)) (\<lambda>manifest.
           res_bind (map_err BuilderCompile
               (compile_manifest manifest (rb_capability_probe b) (rb_overlay_variables b))) (\<lambda>compiled.
             Inr (b\<lparr> rb_compiled := Some compiled \<rparr>)))
      else Inr b)"

text \<open>What the engine is started with; starting it does not fail.\<close>

record ('t, 'p, 'r, 'c, 'm) runtime_handle =
  rh_graph :: compiled_graph
  rh_factory :: "('t, 'p, 'r, 'c) runtime_factory"
  rh_metrics :: "'m option"
  rh_inner :: runtime_inner

definition builder_start ::
  "('t, 'p, 'r, 'c, 'm) runtime_builder \<Rightarrow> runtime_builder_error + ('t, 'p, 'r, 'c, 'm) runtime_handle" where
  "builder_start b =
     res_bind (case rb_compiled b of
         Some compiled \<Rightarrow> Inr compiled
       | None \<Rightarrow>
           res_bind (ok_or MissingManifest (rb_manifest b)) (\<lambda>manifest.
             map_err BuilderCompile
               (compile_manifest manifest (rb_capability_probe b) (rb_overlay_variables b))))
       (\<lambda>compiled. res_bind (ok_or MissingRuntimeFactory (rb_runtime_factory b)) (\<lambda>factory.
         Inr \<lparr> rh_graph = compiled, rh_factory = factory, rh_metrics = rb_metrics b,
               rh_inner = start compiled \<rparr>))"

section \<open>\<open>CamlPipelineBuilder\<close>\<close>

record ('t, 'p, 'm) pipeline_builder =
  pb_manifest :: caml_manifest
  pb_capability_probe :: "capability_probe option"
  pb_webrtc_tracks :: "str \<rightharpoonup> 't"
  pb_libcamera_provider :: "'p option"
  pb_use_native_adapters :: bool
  pb_metrics :: "'m option"
  pb_overlay_variables :: "str \<rightharpoonup> str"

definition pipeline_builder_new :: "caml_manifest \<Rightarrow> ('t, 'p, 'm) pipeline_builder" where
  "pipeline_builder_new manifest =
     \<lparr> pb_manifest = manifest, pb_capability_probe = None, pb_webrtc_tracks = Map.empty,
       pb_libcamera_provider = None, pb_use_native_adapters = False, pb_metrics = None,
       pb_overlay_variables = Map.empty \<rparr>"

definition from_manifest_str ::
  "(str \<Rightarrow> str + caml_manifest) \<Rightarrow> url_parser \<Rightarrow> str \<Rightarrow> caml_error + ('t, 'p, 'm) pipeline_builder" where
  "from_manifest_str yaml url_parse input =
     res_bind (map_err CamlManifestError (from_yaml_str yaml url_parse input))
       (\<lambda>m. Inr (pipeline_builder_new m))"

definition from_manifest_file ::
  "(str \<Rightarrow> str + caml_manifest) \<Rightarrow> url_parser \<Rightarrow> str + (str + str)
     \<Rightarrow> caml_error + ('t, 'p, 'm) pipeline_builder" where
  "from_manifest_file yaml url_parse file =
     res_bind (map_err (\<lambda>e. CamlManifestError (Io e)) file) (\<lambda>raw.
       res_bind (map_err CamlManifestError (from_reader yaml url_parse raw))
         (\<lambda>m. Inr (pipeline_builder_new m)))"

type_synonym ('t, 'p, 'm) pipeline_builder_step =
  "('t, 'p, 'm) pipeline_builder \<Rightarrow> ('t, 'p, 'm) pipeline_builder"

definition pb_with_capability_probe :: "capability_probe \<Rightarrow> ('t, 'p, 'm) pipeline_builder_step" where
  "pb_with_capability_probe probe b = b\<lparr> pb_capability_probe := Some probe \<rparr>"

definition pb_with_feature_capability_probe ::
  "features \<Rightarrow> capability_probe \<Rightarrow> capability_probe \<Rightarrow> ('t, 'p, 'm) pipeline_builder_step" where
  "pb_with_feature_capability_probe fs ffmpeg linux b =
     b\<lparr> pb_capability_probe := Some (composite_probe (feature_probes fs ffmpeg linux)) \<rparr>"

definition pb_with_webrtc_track :: "str \<Rightarrow> 't \<Rightarrow> ('t, 'p, 'm) pipeline_builder_step" where
  "pb_with_webrtc_track pid track b = b\<lparr> pb_webrtc_tracks := (pb_webrtc_tracks b)(pid \<mapsto> track) \<rparr>"

definition pb_with_libcamera_provider_factory :: "'p \<Rightarrow> ('t, 'p, 'm) pipeline_builder_step" where
  "pb_with_libcamera_provider_factory provider b = b\<lparr> pb_libcamera_provider := Some provider \<rparr>"

definition pb_with_native_adapters :: "('t, 'p, 'm) pipeline_builder_step" where
  "pb_with_native_adapters b = b\<lparr> pb_use_native_adapters := True \<rparr>"

definition pb_with_metrics_exporter :: "'m \<Rightarrow> ('t, 'p, 'm) pipeline_builder_step" where
  "pb_with_metrics_exporter metrics b = b\<lparr> pb_metrics := Some metrics \<rparr>"

definition pb_with_overlay_variable :: "str \<Rightarrow> str \<Rightarrow> ('t, 'p, 'm) pipeline_builder_step" where
  "pb_with_overlay_variable key v b =
     b\<lparr> pb_overlay_variables := (pb_overlay_variables b)(key \<mapsto> v) \<rparr>"

definition pb_with_overlay_variables :: "(str \<times> str) list \<Rightarrow> ('t, 'p, 'm) pipeline_builder_step" where
  "pb_with_overlay_variables variables b = foldl (\<lambda>b (key, v). pb_with_overlay_variable key v b) b variables"

text \<open>What a compiled pipeline needs that only the caller can supply.\<close>

definition check_pipeline ::
  "features \<Rightarrow> ('t, 'p, 'm) pipeline_builder \<Rightarrow> compiled_pipeline \<Rightarrow> caml_error + unit" where
  "check_pipeline fs b pipeline =
     res_bind
       (if list_ex is_webrtc_output (cpl_outputs pipeline)
        then (if feat_webrtc fs
              then (if pb_webrtc_tracks b (cpl_id pipeline) = None
                    then Inl (MissingWebRtcTrack (cpl_id pipeline)) else Inr ())
              else Inl (UnsupportedOutput (cpl_id pipeline) ''webrtc_rtp''))
        else Inr ())
       (\<lambda>_. if cpl_resolved_backend pipeline = LibcameraDevice
            then (if feat_pi fs
                  then (if pb_libcamera_provider b = None
                        then Inl (MissingLibcameraProvider (cpl_id pipeline)) else Inr ())
                  else Inl (MissingAdapter (cpl_id pipeline) ''libcamera''))
            else Inr ())"

definition compile_for_start :: "('t, 'p, 'm) pipeline_builder \<Rightarrow> caml_error + compiled_graph" where
  "compile_for_start b =
     (case pb_capability_probe b of
        Some probe \<Rightarrow> map_err CamlCompileError
          (compile_with_probe_and_overlay_variables (pb_manifest b) probe (pb_overlay_variables b))
      | None \<Rightarrow>
          if sc_hardware_target (cm_system (pb_manifest b)) \<noteq> GenericLinux
          then Inl (MissingCapabilityProbe (sc_hardware_target (cm_system (pb_manifest b))))
          else map_err CamlCompileError
            (compile_with_overlay_variables (pb_manifest b) (pb_overlay_variables b)))"

text \<open>
  The \<open>RuntimeBuilder\<close> that \<open>start\<close> prepares: graph and metrics, and with native adapters also the
  tracks and the provider, before the adapters take their snapshot of them.
\<close>

definition prepared_builder ::
  "features \<Rightarrow> ('t, 'p, 'm) pipeline_builder \<Rightarrow> compiled_graph \<Rightarrow> ('t, 'p, 'r, 'c, 'm) runtime_builder" where
  "prepared_builder fs b compiled =
     (let b0 = with_compiled_graph compiled builder_new;
          b1 = (case pb_metrics b of Some m \<Rightarrow> with_metrics_exporter m b0 | None \<Rightarrow> b0)
      in if pb_use_native_adapters b
         then (let b2 = (if feat_webrtc fs
                   then b1\<lparr> rb_webrtc_tracks := rb_webrtc_tracks b1 ++ pb_webrtc_tracks b \<rparr> else b1);
                   b3 = (if feat_pi fs
                   then (case pb_libcamera_provider b of
                           Some p \<Rightarrow> with_libcamera_provider_factory p b2 | None \<Rightarrow> b2) else b2)
               in if feat_ffmpeg fs \<or> feat_pi fs \<or> feat_webrtc fs
                  then with_feature_media_adapters fs b3 else b3)
         else b1)"

definition pipeline_builder_start ::
  "features \<Rightarrow> ('t, 'p, 'm) pipeline_builder \<Rightarrow> caml_error + ('t, 'p, 'r, 'c, 'm) runtime_handle" where
  "pipeline_builder_start fs b =
     res_bind (compile_for_start b) (\<lambda>compiled.
       res_bind (try_each (check_pipeline fs b) (cg_pipelines compiled)) (\<lambda>_.
         map_err CamlBuilderError (builder_start (prepared_builder fs b compiled))))"

end
