(* ===== verification/Caml_Assembly_Correct.thy ===== *)
theory Caml_Assembly_Correct
  imports Caml_Builder Caml_Compiler_Correct Caml_Pool_Correct Caml_Runtime_Correct
begin

text \<open>
  How the parts fit together: the pools of a started graph are the planned ones and fit the memory
  limit, and what the pipeline builder checks before it starts a graph is what its adapters need.
\<close>

section \<open>Pools and the memory limit\<close>

lemma vec_alloc_inner: "inner (snd (vec_alloc cap d st)) = inner st"
  "buffer_size (snd (vec_alloc cap d st)) = buffer_size st"
  by (simp_all add: vec_alloc_def)

lemma preallocate_loop_counts:
  "allocated_count (inner (preallocate_loop n st)) = allocated_count (inner st) \<and>
   high_watermark (inner (preallocate_loop n st)) = high_watermark (inner st) \<and>
   buffer_size (preallocate_loop n st) = buffer_size st \<and>
   length (free (preallocate_loop n st)) = length (free st) + n"
proof (induction n arbitrary: st)
  case (Suc n)
  obtain v st1 where v: "vec_alloc (buffer_size st) [] st = (v, st1)" by fastforce
  have "inner st1 = inner st" "buffer_size st1 = buffer_size st"
    using vec_alloc_inner [of "buffer_size st" "[]" st] by (simp_all add: v)
  with Suc v show ?case by (simp add: Let_def set_free_def set_slots_def)
qed simp

lemma pipeline_pool_bytes:
  "high_watermark_bytes (pipeline_pool p) =
     unat (rt_buffer_count (cpl_runtime p)) * max (unat (rt_buffer_size (cpl_runtime p))) 1"
  using preallocate_loop_counts [of "unat (rt_buffer_count (cpl_runtime p))"
      "pool_new (unat (rt_buffer_size (cpl_runtime p)))"]
  by (simp add: high_watermark_bytes_def pipeline_pool_def preallocate_def count_allocated_def
      set_counts_def stats_def pool_new_def Let_def)

lemma sum_list_member_le: "x \<in> set xs \<Longrightarrow> f x \<le> sum_list (map f xs)" for f :: "'a \<Rightarrow> nat"
  by (induction xs) auto

text \<open>An example: one device without outputs.\<close>

lemma example_graph:
  obtains g c where
    "compile_internal (example_manifest [example_device ''a'']) None Map.empty = Inr g"
    "cg_pipelines g = [c]" "rt_buffer_size (cpl_runtime c) = 2048" "rt_buffer_count (cpl_runtime c) = 64"
    "cpl_resolved_backend c = AutoDevice" "cpl_outputs c = []"
proof -
  have "\<exists>c. compile_pipeline Map.empty (example_device ''a'') = Inr c \<and>
     cpl_runtime c = \<lparr> rt_buffer_size = 2048, rt_watchdog_timeout = from_secs 10,
       rt_buffer_count = 64 \<rparr> \<and> cpl_resolved_backend c = AutoDevice \<and> cpl_outputs c = []"
    by (simp add: compile_pipeline_def example_device_def compile_overlay_profile_def
        expand_camera_id resolve_backend_def Let_def del: expand_overlay_template.simps)
  then obtain c where c: "compile_pipeline Map.empty (example_device ''a'') = Inr c"
    "cpl_runtime c = \<lparr> rt_buffer_size = 2048, rt_watchdog_timeout = from_secs 10, rt_buffer_count = 64 \<rparr>"
    "cpl_resolved_backend c = AutoDevice" "cpl_outputs c = []" by blast
  let ?m = "example_manifest [example_device ''a'']"
  have "compile_internal ?m None Map.empty = Inr (graph_of ?m [c])"
    unfolding compile_internal_Inr graph_of_pipelines
    using c example_device_valid
    by (simp add: example_manifest_def host_gate_def pool_need_def fits_def memory_limit_def)
  with c show thesis by (intro that [of "graph_of ?m [c]" c]) (simp_all add: graph_of_pipelines)
qed



section \<open>What the builder checks\<close>

lemma prepared_native:
  assumes "pb_use_native_adapters b"
  shows "rb_compiled (prepared_builder fs b g) = Some g"
    and "feat_ffmpeg fs \<Longrightarrow> rb_runtime_factory (prepared_builder fs b g) =
      Some (BuiltinFactory (feature_adapters fs
        (if feat_webrtc fs then pb_webrtc_tracks b else Map.empty)
        (if feat_pi fs then pb_libcamera_provider b else None)))"
  using assms
  by (auto simp: prepared_builder_def with_compiled_graph_def builder_new_def with_metrics_exporter_def
      with_libcamera_provider_factory_def with_feature_media_adapters_def Let_def split: option.split)

lemma feature_adapters_simps [simp]:
  "ba_ffmpeg_source (feature_adapters fs tracks provider) = feat_ffmpeg fs"
  "ba_libcamera_source (feature_adapters fs tracks provider) = (if feat_pi fs then provider else None)"
  "ba_webrtc_sinks (feature_adapters fs tracks provider) = (if feat_webrtc fs then tracks else Map.empty)"
  by (auto simp: feature_adapters_def default_adapters_def Let_def split: option.split)

lemma builtin_output_error:
  assumes "builtin_output fs hash a p out = Inl e"
    and "is_webrtc_output out \<Longrightarrow> feat_webrtc fs \<and> ba_webrtc_sinks a (cpl_id p) \<noteq> None"
  shows "build_sink hash p = Inl e"
  using assms
  by (cases out) (auto simp: is_webrtc_output_def result_simps split: option.splits)

text \<open>The queue limit of an output's actor, and whether \<open>mpsc::channel\<close> panics at it.\<close>

fun output_limit :: "output_profile \<Rightarrow> usize" where
  "output_limit (Recording queue_limit policy) = unwrap_or 100 queue_limit"
| "output_limit (WebrtcRtp codec payload_type mtu ssrc clock_rate queue_limit policy) = unwrap_or 10 queue_limit"

definition impossible_limit :: "usize \<Rightarrow> bool" where
  "impossible_limit n \<longleftrightarrow> n = 0 \<or> max_permits < unat n"

lemma builtin_output_limit: "builtin_output fs hash a p out = Inr config \<Longrightarrow> sac_queue_limit config = output_limit out"
  by (cases out) (auto simp: result_simps split: if_splits option.splits)

lemma build_panics:
  assumes "builtin_build_pipeline fs hash sb a p = None"
  shows "2 \<le> length (cpl_outputs p) \<and> list_ex (\<lambda>out. impossible_limit (output_limit out)) (cpl_outputs p)"
proof -
  from assms obtain configs where c: "try_map (builtin_output fs hash a p) (cpl_outputs p) = Inr configs"
    "select_sink configs = None"
    by (auto simp: builtin_build_pipeline_def split: sum.splits)
  from c(1) have out: "list_all2 (\<lambda>out config. builtin_output fs hash a p out = Inr config) (cpl_outputs p) configs"
    by (simp add: try_map_Inr_iff)
  from c(2) have long: "2 \<le> length configs" "fanout_new configs = None"
    by (auto simp: select_sink_def split: list.splits)
  then obtain config where "config \<in> set configs" "impossible_limit (sac_queue_limit config)"
    by (auto simp: fanout_new_panics impossible_limit_def)
  then obtain i where i: "i < length configs" "impossible_limit (sac_queue_limit (configs ! i))"
    by (auto simp: in_set_conv_nth)
  with out have "i < length (cpl_outputs p)" "builtin_output fs hash a p (cpl_outputs p ! i) = Inr (configs ! i)"
    by (auto simp: list_all2_conv_all_nth)
  with i(2) builtin_output_limit have "impossible_limit (output_limit (cpl_outputs p ! i))" by fastforce
  with \<open>i < length (cpl_outputs p)\<close> long(1) out show ?thesis
    by (auto simp: list_ex_iff dest: list_all2_lengthD intro: nth_mem)
qed


definition example_builder :: "(unit, unit, unit) pipeline_builder" where
  "example_builder =
     pb_with_native_adapters (pipeline_builder_new (example_manifest [example_device ''a'']))"

abbreviation all_features :: features where
  "all_features \<equiv> \<lparr> feat_ffmpeg = True, feat_webrtc = True, feat_pi = True \<rparr>"

lemma example_start:
  obtains h :: "(unit, unit, unit, unit, unit) runtime_handle" and c where
    "pipeline_builder_start all_features example_builder = Inr h" "cg_pipelines (rh_graph h) = [c]"
proof -
  obtain g c where g: "compile_internal (example_manifest [example_device ''a'']) None Map.empty = Inr g"
    "cg_pipelines g = [c]" "cpl_resolved_backend c = AutoDevice" "cpl_outputs c = []"
    by (rule example_graph)
  have "sc_hardware_target (cm_system (example_manifest [example_device ''a''])) = GenericLinux"
    by (simp add: example_manifest_def)
  with g(1) have 1: "compile_for_start example_builder = Inr g"
    by (simp add: compile_for_start_def example_builder_def pb_with_native_adapters_def
        pipeline_builder_new_def compile_with_overlay_variables_def)
  have 2: "try_each (check_pipeline all_features example_builder) (cg_pipelines g) = Inr ()"
    using g by (simp add: check_pipeline_def)
  have 3: "pb_use_native_adapters example_builder"
    by (simp add: example_builder_def pb_with_native_adapters_def)
  let ?rb = "prepared_builder all_features example_builder g :: (unit, unit, unit, unit, unit) runtime_builder"
  obtain f where "rb_compiled ?rb = Some g" "rb_runtime_factory ?rb = Some f"
    using prepared_native [OF 3, of all_features g] by simp
  then have "\<exists>h. builder_start ?rb = Inr h \<and> rh_graph h = g"
    by (simp add: builder_start_def ok_or_def)
  then obtain h where "builder_start ?rb = Inr h" "rh_graph h = g" by blast
  with 1 2 g(2) show thesis by (intro that [of h c]) (simp_all add: pipeline_builder_start_def)
qed


end
