(* ===== verification/Caml_Ffmpeg.thy ===== *)
theory Caml_Ffmpeg
  imports Caml_H264 Caml_Media
begin

text \<open>
  The parts of the FFmpeg crate around its time stamps, inputs and errors:
  \<^verbatim>\<open>crates/caml-ffmpeg/src/device.rs\<close>, \<^verbatim>\<open>error.rs\<close>, \<^verbatim>\<open>hwaccel.rs\<close> and \<^verbatim>\<open>capabilities.rs\<close>.

  What FFmpeg answers is input: an opened context is a value of type \<open>'context\<close>, an error of
  FFmpeg the text it displays. An \<open>i64\<close> or \<open>i32\<close> is a word read as a signed number; \<open>i128\<close>
  arithmetic is on integers, with the range check of the checked operations written out.
\<close>

section \<open>Time\<close>

type_synonym i64 = "64 word"

record rational =
  numerator :: i32
  denominator :: i32

definition i128_checked :: "int \<Rightarrow> int option" where
  "i128_checked n = (if - (2 ^ 127) \<le> n \<and> n < 2 ^ 127 then Some n else None)"

text \<open>Rust's division truncates; both operands are non-negative wherever it is used here.\<close>

definition i128_checked_div :: "int \<Rightarrow> int \<Rightarrow> int option" where
  "i128_checked_div a b = (if b = 0 then None else i128_checked (sgn a * sgn b * (\<bar>a\<bar> div \<bar>b\<bar>)))"

definition duration_from_time_base :: "i64 option \<Rightarrow> rational \<Rightarrow> duration option" where
  "duration_from_time_base value time_base =
     (case value of
        None \<Rightarrow> None
      | Some ticks \<Rightarrow>
          if sint ticks < 0 then None
          else (let num = sint (numerator time_base); den = sint (denominator time_base) in
            if num \<le> 0 \<or> den \<le> 0 then None
            else Option.bind (i128_checked (sint ticks * num)) (\<lambda>a.
                 Option.bind (i128_checked (a * 1000000000)) (\<lambda>b.
                 Option.bind (i128_checked_div b den) (\<lambda>nanos.
                   if nanos < 0 \<or> nanos > 2 ^ 64 - 1 then None
                   else Some (from_nanos (of_int nanos)))))))"

definition duration_from_packet :: "i64 \<Rightarrow> rational \<Rightarrow> duration option" where
  "duration_from_packet value time_base =
     (if sint value \<le> 0 then None else duration_from_time_base (Some value) time_base)"

definition frame_duration_from_rate :: "rational \<Rightarrow> duration option" where
  "frame_duration_from_rate rate =
     (let num = sint (numerator rate); den = sint (denominator rate) in
      if num \<le> 0 \<or> den \<le> 0 then None
      else Option.bind (i128_checked (1000000000 * den)) (\<lambda>a.
           Option.bind (i128_checked_div a num) (\<lambda>nanos.
             if nanos \<le> 0 \<or> nanos > 2 ^ 64 - 1 then None
             else Some (from_nanos (of_int nanos)))))"

definition frame_duration_from_processing :: "compiled_processing_profile \<Rightarrow> duration option" where
  "frame_duration_from_processing processing =
     (if cp_out_frame_rate processing = 0 then None
      else Some (from_nanos (1000000000 div ucast (cp_out_frame_rate processing))))"

definition sanitize_rational :: "rational \<Rightarrow> rational" where
  "sanitize_rational r =
     (if sint (numerator r) \<le> 0 \<or> sint (denominator r) \<le> 0
      then \<lparr> numerator = 1, denominator = 1 \<rparr> else r)"

section \<open>Inputs\<close>

datatype input_spec =
    RtspInput transport
  | DeviceInput resolved_input_backend "u32 option"

type_synonym dictionary = "(str \<times> str) list"

definition rtsp_options :: "transport \<Rightarrow> dictionary" where
  "rtsp_options transport =
     [(''rtsp_transport'', (case transport of Tcp \<Rightarrow> ''tcp'' | Udp \<Rightarrow> ''udp'')),
      (''fflags'', ''nobuffer''), (''flags'', ''low_delay''),
      (''timeout'', ''5000000''), (''stimeout'', ''5000000'')]"

definition device_input_options :: "u32 option \<Rightarrow> dictionary" where
  "device_input_options frame_rate =
     [(''fflags'', ''nobuffer''), (''flags'', ''low_delay'')] @
     (case frame_rate of
        Some rate \<Rightarrow> if rate > 0 then [(''framerate'', show_unsigned rate)] else []
      | None \<Rightarrow> [])"

text \<open>
  The calls of FFmpeg that open an input: with a dictionary of options, and with the V4L2 format if
  this build of FFmpeg knows it.
\<close>

record 'context ffmpeg_open =
  open_with_dictionary :: "str \<Rightarrow> dictionary \<Rightarrow> str + 'context"
  knows_v4l2 :: bool
  open_v4l2 :: "str \<Rightarrow> dictionary \<Rightarrow> str + 'context"

definition open_rtsp_input :: "'context ffmpeg_open \<Rightarrow> str \<Rightarrow> transport \<Rightarrow> str + 'context" where
  "open_rtsp_input ff input transport =
     map_err (\<lambda>e. ''unable to open RTSP input '' @ quoted input @ '': '' @ e)
       (open_with_dictionary ff input (rtsp_options transport))"

definition find_v4l2_format :: "'context ffmpeg_open \<Rightarrow> str + unit" where
  "find_v4l2_format ff =
     (if knows_v4l2 ff then Inr ()
      else Inl (''the local FFmpeg build does not expose the '' @ quoted ''video4linux2'' @ '' input format''))"

definition open_v4l2_device_input ::
  "'context ffmpeg_open \<Rightarrow> str \<Rightarrow> u32 option \<Rightarrow> str + 'context" where
  "open_v4l2_device_input ff input frame_rate =
     res_bind (find_v4l2_format ff) (\<lambda>_.
       map_err (\<lambda>e. ''unable to open V4L2 device '' @ quoted input @ '': '' @ e)
         (open_v4l2 ff input (device_input_options frame_rate)))"

definition open_auto_device_input ::
  "'context ffmpeg_open \<Rightarrow> str \<Rightarrow> u32 option \<Rightarrow> str + 'context" where
  "open_auto_device_input ff input frame_rate =
     (case open_v4l2_device_input ff input frame_rate of
        Inr context \<Rightarrow> Inr context
      | Inl v4l2_error \<Rightarrow>
          map_err (\<lambda>e. ''unable to open device input '' @ quoted input @
              '' via auto detection (v4l2 attempt: '' @ v4l2_error @ ''; generic attempt: '' @ e @ '')'')
            (open_with_dictionary ff input (device_input_options frame_rate)))"

fun open_device_input ::
  "'context ffmpeg_open \<Rightarrow> str \<Rightarrow> resolved_input_backend \<Rightarrow> u32 option \<Rightarrow> str + 'context" where
  "open_device_input ff input V4l2Device frame_rate = open_v4l2_device_input ff input frame_rate"
| "open_device_input ff input AutoDevice frame_rate = open_auto_device_input ff input frame_rate"
| "open_device_input ff input LibcameraDevice frame_rate =
     Inl (''device input '' @ quoted input @
       '' requested libcamera, but the current FFmpeg adapter only supports V4L2-backed capture'')"
| "open_device_input ff input FfmpegRtsp frame_rate =
     Inl (''device input '' @ quoted input @ '' resolved an RTSP backend unexpectedly'')"

fun open_media_input :: "'context ffmpeg_open \<Rightarrow> str \<Rightarrow> input_spec \<Rightarrow> str + 'context" where
  "open_media_input ff input (RtspInput transport) = open_rtsp_input ff input transport"
| "open_media_input ff input (DeviceInput backend frame_rate) =
     open_device_input ff input backend frame_rate"

text \<open>The best video stream of a context, if it has one.\<close>

definition best_video_stream :: "'stream option \<Rightarrow> str \<Rightarrow> str + 'stream" where
  "best_video_stream best input =
     ok_or (''no video stream was found in '' @ quoted input) best"

text \<open>Codec identifiers; any other one is its \<open>Debug\<close> text.\<close>

datatype codec_id = CodecH264 | CodecHevc | CodecOther str

fun codec_name :: "codec_id \<Rightarrow> str + str" where
  "codec_name CodecH264 = Inr ''h264''"
| "codec_name CodecHevc = Inl ''H.265 input was detected, but the current FFmpeg backend only supports H.264 passthrough/transcode''"
| "codec_name (CodecOther other) =
     Inl (''unsupported encoded video codec '' @ quoted other @ ''; expected H.264 for the current backend'')"

definition normalize_encoded_packet ::
  "str \<Rightarrow> u8 list \<Rightarrow> bool \<Rightarrow> h264_config option \<Rightarrow> str + u8 list" where
  "normalize_encoded_packet codec payload is_keyframe config =
     (if codec = ''h264'' then normalize_h264_payload payload is_keyframe config
      else Inl (''codec '' @ quoted codec @ '' is not supported by the current FFmpeg source backend''))"

section \<open>Errors and backends\<close>

datatype ffmpeg_error = FfEof | FfBug | FfBug2 | FfInvalidData | FfStreamNotFound | FfOther | FfAny

datatype ffmpeg_error_class = NetworkStall | DeviceLost | InvalidData | CodecError | UnknownError

fun class_from_ffmpeg_error :: "ffmpeg_error \<Rightarrow> ffmpeg_error_class" where
  "class_from_ffmpeg_error FfEof = DeviceLost"
| "class_from_ffmpeg_error FfBug = CodecError"
| "class_from_ffmpeg_error FfBug2 = CodecError"
| "class_from_ffmpeg_error FfInvalidData = InvalidData"
| "class_from_ffmpeg_error FfStreamNotFound = InvalidData"
| "class_from_ffmpeg_error FfOther = UnknownError"
| "class_from_ffmpeg_error FfAny = UnknownError"

definition class_is_recoverable :: "ffmpeg_error_class \<Rightarrow> bool" where
  "class_is_recoverable c = (c \<in> {NetworkStall, DeviceLost, InvalidData})"

fun class_debug :: "ffmpeg_error_class \<Rightarrow> str" where
  "class_debug NetworkStall = ''NetworkStall''"
| "class_debug DeviceLost = ''DeviceLost''"
| "class_debug InvalidData = ''InvalidData''"
| "class_debug CodecError = ''CodecError''"
| "class_debug UnknownError = ''Unknown''"

definition map_ffmpeg_error :: "str \<Rightarrow> ffmpeg_error \<Rightarrow> str \<Rightarrow> runtime_error" where
  "map_ffmpeg_error ctx error display =
     (let class = class_from_ffmpeg_error error in
      if class_is_recoverable class
      then Recoverable (ctx @ '' (recoverable '' @ class_debug class @ ''): '' @ display)
      else Adapter (ctx @ '' ('' @ class_debug class @ ''): '' @ display))"

datatype transcode_backend = SoftwareBackend | Pi4HardwareEncode | Pi5HardwareDecode

definition transcode_backend_for_pipeline :: "compiled_pipeline \<Rightarrow> runtime_error + transcode_backend" where
  "transcode_backend_for_pipeline pipeline =
     (case cpl_codec_path pipeline of
        SoftwareTranscode \<Rightarrow> Inr SoftwareBackend
      | HardwareTranscode \<Rightarrow> Inr Pi4HardwareEncode
      | PathHardwareDecode \<Rightarrow> Inr Pi5HardwareDecode
      | PathPassthrough \<Rightarrow>
          Inl (Adapter (pipeline_msg (cpl_id pipeline) ''does not have a transcode codec path'')))"

text \<open>
  \<open>ffmpeg_capabilities\<close>: what the local build of FFmpeg offers, by the names of its encoders,
  decoders, filters and input formats; \<open>None\<close> if FFmpeg cannot be initialised.
\<close>

record ffmpeg_build =
  has_encoder :: "str \<Rightarrow> bool"
  has_decoder :: "str \<Rightarrow> bool"
  has_filter :: "str \<Rightarrow> bool"
  has_input_format :: "str \<Rightarrow> bool"

definition ffmpeg_capabilities :: "ffmpeg_build option \<Rightarrow> capability_probe" where
  "ffmpeg_capabilities build =
     static_probe (case build of
        None \<Rightarrow> default_capabilities
      | Some b \<Rightarrow> default_capabilities
          \<lparr> ffmpeg_available := True,
            has_pi4_h264_encoder := has_encoder b ''h264_v4l2m2m'',
            has_pi5_stateless_decoder :=
              has_decoder b ''h264_v4l2request'' \<or> has_decoder b ''hevc_v4l2request'',
            has_drawtext_filter := has_filter b ''drawtext'',
            has_overlay_filter := has_filter b ''overlay'',
            has_scale_filter := has_filter b ''scale'',
            has_color_channel_mixer_filter := has_filter b ''colorchannelmixer'',
            v4l2_available := has_input_format b ''video4linux2'' \<rparr>)"

section \<open>Time stamps are exact\<close>

lemma sint_bounds32: "- (2 ^ 31) \<le> sint w" "sint w < 2 ^ 31" for w :: "32 word"
  using sint_greater_eq [of w] sint_less [of w] by simp_all

lemma sint_bounds64: "- (2 ^ 63) \<le> sint w" "sint w < 2 ^ 63" for w :: "64 word"
  using sint_greater_eq [of w] sint_less [of w] by simp_all

lemma mult_less_bounds: "0 \<le> a \<Longrightarrow> a < b \<Longrightarrow> 0 \<le> c \<Longrightarrow> c < d \<Longrightarrow> a * c < b * d" for a b c d :: int
  by (intro mult_strict_mono) auto

lemma from_nanos_of_int:
  assumes "0 \<le> n" "n < 2 ^ 64"
  shows "from_nanos (of_int n) = nat n"
  using assms by (simp add: from_nanos_def unsigned_of_int take_bit_int_eq_self)

lemma i128_checked_div_nonneg:
  assumes "0 \<le> a" "a < 2 ^ 127" "0 < b"
  shows "i128_checked_div a b = Some (a div b)"
proof -
  have "0 \<le> a div b" using assms by (simp add: pos_imp_zdiv_nonneg_iff)
  moreover have "a div b \<le> a div 1" using assms by (intro zdiv_mono2) simp_all
  ultimately have "i128_checked (a div b) = Some (a div b)" using assms(2) by (simp add: i128_checked_def)
  then show ?thesis using assms by (cases "a = 0") (simp_all add: i128_checked_div_def sgn_if)
qed

lemma time_base_nanos:
  assumes "0 \<le> sint t" "0 < sint (numerator tb)" "0 < sint (denominator tb)"
  shows "duration_from_time_base (Some t) tb =
    (let nanos = sint t * sint (numerator tb) * 1000000000 div sint (denominator tb) in
     if nanos < 2 ^ 64 then Some (nat nanos) else None)"
proof -
  let ?t = "sint t" and ?n = "sint (numerator tb)" and ?d = "sint (denominator tb)"
  have "?t * ?n < 2 ^ 63 * 2 ^ 31"
    by (rule mult_less_bounds) (use assms sint_bounds64 [of t] sint_bounds32 [of "numerator tb"] in auto)
  then have a: "0 \<le> ?t * ?n" "?t * ?n < 2 ^ 63 * 2 ^ 31" using assms by simp_all
  then have b: "0 \<le> ?t * ?n * 1000000000" "?t * ?n * 1000000000 < 2 ^ 127" by simp_all
  let ?q = "?t * ?n * 1000000000 div ?d"
  have q: "0 \<le> ?q" using b assms(3) by (simp add: pos_imp_zdiv_nonneg_iff)
  have 1: "i128_checked (?t * ?n) = Some (?t * ?n)"
    using a by (simp add: i128_checked_def)
  have 2: "i128_checked (?t * ?n * 1000000000) = Some (?t * ?n * 1000000000)"
    using b by (simp add: i128_checked_def)
  have 3: "i128_checked_div (?t * ?n * 1000000000) ?d = Some ?q"
    using b assms(3) by (intro i128_checked_div_nonneg) simp_all
  show ?thesis
  proof (cases "?q < 2 ^ 64")
    case True
    with q have "from_nanos (of_int ?q) = nat ?q" by (rule from_nanos_of_int)
    with True q assms 1 2 3 show ?thesis by (simp add: duration_from_time_base_def Let_def)
  next
    case False
    with assms 1 2 3 show ?thesis by (simp add: duration_from_time_base_def Let_def)
  qed
qed

text \<open>
  A media time stamp with a valid time base is the exact number of nanoseconds rounded down, or
  nothing if that does not fit 64 bits; the 128-bit intermediate results never overflow, so no time
  stamp is lost to them.
\<close>

theorem media_time_exact:
  assumes "0 \<le> sint t" "0 < sint (numerator tb)" "0 < sint (denominator tb)"
  shows "duration_from_time_base (Some t) tb =
    (let nanos = sint t * sint (numerator tb) * 1000000000 div sint (denominator tb) in
     if nanos < 2 ^ 64 then Some (nat nanos) else None)"
  using assms by (rule time_base_nanos)

theorem media_time_exact_witness:
  "duration_from_time_base (Some 3003) \<lparr> numerator = 1, denominator = 90000 \<rparr> = Some 33366666"
  using media_time_exact [of 3003 "\<lparr> numerator = 1, denominator = 90000 \<rparr>"] by simp

text \<open>Two units of the same time base keep their order.\<close>

lemma media_time_mono:
  assumes "0 \<le> sint t" "sint t \<le> sint u" "duration_from_time_base (Some u) tb = Some d"
  shows "\<exists>c. duration_from_time_base (Some t) tb = Some c \<and> c \<le> d"
proof -
  have v: "0 < sint (numerator tb)" "0 < sint (denominator tb)"
    using assms by (auto simp: duration_from_time_base_def Let_def split: if_splits)
  let ?f = "\<lambda>x. sint x * sint (numerator tb) * 1000000000 div sint (denominator tb)"
  have le: "?f t \<le> ?f u" using assms(2) v by (intro zdiv_mono1 mult_right_mono) simp_all
  have "?f u < 2 ^ 64" "d = nat (?f u)"
    using assms time_base_nanos [of u tb] v by (auto simp: Let_def split: if_splits)
  with le assms(1) v show ?thesis by (simp add: time_base_nanos Let_def nat_mono)
qed

end
