(* ===== verification/Caml_Filter.thy ===== *)
theory Caml_Filter
  imports Caml_Ffmpeg Rust_Float
begin

text \<open>
  The filter graph of \<^verbatim>\<open>crates/caml-ffmpeg/src/transcode.rs\<close>: the description that is parsed by
  FFmpeg (rotation, then one stage per overlay layer), its escaping, and the checks on the overlay
  before a worker starts. The file system and FFmpeg's answers are parameters.
\<close>

section \<open>Rotation\<close>

datatype rotation = NoRotation | Clockwise | HalfTurn | CounterClockwise

fun rotation_filter_spec :: "rotation \<Rightarrow> str" where
  "rotation_filter_spec NoRotation = ''null''"
| "rotation_filter_spec Clockwise = ''transpose=clock''"
| "rotation_filter_spec HalfTurn = ''hflip,vflip''"
| "rotation_filter_spec CounterClockwise = ''transpose=cclock''"

definition normalize_rotation :: "i32 option \<Rightarrow> str + rotation" where
  "normalize_rotation rotation =
     (let r = sint (unwrap_or 0 rotation) in
      if r = 0 then Inr NoRotation
      else if r = 90 \<or> r = - 270 then Inr Clockwise
      else if r = 180 \<or> r = - 180 then Inr HalfTurn
      else if r = 270 \<or> r = - 90 then Inr CounterClockwise
      else Inl (''unsupported rotation '' @ quoted (show_int r) @
             ''; supported values are 0, 90, 180, 270, -90, -180, and -270''))"

fun rotated_dimensions :: "u32 \<Rightarrow> u32 \<Rightarrow> rotation \<Rightarrow> u32 \<times> u32" where
  "rotated_dimensions width height Clockwise = (height, width)"
| "rotated_dimensions width height CounterClockwise = (height, width)"
| "rotated_dimensions width height NoRotation = (width, height)"
| "rotated_dimensions width height HalfTurn = (width, height)"

section \<open>Escaping\<close>

definition replace_all :: "char \<Rightarrow> str \<Rightarrow> str \<Rightarrow> str" where
  "replace_all c t s = concat (map (\<lambda>x. if x = c then t else [x]) s)"

abbreviation backslash :: char where "backslash \<equiv> CHR 0x5C"
abbreviation apostrophe :: char where "apostrophe \<equiv> CHR 0x27"

definition escape_filter_value :: "str \<Rightarrow> str" where
  "escape_filter_value s =
     replace_all apostrophe [backslash, apostrophe]
       (replace_all (CHR '':'') [backslash, CHR '':'']
         (replace_all backslash [backslash, backslash] s))"

definition escape_drawtext_text :: "str \<Rightarrow> str" where
  "escape_drawtext_text s = replace_all (CHR ''%'') [backslash, CHR ''%''] (escape_filter_value s)"

definition escape_drawtext_expansion_format :: "str \<Rightarrow> str" where
  "escape_drawtext_expansion_format s =
     replace_all apostrophe [backslash, apostrophe]
       (replace_all (CHR '':'') [backslash, backslash, backslash, CHR '':'']
         (replace_all backslash [backslash, backslash, backslash, backslash] s))"

section \<open>The description\<close>

text \<open>
  \<open>alpha_percent_to_decimal\<close>: a percentage as a decimal with two digits. The quotient is rounded to
  single precision and then, for printing, to hundredths; both roundings are to nearest, ties to
  even, and the first is too small to move a multiple of a hundredth.
\<close>

definition alpha_percent_to_decimal :: "u8 \<Rightarrow> str option" where
  "alpha_percent_to_decimal a =
     map_option (\<lambda>q. let h = nat (round_half_even (q * 100)) in
         show_nat (h div 100) @ ''.'' @ pad_left 2 (show_nat (h mod 100)))
       (round_f32 (of_nat (unat a) / 100))"

fun drawtext_position_expr :: "overlay_position \<Rightarrow> u32 \<Rightarrow> str \<times> str" where
  "drawtext_position_expr TopLeft margin = (show_unsigned margin, show_unsigned margin)"
| "drawtext_position_expr TopRight margin = (''w-text_w-'' @ show_unsigned margin, show_unsigned margin)"
| "drawtext_position_expr BottomLeft margin = (show_unsigned margin, ''h-text_h-'' @ show_unsigned margin)"
| "drawtext_position_expr BottomRight margin =
     (''w-text_w-'' @ show_unsigned margin, ''h-text_h-'' @ show_unsigned margin)"

fun overlay_position_expr :: "overlay_position \<Rightarrow> u32 \<Rightarrow> str" where
  "overlay_position_expr TopLeft margin = ''x='' @ show_unsigned margin @ '':y='' @ show_unsigned margin"
| "overlay_position_expr TopRight margin =
     ''x=W-w-'' @ show_unsigned margin @ '':y='' @ show_unsigned margin"
| "overlay_position_expr BottomLeft margin =
     ''x='' @ show_unsigned margin @ '':y=H-h-'' @ show_unsigned margin"
| "overlay_position_expr BottomRight margin =
     ''x=W-w-'' @ show_unsigned margin @ '':y=H-h-'' @ show_unsigned margin"

definition font_path :: str where
  "font_path = ''/usr/share/fonts/truetype/dejavu/DejaVuSans.ttf''"

text \<open>The alpha of a \<open>u8\<close> is always finite, so \<open>None\<close> never occurs here.\<close>

definition alpha_text :: "u8 \<Rightarrow> str" where
  "alpha_text a = unwrap_or [] (alpha_percent_to_decimal a)"

definition drawtext_filter :: "str \<Rightarrow> compiled_text_overlay_style \<Rightarrow> str" where
  "drawtext_filter text style =
     (let (x, y) = drawtext_position_expr (ts_position style) (ts_margin style) in
      ''drawtext=fontfile='' @ quoted (escape_filter_value font_path) @ '':text='' @ quoted text @
      '':x='' @ x @ '':y='' @ y @ '':fontsize='' @ show_unsigned (ts_font_size style) @
      '':fontcolor='' @ escape_filter_value (ts_font_color style) @
      '':box=1:boxcolor='' @ escape_filter_value (ts_background_color style) @ ''@'' @
        alpha_text (ts_background_alpha style) @
      '':boxborderw='' @ show_unsigned (ts_padding style))"

definition drawtext_filter_for_timestamp :: "compiled_timestamp_overlay \<Rightarrow> str" where
  "drawtext_filter_for_timestamp timestamp =
     drawtext_filter
       (''%{'' @ (case ct_timezone timestamp of Utc \<Rightarrow> ''gmtime'' | Local \<Rightarrow> ''localtime'') @
        [backslash, CHR '':''] @ escape_drawtext_expansion_format (ct_format timestamp) @ ''}'')
       (ct_style timestamp)"

definition drawtext_filter_for_text :: "str \<Rightarrow> compiled_text_overlay_style \<Rightarrow> str" where
  "drawtext_filter_for_text text style = drawtext_filter (escape_drawtext_text text) style"

definition watermark_filter_chain :: "compiled_watermark_overlay \<Rightarrow> str" where
  "watermark_filter_chain watermark =
     ''movie='' @ quoted (escape_filter_value (cw_image_path watermark)) @
     (case cw_max_width_px watermark of
        Some w \<Rightarrow> '',scale=w='' @ show_unsigned w @ '':h=-1:force_original_aspect_ratio=decrease''
      | None \<Rightarrow> []) @
     (if cw_opacity watermark < 100
      then '',format=rgba,colorchannelmixer=aa='' @ alpha_text (cw_opacity watermark) else [])"

definition label :: "str \<Rightarrow> str" where
  "label name = ''['' @ name @ '']''"

definition stage :: "nat \<Rightarrow> str" where
  "stage i = ''stage'' @ show_nat i"

text \<open>The segments of one layer: from the label of the current stage to that of the next.\<close>

fun layer_segments :: "nat \<Rightarrow> compiled_overlay_layer \<Rightarrow> str list" where
  "layer_segments index (CompiledTimestamp timestamp) =
     [label (stage index) @ drawtext_filter_for_timestamp timestamp @ label (stage (index + 1))]"
| "layer_segments index (CompiledText txt) =
     [label (stage index) @ drawtext_filter_for_text (cx_text txt) (cx_style txt) @ label (stage (index + 1))]"
| "layer_segments index (CompiledWatermark watermark) =
     [watermark_filter_chain watermark @ label (''wm'' @ show_nat index),
      label (stage index) @ label (''wm'' @ show_nat index) @ ''overlay='' @
        overlay_position_expr (cw_position watermark) (cw_margin watermark) @ label (stage (index + 1))]"

fun segments_from :: "nat \<Rightarrow> compiled_overlay_layer list \<Rightarrow> str list" where
  "segments_from index [] = [label (stage index) @ ''null[out]'']"
| "segments_from index (layer # layers) = layer_segments index layer @ segments_from (index + 1) layers"

fun join_with :: "str \<Rightarrow> str list \<Rightarrow> str" where
  "join_with sep [] = []"
| "join_with sep [s] = s"
| "join_with sep (s # ss) = s @ sep @ join_with sep ss"

definition filter_segments :: "rotation \<Rightarrow> compiled_overlay_profile option \<Rightarrow> str list" where
  "filter_segments rotation overlay =
     (case overlay of
        None \<Rightarrow> [''[in]'' @ rotation_filter_spec rotation @ ''[out]'']
      | Some profile \<Rightarrow>
          (''[in]'' @ rotation_filter_spec rotation @ label (stage 0)) # segments_from 0 (co_layers profile))"

definition build_filter_spec :: "rotation \<Rightarrow> compiled_overlay_profile option \<Rightarrow> str" where
  "build_filter_spec rotation overlay = join_with '';'' (filter_segments rotation overlay)"

section \<open>Checks before a worker starts\<close>

text \<open>
  The file system as the checks see it: whether a path exists, its metadata (an error, or whether it
  is a regular file), and what opening it with FFmpeg gives (an error, or whether it has video).
\<close>

record overlay_host =
  oh_ffmpeg :: bool
  oh_exists :: "str \<Rightarrow> bool"
  oh_metadata :: "str \<Rightarrow> str + bool"
  oh_image :: "str \<Rightarrow> str + bool"

definition validate_watermark_asset ::
  "overlay_host \<Rightarrow> str \<Rightarrow> compiled_watermark_overlay \<Rightarrow> str + unit" where
  "validate_watermark_asset host pid watermark =
     (let path = cw_image_path watermark; msg = (\<lambda>rest. pipeline_msg pid (''watermark '' @ quoted path @ rest)) in
      res_bind (map_err (\<lambda>e. msg ('' is not accessible: '' @ e)) (oh_metadata host path)) (\<lambda>is_file.
        if \<not> is_file then Inl (msg '' must be a regular file'')
        else res_bind (map_err (\<lambda>e. msg ('' could not be decoded by FFmpeg: '' @ e)) (oh_image host path))
          (\<lambda>has_video. best_video_stream (if has_video then Some () else None) path)))"

fun compiled_layer_uses_text :: "compiled_overlay_layer \<Rightarrow> bool" where
  "compiled_layer_uses_text (CompiledTimestamp t) = True"
| "compiled_layer_uses_text (CompiledText t) = True"
| "compiled_layer_uses_text (CompiledWatermark w) = False"

fun validate_layer_asset :: "overlay_host \<Rightarrow> str \<Rightarrow> compiled_overlay_layer \<Rightarrow> str + unit" where
  "validate_layer_asset host pid (CompiledWatermark watermark) = validate_watermark_asset host pid watermark"
| "validate_layer_asset host pid (CompiledTimestamp t) = Inr ()"
| "validate_layer_asset host pid (CompiledText t) = Inr ()"

definition validate_overlay_runtime :: "overlay_host \<Rightarrow> compiled_pipeline \<Rightarrow> str + unit" where
  "validate_overlay_runtime host pipeline =
     (case cpl_overlay pipeline of
        None \<Rightarrow> Inr ()
      | Some overlay \<Rightarrow>
          if \<not> oh_ffmpeg host
          then Inl (pipeline_msg (cpl_id pipeline)
                 ''requires FFmpeg overlay support, but FFmpeg failed to initialize'')
          else if list_ex compiled_layer_uses_text (co_layers overlay) \<and> \<not> oh_exists host font_path
          then Inl (pipeline_msg (cpl_id pipeline)
                 (''requires the default overlay font '' @ quoted font_path @
                  '', but it was not found; install a DejaVu Sans font package on the host''))
          else try_each (validate_layer_asset host (cpl_id pipeline)) (co_layers overlay))"

end
