(* ===== verification/Caml_Worker.thy ===== *)
theory Caml_Worker
  imports Caml_Filter
begin

text \<open>
  What a pipeline asks of the FFmpeg worker and its demuxing loop
  (\<^verbatim>\<open>crates/caml-ffmpeg/src/worker.rs\<close>), and the transcoding loops of \<^verbatim>\<open>transcode.rs\<close>.

  FFmpeg's decoders, filters and encoders answer; the code decides what to do with the answers. So a
  run of the loops takes the answers as input, nested as the calls are: the packets of the input,
  for each the frames the decoder gives, for each of those the frames the filter gives, and for each
  of those the packets the encoder gives. The output is the list of messages that were sent, in
  order. A send succeeds as long as the receiver lives; \<open>room\<close> is how many more sends succeed.
\<close>

record worker_packet =
  wp_codec :: str
  wp_timestamp :: "duration option"
  wp_duration :: "duration option"
  wp_is_keyframe :: bool
  wp_data :: "u8 list"

datatype worker_message =
    PacketMessage worker_packet
  | EndMessage
  | RecoverableMessage str
  | ErrorMessage str

datatype worker_mode =
    PassthroughMode duration
  | TranscodeMode compiled_processing_profile "compiled_overlay_profile option" transcode_backend duration

record worker_spec =
  wk_pipeline_id :: str
  wk_input :: str
  wk_input_spec :: input_spec
  wk_mode :: worker_mode

section \<open>What a pipeline asks of the worker\<close>

definition validate_transcode_support ::
  "compiled_pipeline \<Rightarrow> compiled_processing_profile \<Rightarrow> runtime_error + unit" where
  "validate_transcode_support pipeline processing =
     (let pid = cpl_id pipeline; encoder = to_ascii_lowercase (trim (cp_encoder processing));
          codec = to_ascii_lowercase (trim (cp_codec processing));
          software = (if encoder = ''software'' \<or> encoder = ''libx264'' then Inr ()
            else Inl (Adapter (pipeline_msg pid (''requested encoder '' @ quoted (cp_encoder processing) @
              '' but the current FFmpeg backend only implements software H.264 encode for this pipeline''))))
      in res_bind
        (case cpl_codec_path pipeline of
           SoftwareTranscode \<Rightarrow> software
         | PathHardwareDecode \<Rightarrow> software
         | HardwareTranscode \<Rightarrow>
             if encoder = ''hardware'' \<or> encoder = ''v4l2m2m'' then Inr ()
             else Inl (Adapter (pipeline_msg pid (''requested encoder '' @ quoted (cp_encoder processing) @
               '' but Raspberry Pi hardware transcode requires '' @ quoted ''hardware'' @ '' or '' @ quoted ''v4l2m2m'')))
         | PathPassthrough \<Rightarrow>
             Inl (Adapter (pipeline_msg pid ''cannot request transcode support while compiled for passthrough'')))
        (\<lambda>_. if codec \<noteq> ''h264''
          then Inl (Adapter (pipeline_msg pid (''requested codec '' @ quoted (cp_codec processing) @
                 '' but the current FFmpeg backend only implements software H.264 transcode'')))
          else res_bind (ok_or (Adapter (pipeline_msg pid ''must set a positive frame_rate for software transcode''))
                 (frame_duration_from_processing processing)) (\<lambda>_.
               res_bind (map_err Adapter (normalize_rotation (cp_rotation processing))) (\<lambda>_. Inr ()))))"

definition worker_input_spec :: "compiled_pipeline \<Rightarrow> runtime_error + input_spec" where
  "worker_input_spec pipeline =
     (case ci_kind (cpl_input pipeline) of
        Rtsp \<Rightarrow> Inr (RtspInput (case cpl_network pipeline of Some n \<Rightarrow> cn_transport n | None \<Rightarrow> Tcp))
      | Device \<Rightarrow>
          (case cpl_resolved_backend pipeline of
             LibcameraDevice \<Rightarrow> Inl (Adapter (pipeline_msg (cpl_id pipeline)
               ''selected a libcamera device backend, but the current FFmpeg adapter only implements RTSP and V4L2-backed device ingest''))
           | FfmpegRtsp \<Rightarrow> Inl (Adapter (pipeline_msg (cpl_id pipeline)
               ''resolved an invalid FFmpeg RTSP backend for device input''))
           | backend \<Rightarrow> Inr (DeviceInput backend
               (case cpl_processing pipeline of
                  Some processing \<Rightarrow>
                    if cp_out_frame_rate processing > 0 then Some (cp_out_frame_rate processing) else None
                | None \<Rightarrow> None))))"

definition worker_transcode_mode ::
  "overlay_host \<Rightarrow> compiled_pipeline \<Rightarrow> duration \<Rightarrow> str \<Rightarrow> runtime_error + worker_mode" where
  "worker_transcode_mode host pipeline default_frame_duration what =
     res_bind (ok_or (Adapter (pipeline_msg (cpl_id pipeline)
         (''was compiled for '' @ what @ '' but has no processing profile''))) (cpl_processing pipeline))
       (\<lambda>processing.
     res_bind (validate_transcode_support pipeline processing) (\<lambda>_.
     res_bind (map_err Adapter (validate_overlay_runtime host pipeline)) (\<lambda>_.
     res_bind (transcode_backend_for_pipeline pipeline) (\<lambda>backend.
       Inr (TranscodeMode processing (cpl_overlay pipeline) backend default_frame_duration)))))"

definition worker_spec_for_pipeline :: "overlay_host \<Rightarrow> compiled_pipeline \<Rightarrow> runtime_error + worker_spec" where
  "worker_spec_for_pipeline host pipeline =
     (let default_frame_duration =
            unwrap_or (from_millis 33) (Option.bind (cpl_processing pipeline) frame_duration_from_processing)
      in res_bind (worker_input_spec pipeline) (\<lambda>input.
         res_bind (case cpl_strategy pipeline of
             Passthrough \<Rightarrow> Inr (PassthroughMode default_frame_duration)
           | Transcode \<Rightarrow> worker_transcode_mode host pipeline default_frame_duration ''transcode''
           | HardwareDecode \<Rightarrow> worker_transcode_mode host pipeline default_frame_duration ''hardware decode'')
           (\<lambda>mode. Inr \<lparr> wk_pipeline_id = cpl_id pipeline, wk_input = ci_source (cpl_input pipeline),
                           wk_input_spec = input, wk_mode = mode \<rparr>)))"

section \<open>Demuxing\<close>

record demux_packet =
  dp_stream :: nat
  dp_pts :: "i64 option"
  dp_duration :: i64
  dp_is_key :: bool
  dp_data :: "u8 list option"
  dp_cancelled :: bool

text \<open>
  Pacing of a local file: a packet is due its time stamp after the first one, relative to the start;
  the result is that due time and the first time stamp from now on.
\<close>

definition packet_due :: "rational \<Rightarrow> i64 option \<Rightarrow> duration option \<Rightarrow> duration option \<times> duration option" where
  "packet_due time_base pts first =
     (case pts of
        None \<Rightarrow> (None, first)
      | Some p \<Rightarrow>
          (let d = unwrap_or 0 (duration_from_time_base (Some p) time_base);
               first' = unwrap_or d first
           in (Some (d - first'), Some first')))"

text \<open>
  The stream as it was opened. \<open>due\<close> in the result of the loop lists the due times of the paced
  packets.
\<close>

record demux_stream =
  ds_index :: nat
  ds_time_base :: rational
  ds_codec :: str
  ds_nominal :: duration
  ds_config :: "h264_config option"

record worker_out =
  wo_sent :: "worker_message list"
  wo_room :: nat
  wo_due :: "duration list"

definition blocking_send :: "worker_message \<Rightarrow> worker_out \<Rightarrow> bool \<times> worker_out" where
  "blocking_send m out =
     (if wo_room out = 0 then (False, out)
      else (True, out\<lparr> wo_sent := wo_sent out @ [m], wo_room := wo_room out - 1 \<rparr>))"

definition demuxed :: "demux_stream \<Rightarrow> demux_packet \<Rightarrow> u8 list \<Rightarrow> worker_message" where
  "demuxed s p data = PacketMessage
     \<lparr> wp_codec = ds_codec s, wp_timestamp = duration_from_time_base (dp_pts p) (ds_time_base s),
       wp_duration = (case duration_from_packet (dp_duration p) (ds_time_base s) of
           Some d \<Rightarrow> Some d | None \<Rightarrow> Some (ds_nominal s)),
       wp_is_keyframe = dp_is_key p, wp_data = data \<rparr>"

fun demux_loop ::
  "demux_stream \<Rightarrow> bool \<Rightarrow> duration option \<Rightarrow> demux_packet list \<Rightarrow> worker_out \<Rightarrow> (str + unit) \<times> worker_out" where
  "demux_loop s is_local first [] out = (Inr (), out)"
| "demux_loop s is_local first (p # ps) out =
     (if dp_cancelled p then (Inr (), out)
      else if dp_stream p \<noteq> ds_index s then demux_loop s is_local first ps out
      else
        (let (due, first') = (if is_local then packet_due (ds_time_base s) (dp_pts p) first else (None, first));
             out1 = (case due of Some d \<Rightarrow> out\<lparr> wo_due := wo_due out @ [d] \<rparr> | None \<Rightarrow> out)
         in case dp_data p of
              None \<Rightarrow> (Inl ''ffmpeg returned a packet with no payload'', out1)
            | Some raw \<Rightarrow>
                (case normalize_encoded_packet (ds_codec s) raw (dp_is_key p) (ds_config s) of
                   Inl e \<Rightarrow> (Inl e, out1)
                 | Inr normalized \<Rightarrow>
                     (let (ok, out2) = blocking_send (demuxed s p normalized) out1
                      in if ok then demux_loop s is_local first' ps out2 else (Inr (), out2)))))"

text \<open>What opening the input gives: its best video stream and the packets that follow.\<close>

record opened_stream =
  os_index :: nat
  os_time_base :: rational
  os_codec :: codec_id
  os_avg_frame_rate :: rational
  os_extradata :: "u8 list option"

type_synonym opened_input = "opened_stream option \<times> demux_packet list"

definition demux_packets ::
  "opened_input ffmpeg_open \<Rightarrow> str \<Rightarrow> input_spec \<Rightarrow> duration \<Rightarrow> bool \<Rightarrow> worker_out
     \<Rightarrow> (str + unit) \<times> worker_out" where
  "demux_packets ff input spec default_frame_duration is_local out =
     (case res_bind (open_media_input ff input spec) (\<lambda>(best, packets).
             res_bind (best_video_stream best input) (\<lambda>stream.
             res_bind (codec_name (os_codec stream)) (\<lambda>codec.
             res_bind (if codec = ''h264'' then extract_h264_config (os_extradata stream) else Inr None)
               (\<lambda>config. Inr (\<lparr> ds_index = os_index stream, ds_time_base = os_time_base stream,
                   ds_codec = codec,
                   ds_nominal = unwrap_or default_frame_duration
                     (frame_duration_from_rate (os_avg_frame_rate stream)),
                   ds_config = config \<rparr>, packets))))) of
        Inl e \<Rightarrow> (Inl e, out)
      | Inr (s, packets) \<Rightarrow> demux_loop s is_local None packets out)"

section \<open>Transcoding\<close>

record encoder_packet =
  en_data :: "u8 list option"
  en_is_key :: bool
  en_pts :: "i64 option"
  en_duration :: i64

record filtered_frame =
  fl_send :: "str + unit"
  fl_packets :: "encoder_packet list"

record decoded_answer =
  de_input_node :: bool
  de_add :: "str + unit"
  de_output_node :: bool
  de_filtered :: "filtered_frame list"

record transcoder =
  tr_time_base :: rational
  tr_config :: "h264_config option"
  tr_nominal :: duration

definition transcoded :: "transcoder \<Rightarrow> encoder_packet \<Rightarrow> u8 list \<Rightarrow> worker_message" where
  "transcoded t e data = PacketMessage
     \<lparr> wp_codec = ''h264'', wp_timestamp = duration_from_time_base (en_pts e) (tr_time_base t),
       wp_duration = (case duration_from_packet (en_duration e) (tr_time_base t) of
           Some d \<Rightarrow> Some d | None \<Rightarrow> Some (tr_nominal t)),
       wp_is_keyframe = en_is_key e, wp_data = data \<rparr>"

fun receive_encoded_packets ::
  "transcoder \<Rightarrow> encoder_packet list \<Rightarrow> worker_out \<Rightarrow> (str + unit) \<times> worker_out" where
  "receive_encoded_packets t [] out = (Inr (), out)"
| "receive_encoded_packets t (e # es) out =
     (case en_data e of
        None \<Rightarrow> (Inl ''encoder returned a packet with no payload'', out)
      | Some raw \<Rightarrow>
          (case normalize_h264_payload raw (en_is_key e) (tr_config t) of
             Inl err \<Rightarrow> (Inl err, out)
           | Inr normalized \<Rightarrow>
               (let (ok, out') = blocking_send (transcoded t e normalized) out
                in if ok then receive_encoded_packets t es out' else (Inr (), out'))))"

text \<open>One call after another, stopping at the first error.\<close>

fun run_each ::
  "('a \<Rightarrow> worker_out \<Rightarrow> (str + unit) \<times> worker_out) \<Rightarrow> 'a list \<Rightarrow> worker_out \<Rightarrow> (str + unit) \<times> worker_out" where
  "run_each f [] out = (Inr (), out)"
| "run_each f (x # xs) out =
     (case f x out of (Inl e, out') \<Rightarrow> (Inl e, out') | (Inr _, out') \<Rightarrow> run_each f xs out')"

definition encode_frame :: "transcoder \<Rightarrow> filtered_frame \<Rightarrow> worker_out \<Rightarrow> (str + unit) \<times> worker_out" where
  "encode_frame t f out =
     (case fl_send f of
        Inl e \<Rightarrow> (Inl (''failed to send frame to encoder: '' @ e), out)
      | Inr _ \<Rightarrow> receive_encoded_packets t (fl_packets f) out)"

definition receive_filtered_frames ::
  "transcoder \<Rightarrow> bool \<Rightarrow> filtered_frame list \<Rightarrow> worker_out \<Rightarrow> (str + unit) \<times> worker_out" where
  "receive_filtered_frames t output_node frames out =
     (if \<not> output_node then (Inl ''filter graph is missing the output node'', out)
      else run_each (encode_frame t) frames out)"

definition filter_frame :: "transcoder \<Rightarrow> decoded_answer \<Rightarrow> worker_out \<Rightarrow> (str + unit) \<times> worker_out" where
  "filter_frame t d out =
     (if \<not> de_input_node d then (Inl ''filter graph is missing the input node'', out)
      else (case de_add d of
          Inl e \<Rightarrow> (Inl (''failed to push frame into filter graph: '' @ e), out)
        | Inr _ \<Rightarrow> receive_filtered_frames t (de_output_node d) (de_filtered d) out))"

definition receive_decoded_frames ::
  "transcoder \<Rightarrow> decoded_answer list \<Rightarrow> worker_out \<Rightarrow> (str + unit) \<times> worker_out" where
  "receive_decoded_frames t = run_each (filter_frame t)"

record input_packet =
  ip_cancelled :: bool
  ip_stream :: nat
  ip_pts :: "i64 option"
  ip_time_base :: rational
  ip_send :: "str + unit"
  ip_decoded :: "decoded_answer list"

text \<open>The end of a transcoding run: end of file to the decoder, the filter and the encoder.\<close>

record transcode_end =
  te_decoder_eof :: "str + unit"
  te_decoded :: "decoded_answer list"
  te_input_node :: bool
  te_flush :: "str + unit"
  te_output_node :: bool
  te_filtered :: "filtered_frame list"
  te_encoder_eof :: "str + unit"
  te_packets :: "encoder_packet list"

definition and_then ::
  "(str + unit) \<times> worker_out \<Rightarrow> (worker_out \<Rightarrow> (str + unit) \<times> worker_out) \<Rightarrow> (str + unit) \<times> worker_out" where
  "and_then r f = (case r of (Inl e, out) \<Rightarrow> (Inl e, out) | (Inr _, out) \<Rightarrow> f out)"

definition transcode_finish :: "transcoder \<Rightarrow> transcode_end \<Rightarrow> worker_out \<Rightarrow> (str + unit) \<times> worker_out" where
  "transcode_finish t e out0 =
     and_then (map_err (\<lambda>m. ''failed to send decoder EOF: '' @ m) (te_decoder_eof e), out0) (\<lambda>out1.
     and_then (receive_decoded_frames t (te_decoded e) out1) (\<lambda>out2.
     and_then (if te_input_node e
         then map_err (\<lambda>m. ''failed to flush video filter graph: '' @ m) (te_flush e)
         else Inl ''filter graph is missing the input node'', out2) (\<lambda>out3.
     and_then (receive_filtered_frames t (te_output_node e) (te_filtered e) out3) (\<lambda>out4.
     and_then (map_err (\<lambda>m. ''failed to send encoder EOF: '' @ m) (te_encoder_eof e), out4) (\<lambda>out5.
       receive_encoded_packets t (te_packets e) out5)))))"

fun transcode_loop ::
  "transcoder \<Rightarrow> nat \<Rightarrow> bool \<Rightarrow> transcode_end \<Rightarrow> duration option \<Rightarrow> input_packet list \<Rightarrow> worker_out
     \<Rightarrow> (str + unit) \<times> worker_out" where
  "transcode_loop t index is_local e first [] out = transcode_finish t e out"
| "transcode_loop t index is_local e first (p # ps) out =
     (if ip_cancelled p then transcode_finish t e out
      else if ip_stream p \<noteq> index then transcode_loop t index is_local e first ps out
      else
        (let (due, first') = (if is_local then packet_due (ip_time_base p) (ip_pts p) first else (None, first));
             out1 = (case due of Some d \<Rightarrow> out\<lparr> wo_due := wo_due out @ [d] \<rparr> | None \<Rightarrow> out)
         in and_then (map_err (\<lambda>m. ''failed to send packet to decoder: '' @ m) (ip_send p), out1) (\<lambda>out2.
            and_then (receive_decoded_frames t (ip_decoded p) out2) (\<lambda>out3.
              transcode_loop t index is_local e first' ps out3))))"

end
