(* ===== verification/Caml_Transcode.thy ===== *)
theory Caml_Transcode
  imports Caml_Worker
begin

text \<open>
  How a transcoding run is set up: \<open>transcode_packets\<close>, \<open>VideoTranscoder::new\<close> and the opening of
  the decoder, the filter graph and the encoder, all of \<^verbatim>\<open>crates/caml-ffmpeg/src/transcode.rs\<close>, and
  with it the run of a worker in either mode (\<^verbatim>\<open>worker.rs\<close>).

  FFmpeg's answers are a record of functions. The error of a call of FFmpeg is the text it displays.
  The threading options, which are constants, are left out.
\<close>

section \<open>What FFmpeg answers\<close>

record av_decoder =
  ad_width :: u32
  ad_height :: u32
  ad_format_name :: "str option"
  ad_aspect_ratio :: rational

datatype encoder_choice = NamedEncoder str | AnyH264Encoder

record encoder_settings =
  es_width :: u32
  es_height :: u32
  es_aspect_ratio :: rational
  es_frame_rate :: rational
  es_time_base :: rational
  es_bit_rate :: usize
  es_max_b_frames :: nat
  es_gop :: u32

record av_encoder =
  ae_time_base :: rational
  ae_extradata :: "u8 list option"

record ffmpeg_codecs =
  decoder_context :: "opened_stream \<Rightarrow> str + unit"
  open_default_decoder :: "opened_stream \<Rightarrow> str + av_decoder"
  finds_decoder :: "str \<Rightarrow> bool"
  open_named_decoder :: "str \<Rightarrow> opened_stream \<Rightarrow> str + av_decoder"
  finds_filter :: "str \<Rightarrow> bool"
  add_filter :: "str \<Rightarrow> str \<Rightarrow> str \<Rightarrow> str + unit"
  gets_output_node :: bool
  parse_graph :: "str \<Rightarrow> str + unit"
  validate_graph :: "str \<Rightarrow> str + unit"
  finds_encoder :: "str \<Rightarrow> bool"
  finds_h264_encoder :: bool
  encoder_context :: "encoder_choice \<Rightarrow> str + unit"
  open_encoder :: "encoder_choice \<Rightarrow> encoder_settings \<Rightarrow> dictionary \<Rightarrow> str + av_encoder"

section \<open>The decoder\<close>

text \<open>The name of the decoder that the Raspberry Pi 5 backend asks for.\<close>

fun pi5_decoder_name :: "codec_id \<Rightarrow> str + str" where
  "pi5_decoder_name CodecH264 = Inr ''h264_v4l2request''"
| "pi5_decoder_name CodecHevc = Inr ''hevc_v4l2request''"
| "pi5_decoder_name (CodecOther other) =
     Inl (''Raspberry Pi 5 hardware decode only supports H.264/H.265 inputs; stream codec was '' @ quoted other)"

definition find_pi5_decoder :: "ffmpeg_codecs \<Rightarrow> codec_id \<Rightarrow> str + str" where
  "find_pi5_decoder ff codec =
     res_bind (pi5_decoder_name codec) (\<lambda>name.
       if finds_decoder ff name then Inr name
       else Inl (''the local FFmpeg build does not expose the '' @ quoted name @ '' hardware decoder''))"

definition open_video_decoder ::
  "ffmpeg_codecs \<Rightarrow> opened_stream \<Rightarrow> transcode_backend \<Rightarrow> str + av_decoder" where
  "open_video_decoder ff stream backend =
     res_bind (map_err (\<lambda>e. ''failed to create decoder context: '' @ e) (decoder_context ff stream)) (\<lambda>_.
       case backend of
         Pi5HardwareDecode \<Rightarrow>
           res_bind (find_pi5_decoder ff (os_codec stream)) (\<lambda>name.
             map_err (\<lambda>e. ''failed to open Raspberry Pi 5 hardware decoder '' @ quoted name @ '': '' @ e)
               (open_named_decoder ff name stream))
       | _ \<Rightarrow> map_err (\<lambda>e. ''failed to open video decoder: '' @ e) (open_default_decoder ff stream))"

section \<open>The filter graph\<close>

definition buffer_args :: "av_decoder \<Rightarrow> rational \<Rightarrow> str" where
  "buffer_args decoder time_base =
     (let aspect = sanitize_rational (ad_aspect_ratio decoder) in
      ''video_size='' @ show_unsigned (ad_width decoder) @ ''x'' @ show_unsigned (ad_height decoder) @
      '':pix_fmt='' @ unwrap_or ''yuv420p'' (ad_format_name decoder) @
      '':time_base='' @ show_int (sint (numerator time_base)) @ ''/'' @ show_int (sint (denominator time_base)) @
      '':pixel_aspect='' @ show_int (sint (numerator aspect)) @ ''/'' @ show_int (sint (denominator aspect)))"

definition add_node :: "ffmpeg_codecs \<Rightarrow> str \<Rightarrow> str \<Rightarrow> str \<Rightarrow> str + unit" where
  "add_node ff filter_name node args =
     (if \<not> finds_filter ff filter_name then Inl (''FFmpeg '' @ quoted filter_name @ '' filter is unavailable'')
      else map_err (\<lambda>e. ''failed to add '' @ filter_name @ '' filter: '' @ e) (add_filter ff filter_name node args))"

definition build_video_filter ::
  "ffmpeg_codecs \<Rightarrow> av_decoder \<Rightarrow> rational \<Rightarrow> rotation \<Rightarrow> compiled_overlay_profile option \<Rightarrow> str + unit" where
  "build_video_filter ff decoder time_base rotation overlay =
     res_bind (add_node ff ''buffer'' ''in'' (buffer_args decoder time_base)) (\<lambda>_.
     res_bind (add_node ff ''buffersink'' ''out'' []) (\<lambda>_.
     if \<not> gets_output_node ff then Inl ''filter graph is missing the output node''
     else
       (let filter_spec = build_filter_spec rotation overlay in
        res_bind (map_err (\<lambda>e. ''failed to parse filter graph: '' @ e) (parse_graph ff filter_spec)) (\<lambda>_.
          map_err (\<lambda>e. ''failed to validate filter graph: '' @ e) (validate_graph ff filter_spec)))))"

section \<open>The encoder\<close>

definition choose_encoder :: "ffmpeg_codecs \<Rightarrow> transcode_backend \<Rightarrow> str + encoder_choice" where
  "choose_encoder ff backend =
     (if backend = Pi4HardwareEncode
      then (if finds_encoder ff ''h264_v4l2m2m'' then Inr (NamedEncoder ''h264_v4l2m2m'')
            else Inl (''the local FFmpeg build does not expose the '' @ quoted ''h264_v4l2m2m'' @
                   '' Raspberry Pi hardware encoder''))
      else if finds_encoder ff ''libx264'' then Inr (NamedEncoder ''libx264'')
      else if finds_h264_encoder ff then Inr AnyH264Encoder
      else Inl ''no software H.264 encoder was found in the local FFmpeg build'')"

definition encoder_settings_for ::
  "av_decoder \<Rightarrow> compiled_processing_profile \<Rightarrow> u32 \<Rightarrow> u32 \<Rightarrow> encoder_settings" where
  "encoder_settings_for decoder processing output_width output_height =
     (let frame_rate = cp_out_frame_rate processing :: i32 in
      \<lparr> es_width = output_width, es_height = output_height, es_aspect_ratio = ad_aspect_ratio decoder,
        es_frame_rate = \<lparr> numerator = frame_rate, denominator = 1 \<rparr>,
        es_time_base = \<lparr> numerator = 1, denominator = frame_rate \<rparr>,
        es_bit_rate = cp_bitrate_bps processing, es_max_b_frames = 0,
        es_gop = saturating_mul (cp_out_frame_rate processing) 2 \<rparr>)"

definition encoder_options :: "compiled_processing_profile \<Rightarrow> dictionary" where
  "encoder_options processing =
     (if trim (cp_preset processing) \<noteq> [] then [(''preset'', trim (cp_preset processing))] else []) @
     (if trim (cp_tune processing) \<noteq> [] then [(''tune'', trim (cp_tune processing))] else [])"

fun open_encoder_error :: "transcode_backend \<Rightarrow> str \<Rightarrow> str" where
  "open_encoder_error SoftwareBackend e = ''failed to open software H.264 encoder: '' @ e"
| "open_encoder_error Pi4HardwareEncode e = ''failed to open Raspberry Pi 4 hardware H.264 encoder: '' @ e"
| "open_encoder_error Pi5HardwareDecode e =
     ''failed to open software H.264 encoder after Pi 5 hardware decode: '' @ e"

definition open_h264_encoder ::
  "ffmpeg_codecs \<Rightarrow> av_decoder \<Rightarrow> compiled_processing_profile \<Rightarrow> transcode_backend \<Rightarrow> u32 \<Rightarrow> u32
     \<Rightarrow> str + av_encoder" where
  "open_h264_encoder ff decoder processing backend output_width output_height =
     res_bind (choose_encoder ff backend) (\<lambda>codec.
     res_bind (map_err (\<lambda>e. ''failed to create H.264 encoder context: '' @ e) (encoder_context ff codec)) (\<lambda>_.
       map_err (open_encoder_error backend)
         (open_encoder ff codec (encoder_settings_for decoder processing output_width output_height)
           (encoder_options processing))))"

section \<open>The transcoder\<close>

definition transcoder_new ::
  "ffmpeg_codecs \<Rightarrow> opened_stream \<Rightarrow> compiled_processing_profile \<Rightarrow> compiled_overlay_profile option
     \<Rightarrow> transcode_backend \<Rightarrow> duration \<Rightarrow> str + transcoder" where
  "transcoder_new ff stream processing overlay backend nominal_duration =
     res_bind (open_video_decoder ff stream backend) (\<lambda>decoder.
     res_bind (normalize_rotation (cp_rotation processing)) (\<lambda>rotation.
       let (output_width, output_height) = rotated_dimensions (ad_width decoder) (ad_height decoder) rotation in
       res_bind (build_video_filter ff decoder (os_time_base stream) rotation overlay) (\<lambda>_.
       res_bind (open_h264_encoder ff decoder processing backend output_width output_height) (\<lambda>encoder.
       res_bind (extract_h264_config (ae_extradata encoder)) (\<lambda>config.
         Inr \<lparr> tr_time_base = ae_time_base encoder, tr_config = config, tr_nominal = nominal_duration \<rparr>)))))"

type_synonym transcode_input = "opened_stream option \<times> input_packet list \<times> transcode_end"

definition transcode_packets ::
  "transcode_input ffmpeg_open \<Rightarrow> ffmpeg_codecs \<Rightarrow> str \<Rightarrow> input_spec \<Rightarrow> compiled_processing_profile
     \<Rightarrow> compiled_overlay_profile option \<Rightarrow> transcode_backend \<Rightarrow> duration \<Rightarrow> bool \<Rightarrow> worker_out
     \<Rightarrow> (str + unit) \<times> worker_out" where
  "transcode_packets ff codecs input spec processing overlay backend default_frame_duration is_local out =
     (case res_bind (open_media_input ff input spec) (\<lambda>(best, packets, fin).
             let nominal_duration = unwrap_or default_frame_duration (frame_duration_from_processing processing) in
             res_bind (best_video_stream best input) (\<lambda>stream.
             res_bind (transcoder_new codecs stream processing overlay backend nominal_duration) (\<lambda>t.
               Inr (os_index stream, t, packets, fin)))) of
        Inl e \<Rightarrow> (Inl e, out)
      | Inr (index, t, packets, fin) \<Rightarrow> transcode_loop t index is_local fin None packets out)"

section \<open>One run of a worker\<close>

definition is_local_file :: "str \<Rightarrow> bool" where
  "is_local_file input =
     (\<not> starts_with ''rtsp://'' input \<and> \<not> starts_with ''rtmp://'' input \<and>
      \<not> starts_with ''http://'' input \<and> \<not> starts_with ''https://'' input \<and>
      \<not> starts_with ''/dev/video'' input)"

text \<open>
  One run of a worker in its mode; what FFmpeg answers in this run is the record, so that every
  turn of the worker may meet another world.
\<close>

record worker_env =
  we_demux :: "opened_input ffmpeg_open"
  we_transcode :: "transcode_input ffmpeg_open"
  we_codecs :: ffmpeg_codecs

definition worker_run :: "worker_spec \<Rightarrow> worker_env \<Rightarrow> worker_out \<Rightarrow> (str + unit) \<times> worker_out" where
  "worker_run spec env =
     (let is_local = is_local_file (wk_input spec) in
      case wk_mode spec of
        PassthroughMode default_frame_duration \<Rightarrow>
          demux_packets (we_demux env) (wk_input spec) (wk_input_spec spec) default_frame_duration is_local
      | TranscodeMode processing overlay backend default_frame_duration \<Rightarrow>
          transcode_packets (we_transcode env) (we_codecs env) (wk_input spec) (wk_input_spec spec)
            processing overlay backend default_frame_duration is_local)"

end
