(* ===== verification/Caml_Source.thy ===== *)
theory Caml_Source
  imports Caml_Transcode
begin

text \<open>
  The worker thread with its retries (\<open>run_worker\<close> of \<^verbatim>\<open>crates/caml-ffmpeg/src/worker.rs\<close>), and the
  source that starts it and receives its messages (\<^verbatim>\<open>source.rs\<close>). The sleeps between two turns are
  left out.
\<close>

section \<open>The worker\<close>

text \<open>
  One turn of the worker: whether it was cancelled before it, and what FFmpeg answers in it. A run
  that uses up its turns is still running.
\<close>

record worker_turn =
  wt_cancelled :: bool
  wt_env :: worker_env

datatype worker_end = WorkerRunning | WorkerDone

fun worker_loop :: "worker_spec \<Rightarrow> worker_turn list \<Rightarrow> worker_out \<Rightarrow> worker_end \<times> worker_out" where
  "worker_loop spec [] out = (WorkerRunning, out)"
| "worker_loop spec (t # ts) out =
     (if wt_cancelled t then (WorkerDone, out)
      else
        (let (result, out1) = worker_run spec (wt_env t) out;
             out2 = (case result of
                 Inl e \<Rightarrow> snd (blocking_send (RecoverableMessage (pipeline_msg (wk_pipeline_id spec)
                   (''failed during FFmpeg execution: '' @ e))) out1)
               | Inr _ \<Rightarrow> out1)
         in if is_local_file (wk_input spec) then worker_loop spec ts out2
            else (case result of
                Inr _ \<Rightarrow> (WorkerDone, snd (blocking_send EndMessage out2))
              | Inl _ \<Rightarrow> worker_loop spec ts out2)))"

definition run_worker :: "bool \<Rightarrow> worker_spec \<Rightarrow> worker_turn list \<Rightarrow> worker_out \<Rightarrow> worker_end \<times> worker_out" where
  "run_worker initialised spec turns out =
     (if \<not> initialised
      then (WorkerDone, snd (blocking_send
             (ErrorMessage ''ffmpeg initialization failed; verify FFmpeg libraries are available'') out))
      else worker_loop spec turns out)"

section \<open>The source\<close>

text \<open>
  \<open>FfmpegSource::next\<close> for the next message, or for none if the worker is gone; \<open>None\<close> is a panic
  of the pool.
\<close>

fun ffmpeg_source_next ::
  "worker_message option \<Rightarrow> store \<Rightarrow> ((runtime_error + media_payload) \<times> store) option" where
  "ffmpeg_source_next (Some (PacketMessage p)) st =
     map_option (\<lambda>(buf, st'). (Inr (EncodedPacket
         \<lparr> ep_codec = wp_codec p, ep_timestamp = wp_timestamp p, ep_duration = wp_duration p,
           ep_is_keyframe = wp_is_keyframe p, ep_data = Pooled buf \<rparr>), st'))
       (publish_payload (wp_data p) st)"
| "ffmpeg_source_next (Some EndMessage) st = Some (Inr EndOfStream, st)"
| "ffmpeg_source_next None st = Some (Inr EndOfStream, st)"
| "ffmpeg_source_next (Some (RecoverableMessage m)) st = Some (Inl (Recoverable m), st)"
| "ffmpeg_source_next (Some (ErrorMessage m)) st = Some (Inl (Source m), st)"

text \<open>
  \<open>FfmpegSourceFactory::build_source\<close>: a source whose name contains \<open>mock\<close> is scripted, otherwise
  the worker is started (\<open>spawn\<close> is the error of starting a thread, if there is one).
\<close>

datatype ffmpeg_source_kind = ScriptedSource | WorkerSource worker_spec

definition ffmpeg_build_source ::
  "overlay_host \<Rightarrow> str option \<Rightarrow> compiled_pipeline \<Rightarrow> runtime_error + ffmpeg_source_kind" where
  "ffmpeg_build_source host spawn pipeline =
     (if starts_with ''mock:'' (ci_source (cpl_input pipeline)) \<or> contains ''mock'' (ci_source (cpl_input pipeline))
      then Inr ScriptedSource
      else res_bind (worker_spec_for_pipeline host pipeline) (\<lambda>spec.
        case spawn of
          Some e \<Rightarrow> Inl (Adapter (''failed to spawn FFmpeg worker for '' @ quoted (cpl_id pipeline) @ '': '' @ e))
        | None \<Rightarrow> Inr (WorkerSource spec)))"

definition scripted_packet :: "nat \<Rightarrow> worker_packet" where
  "scripted_packet i =
     \<lparr> wp_codec = ''h264'', wp_timestamp = Some (from_millis (of_nat i * 33)),
       wp_duration = Some (from_millis 33), wp_is_keyframe = (i = 0),
       wp_data = [0, 0, 0, 1, 0x65, of_nat i, 0, 0, 0] \<rparr>"

text \<open>What the scripted source sends if it is not cancelled and its receiver stays.\<close>

definition scripted_messages :: "worker_message list" where
  "scripted_messages = map (\<lambda>i. PacketMessage (scripted_packet i)) [0..<5] @ [EndMessage]"

end
