(* ===== verification/Caml_Worker_Correct.thy ===== *)
theory Caml_Worker_Correct
  imports Caml_Source Caml_Compiler_Correct
begin

text \<open>
  What the FFmpeg crate's own code guarantees: the filter graph it describes is a linked chain with
  sound escaping and exact transparencies, the loops send exactly the packets of the chosen stream
  in order, and which compiled pipelines the worker accepts.
\<close>

section \<open>Escaping\<close>

text \<open>How escaped text is read back: a backslash makes the next character literal.\<close>

fun unescape :: "str \<Rightarrow> (bool \<times> char) list" where
  "unescape [] = []"
| "unescape [c] = [(False, c)]"
| "unescape (c # d # s) =
     (if c = backslash then (True, d) # unescape s else (False, c) # unescape (d # s))"

lemma unescape_escaped: "unescape (backslash # d # s) = (True, d) # unescape s"
  by simp

lemma unescape_plain: "c \<noteq> backslash \<Longrightarrow> unescape (c # s) = (False, c) # unescape s"
  by (cases s) auto

lemma replace_all_simps [simp]:
  "replace_all c t [] = []" "replace_all c t (x # s) = (if x = c then t else [x]) @ replace_all c t s"
  "replace_all c t (s @ s') = replace_all c t s @ replace_all c t s'"
  by (simp_all add: replace_all_def)

definition special :: "char \<Rightarrow> bool" where
  "special c \<longleftrightarrow> c = backslash \<or> c = CHR '':'' \<or> c = apostrophe"

lemma escape_filter_value_Cons:
  "escape_filter_value [] = []"
  "escape_filter_value (c # s) = (if special c then [backslash, c] else [c]) @ escape_filter_value s"
  by (auto simp: escape_filter_value_def special_def)

lemma unescape_filter_value:
  "unescape (escape_filter_value s) = map (\<lambda>c. (special c, c)) s"
proof (induction s)
  case (Cons c s)
  show ?case
  proof (cases "special c")
    case False
    then have "c \<noteq> backslash" by (auto simp: special_def)
    with False Cons show ?thesis by (simp add: escape_filter_value_Cons unescape_plain)
  qed (simp add: Cons escape_filter_value_Cons)
qed (simp add: escape_filter_value_Cons)

lemma escape_drawtext_text_Cons:
  "escape_drawtext_text [] = []"
  "escape_drawtext_text (c # s) =
     (if special c \<or> c = CHR ''%'' then [backslash, c] else [c]) @ escape_drawtext_text s"
  by (auto simp: escape_drawtext_text_def escape_filter_value_Cons special_def)

lemma unescape_drawtext_text:
  "unescape (escape_drawtext_text s) = map (\<lambda>c. (special c \<or> c = CHR ''%'', c)) s"
proof (induction s)
  case (Cons c s)
  show ?case
  proof (cases "special c \<or> c = CHR ''%''")
    case False
    then have "c \<noteq> backslash" by (auto simp: special_def)
    with False Cons show ?thesis by (simp add: escape_drawtext_text_Cons unescape_plain)
  qed (simp add: Cons escape_drawtext_text_Cons)
qed (simp add: escape_drawtext_text_Cons)

lemma escape_expansion_Cons:
  "escape_drawtext_expansion_format [] = []"
  "escape_drawtext_expansion_format (c # s) =
     (if c = backslash then [backslash, backslash, backslash, backslash]
      else if c = CHR '':'' then [backslash, backslash, backslash, CHR '':'']
      else if c = apostrophe then [backslash, apostrophe] else [c]) @ escape_drawtext_expansion_format s"
  by (auto simp: escape_drawtext_expansion_format_def)

lemma unescape_expansion:
  "map snd (unescape (map snd (unescape (escape_drawtext_expansion_format s)))) = s"
proof (induction s)
  case (Cons c s)
  consider "c = backslash" | "c = CHR '':''" | "c = apostrophe"
    | "c \<noteq> backslash" "c \<noteq> CHR '':''" "c \<noteq> apostrophe" by blast
  then show ?case
    by cases (simp_all add: Cons escape_expansion_Cons unescape_plain)
qed (simp add: escape_expansion_Cons)

text \<open>
  Escaping a value for the filter graph loses nothing: taking the backslashes away again gives
  the original characters, of which exactly the backslashes, colons and apostrophes (and in a text
  also the percent signs) were escaped, and a time format, from which they are taken away twice,
  survives both times. (Where the value is put between apostrophes, FFmpeg reads backslashes as they
  are; the theorem is about the escaping, not about that.)
\<close>

theorem filter_escaping_roundtrip:
  "unescape (escape_filter_value s) = map (\<lambda>c. (special c, c)) s \<and>
   unescape (escape_drawtext_text s) = map (\<lambda>c. (special c \<or> c = CHR ''%'', c)) s \<and>
   map snd (unescape (map snd (unescape (escape_drawtext_expansion_format s)))) = s"
  by (intro conjI unescape_filter_value unescape_drawtext_text unescape_expansion)

section \<open>The chain of stages\<close>

text \<open>A segment of the description: what it reads, its filter, and the label it writes.\<close>

record link =
  l_ins :: "str list"
  l_filter :: str
  l_out :: str

definition render :: "link \<Rightarrow> str" where
  "render l = concat (map label (l_ins l)) @ l_filter l @ label (l_out l)"

fun layer_links :: "nat \<Rightarrow> compiled_overlay_layer \<Rightarrow> link list" where
  "layer_links i (CompiledTimestamp timestamp) =
     [\<lparr> l_ins = [stage i], l_filter = drawtext_filter_for_timestamp timestamp, l_out = stage (i + 1) \<rparr>]"
| "layer_links i (CompiledText txt) =
     [\<lparr> l_ins = [stage i], l_filter = drawtext_filter_for_text (cx_text txt) (cx_style txt),
        l_out = stage (i + 1) \<rparr>]"
| "layer_links i (CompiledWatermark watermark) =
     [\<lparr> l_ins = [], l_filter = watermark_filter_chain watermark, l_out = ''wm'' @ show_nat i \<rparr>,
      \<lparr> l_ins = [stage i, ''wm'' @ show_nat i],
        l_filter = ''overlay='' @ overlay_position_expr (cw_position watermark) (cw_margin watermark),
        l_out = stage (i + 1) \<rparr>]"

fun links_from :: "nat \<Rightarrow> compiled_overlay_layer list \<Rightarrow> link list" where
  "links_from i [] = [\<lparr> l_ins = [stage i], l_filter = ''null'', l_out = ''out'' \<rparr>]"
| "links_from i (layer # layers) = layer_links i layer @ links_from (i + 1) layers"

definition filter_links :: "rotation \<Rightarrow> compiled_overlay_profile option \<Rightarrow> link list" where
  "filter_links rotation overlay =
     (case overlay of
        None \<Rightarrow> [\<lparr> l_ins = [''in''], l_filter = rotation_filter_spec rotation, l_out = ''out'' \<rparr>]
      | Some profile \<Rightarrow>
          \<lparr> l_ins = [''in''], l_filter = rotation_filter_spec rotation, l_out = stage 0 \<rparr>
            # links_from 0 (co_layers profile))"

lemma render_layer: "layer_segments i layer = map render (layer_links i layer)"
  by (cases layer) (simp_all add: render_def)

lemma render_from: "segments_from i layers = map render (links_from i layers)"
  by (induction layers arbitrary: i) (simp_all add: render_layer, simp add: render_def label_def)

lemma render_links: "filter_segments rotation overlay = map render (filter_links rotation overlay)"
  by (cases overlay) (simp_all add: filter_segments_def filter_links_def render_from render_def label_def)

lemma show_nat_inject [simp]: "show_nat m = show_nat n \<longleftrightarrow> m = n"
  by (metis parse_nat_show_nat option.inject)

lemma label_names [simp]:
  "stage i = stage j \<longleftrightarrow> i = j" "stage i \<noteq> ''out''" "stage i \<noteq> ''in''" "stage i \<noteq> ''wm'' @ show_nat j"
  by (simp_all add: stage_def)

lemma links_outs:
  "l \<in> set (links_from i layers) \<Longrightarrow>
     l_out l = ''out'' \<or> (\<exists>j > i. l_out l = stage j) \<or> (\<exists>j \<ge> i. l_out l = ''wm'' @ show_nat j)"
proof (induction layers arbitrary: i)
  case (Cons layer layers)
  from Cons.prems consider "l \<in> set (layer_links i layer)" | "l \<in> set (links_from (i + 1) layers)" by auto
  then show ?case
  proof cases
    case 1
    then show ?thesis by (cases layer) auto
  next
    case 2
    from Cons.IH [OF this] show ?thesis by (metis Suc_eq_plus1 Suc_leD Suc_lessD)
  qed
qed simp

lemma links_fresh:
  assumes "l \<in> set (links_from i layers)"
  shows "j \<le> i \<Longrightarrow> l_out l \<noteq> stage j" "j < i \<Longrightarrow> l_out l \<noteq> ''wm'' @ show_nat j"
  using links_outs [OF assms] by (auto simp: label_names(4) [symmetric] stage_def)

lemma links_distinct: "distinct (map l_out (links_from i layers))"
proof (induction layers arbitrary: i)
  case (Cons layer layers)
  have "stage (i + 1) \<notin> l_out ` set (links_from (i + 1) layers)"
    "''wm'' @ show_nat i \<notin> l_out ` set (links_from (i + 1) layers)"
    using links_fresh [of _ "i + 1" layers] by (metis imageE order_refl) (metis imageE links_fresh(2) less_add_one)
  with Cons show ?case by (cases layer) (auto simp: stage_def)
qed simp

lemma links_balance:
  "mset (concat (map l_ins (links_from i layers))) + {#''out''#} =
     mset (map l_out (links_from i layers)) + {#stage i#}"
proof (induction layers arbitrary: i)
  case (Cons layer layers)
  from Cons [of "i + 1"] show ?case by (cases layer) (simp_all add: add.commute add.left_commute)
qed simp

text \<open>
  C37: the description of the filter graph is a linked chain: its segments are filters in the order of
  the overlay's layers, every label is written by exactly one segment, and every label that is
  written is read by exactly one, except that the graph as a whole reads the input and writes the
  output, so no layer is skipped or applied twice.
\<close>

theorem filter_graph_linked:
  "build_filter_spec rotation overlay = join_with '';'' (map render (filter_links rotation overlay)) \<and>
   distinct (map l_out (filter_links rotation overlay)) \<and>
   mset (concat (map l_ins (filter_links rotation overlay))) + {#''out''#} =
     mset (map l_out (filter_links rotation overlay)) + {#''in''#}"
proof (intro conjI)
  show "build_filter_spec rotation overlay = join_with '';'' (map render (filter_links rotation overlay))"
    by (simp add: build_filter_spec_def render_links)
  show "distinct (map l_out (filter_links rotation overlay))"
  proof (cases overlay)
    case (Some profile)
    have "stage 0 \<notin> l_out ` set (links_from 0 (co_layers profile))"
      using links_fresh(1) [of _ 0 "co_layers profile" 0] by (metis imageE order_refl)
    with Some links_distinct show ?thesis by (simp add: filter_links_def)
  qed (simp add: filter_links_def)
  show "mset (concat (map l_ins (filter_links rotation overlay))) + {#''out''#} =
      mset (map l_out (filter_links rotation overlay)) + {#''in''#}"
    using links_balance [of 0] by (cases overlay) (simp_all add: filter_links_def add.commute)
qed

section \<open>Transparency\<close>

lemma round_half_even_error: "\<bar>of_int (round_half_even x) - x\<bar> \<le> 1 / 2"
proof -
  have "of_int \<lfloor>x\<rfloor> \<le> x" "x < of_int \<lfloor>x\<rfloor> + 1" by linarith+
  then show ?thesis by (auto simp: round_half_even_def Let_def abs_le_iff)
qed

lemma round_half_even_near: "\<bar>x - of_int m\<bar> < 1 / 2 \<Longrightarrow> round_half_even x = m"
proof -
  assume m: "\<bar>x - of_int m\<bar> < 1 / 2"
  show ?thesis
  proof (cases "of_int m \<le> x")
    case True
    with m have "\<lfloor>x\<rfloor> = m" by (intro floor_unique) linarith+
    with m True show ?thesis by (simp add: round_half_even_def Let_def)
  next
    case False
    with m have "\<lfloor>x\<rfloor> = m - 1" by (intro floor_unique) (simp; linarith)+
    with m False show ?thesis by (simp add: round_half_even_def Let_def; linarith)
  qed
qed

lemma round_f32_error:
  assumes "0 < x" "x < 4" "2 powi - 10 \<le> x"
  shows "\<exists>r. round_f32 x = Some r \<and> \<bar>r - x\<bar> \<le> 2 powi - 23"
proof -
  define l where "l = rat_log2 x"
  have l: "2 powi l \<le> x" "x < 2 powi (l + 1)" using rat_log2_bounds [OF assms(1)] by (simp_all add: l_def)
  have "(2 :: rat) powi l < 2 powi 2" using l(1) assms(2) by simp
  then have hi: "l \<le> 1" unfolding powi2_strict_mono by simp
  have "(2 :: rat) powi - 10 < 2 powi (l + 1)" using l(2) assms(3) by linarith
  then have lo: "- 10 \<le> l" unfolding powi2_strict_mono by simp
  define e where "e = l - 23"
  have e: "max (- 149) (rat_log2 x - 23) = e" using lo by (simp add: e_def l_def)
  define r :: rat where "r = of_int (round_half_even (x / 2 powi e)) * 2 powi e"
  have p: "(0 :: rat) < 2 powi e" by simp
  have "\<bar>of_int (round_half_even (x / 2 powi e)) - x / 2 powi e\<bar> * 2 powi e \<le> 1 / 2 * 2 powi e"
    using round_half_even_error by (intro mult_right_mono) simp_all
  moreover have "\<bar>of_int (round_half_even (x / 2 powi e)) - x / 2 powi e\<bar> * 2 powi e = \<bar>r - x\<bar>"
  proof -
    have "(of_int (round_half_even (x / 2 powi e)) - x / 2 powi e) * 2 powi e = r - x"
      by (simp add: r_def left_diff_distrib)
    then show ?thesis using p by (metis abs_mult abs_of_pos)
  qed
  moreover have "(2 :: rat) powi e \<le> 2 powi - 22" unfolding powi2_mono using hi by (simp add: e_def)
  moreover have "(1 :: rat) / 2 * 2 powi - 22 = 2 powi - 23" by (simp add: power_int_minus)
  ultimately have err: "\<bar>r - x\<bar> \<le> 2 powi - 23" by linarith
  have "(2 :: rat) powi - 23 \<le> 1" by (simp add: power_int_minus)
  then have "r < 5" using err assms(2) by linarith
  then have "r < 2 ^ 128" by (rule less_trans) simp
  moreover have "round_f32 x = (if r \<ge> 2 ^ 128 then None else Some (sgn x * r))"
    using assms(1) by (simp add: round_f32_def Let_def e r_def)
  ultimately show ?thesis using err assms(1) by simp
qed

text \<open>
  Every percentage a manifest can hold is printed as exactly its two decimals, although the code
  divides and prints in single precision.
\<close>

theorem alpha_text_exact:
  "alpha_text a = show_nat (unat a div 100) @ ''.'' @ pad_left 2 (show_nat (unat a mod 100))"
proof -
  define n where "n = unat a"
  have n: "n < 256" using unsigned_less [of a, where ?'a = nat] by (simp add: n_def)
  obtain q where q: "round_f32 (of_nat n / 100) = Some q" "\<bar>q * 100 - of_nat n\<bar> < 1 / 2"
  proof (cases "n = 0")
    case True
    then show ?thesis by (intro that [of 0]) simp_all
  next
    case False
    then have "(1 :: rat) \<le> of_nat n" by simp
    moreover have "(of_nat n :: rat) < 256" using n by simp
    ultimately obtain r where r: "round_f32 (of_nat n / 100) = Some r" "\<bar>r - of_nat n / 100\<bar> \<le> 2 powi - 23"
      using round_f32_error [of "of_nat n / 100"] by (auto simp: power_int_minus field_simps)
    have "r * 100 - of_nat n = 100 * (r - of_nat n / 100)" by (simp add: algebra_simps)
    then have "\<bar>r * 100 - of_nat n\<bar> = 100 * \<bar>r - of_nat n / 100\<bar>" by (simp only: abs_mult abs_numeral)
    also have "\<dots> \<le> 100 * 2 powi - 23" using r(2) by simp
    also have "\<dots> < 1 / 2" by (simp add: power_int_minus)
    finally show ?thesis using r(1) by (intro that)
  qed
  have "round_half_even (q * 100) = int n" using q(2) by (intro round_half_even_near) simp
  with q(1) show ?thesis
    by (simp add: alpha_text_def alpha_percent_to_decimal_def n_def [symmetric] Let_def)
qed

section \<open>Demuxing\<close>

text \<open>The message of a packet, or why it has none.\<close>

definition message_of :: "demux_stream \<Rightarrow> demux_packet \<Rightarrow> str + worker_message" where
  "message_of s p =
     (case dp_data p of
        None \<Rightarrow> Inl ''ffmpeg returned a packet with no payload''
      | Some raw \<Rightarrow>
          map_sum id (demuxed s p) (normalize_encoded_packet (ds_codec s) raw (dp_is_key p) (ds_config s)))"

text \<open>The packets the loop gets to see of its stream, if nothing stops it.\<close>

definition stream_packets :: "demux_stream \<Rightarrow> demux_packet list \<Rightarrow> demux_packet list" where
  "stream_packets s ps = filter (\<lambda>p. dp_stream p = ds_index s) (takeWhile (\<lambda>p. \<not> dp_cancelled p) ps)"

lemma stream_packets_simps [simp]:
  "stream_packets s [] = []"
  "stream_packets s (p # ps) =
     (if dp_cancelled p then []
      else (if dp_stream p = ds_index s then [p] else []) @ stream_packets s ps)"
  by (simp_all add: stream_packets_def)

lemma demux_loop_step:
  assumes "\<not> dp_cancelled p" "dp_stream p = ds_index s"
  obtains due first' where
    "demux_loop s is_local first (p # ps) out =
       (let out1 = (case due of Some d \<Rightarrow> out\<lparr> wo_due := wo_due out @ [d] \<rparr> | None \<Rightarrow> out) in
        case message_of s p of
          Inl e \<Rightarrow> (Inl e, out1)
        | Inr m \<Rightarrow> (let (ok, out2) = blocking_send m out1
                    in if ok then demux_loop s is_local first' ps out2 else (Inr (), out2)))"
proof -
  obtain due first' where
    "(if is_local then packet_due (ds_time_base s) (dp_pts p) first else (None, first)) = (due, first')"
    by fastforce
  with assms show thesis
    by (intro that [of due first']) (simp add: message_of_def Let_def split: option.split sum.split)
qed

lemma demux_loop_prefix:
  "\<exists>before after. stream_packets s ps = before @ after \<and>
     map Inr (wo_sent (snd (demux_loop s is_local first ps out))) =
       map Inr (wo_sent out) @ map (message_of s) before \<and>
     (case fst (demux_loop s is_local first ps out) of
        Inl e \<Rightarrow> after \<noteq> [] \<and> message_of s (hd after) = Inl e
      | Inr _ \<Rightarrow> after = [] \<or> wo_room out = length before)"
proof (induction ps arbitrary: first out)
  case (Cons p ps)
  show ?case
  proof (cases "dp_cancelled p \<or> dp_stream p \<noteq> ds_index s")
    case True
    show ?thesis
    proof (cases "dp_cancelled p")
      case False
      with True Cons [of first out] show ?thesis by simp
    qed (intro exI [of _ "[]"], simp)
  next
    case False
    then have p: "\<not> dp_cancelled p" "dp_stream p = ds_index s" by simp_all
    obtain due first' where step: "demux_loop s is_local first (p # ps) out =
       (let out1 = (case due of Some d \<Rightarrow> out\<lparr> wo_due := wo_due out @ [d] \<rparr> | None \<Rightarrow> out) in
        case message_of s p of
          Inl e \<Rightarrow> (Inl e, out1)
        | Inr m \<Rightarrow> (let (ok, out2) = blocking_send m out1
                    in if ok then demux_loop s is_local first' ps out2 else (Inr (), out2)))"
      using demux_loop_step [OF p, of is_local first ps out] by blast
    define out1 where "out1 = (case due of Some d \<Rightarrow> out\<lparr> wo_due := wo_due out @ [d] \<rparr> | None \<Rightarrow> out)"
    have out1: "wo_sent out1 = wo_sent out" "wo_room out1 = wo_room out"
      by (simp_all add: out1_def split: option.split)
    note step' = step [unfolded Let_def, folded out1_def]
    show ?thesis
    proof (cases "message_of s p")
      case (Inl e)
      with p step' out1 show ?thesis
        by (intro exI [of _ "[]"] exI [of _ "p # stream_packets s ps"]) simp
    next
      case (Inr m)
      show ?thesis
      proof (cases "wo_room out = 0")
        case True
        with Inr p step' out1 show ?thesis
          by (intro exI [of _ "[]"] exI [of _ "p # stream_packets s ps"]) (simp add: blocking_send_def)
      next
        case False
        define out2 where "out2 = out1\<lparr> wo_sent := wo_sent out1 @ [m], wo_room := wo_room out1 - 1 \<rparr>"
        have rest: "demux_loop s is_local first (p # ps) out = demux_loop s is_local first' ps out2"
          using Inr False step' out1 by (simp add: blocking_send_def out2_def)
        obtain before after where ih: "stream_packets s ps = before @ after"
          "map Inr (wo_sent (snd (demux_loop s is_local first' ps out2))) =
             map Inr (wo_sent out2) @ map (message_of s) before"
          "case fst (demux_loop s is_local first' ps out2) of
             Inl e \<Rightarrow> after \<noteq> [] \<and> message_of s (hd after) = Inl e
           | Inr _ \<Rightarrow> after = [] \<or> wo_room out2 = length before"
          using Cons [of first' out2] by blast
        show ?thesis
          unfolding rest using ih p Inr False out1
          by (intro exI [of _ "p # before"] exI [of _ after])
            (auto simp: out2_def split: sum.splits)
      qed
    qed
  qed
qed (intro exI [of _ "[]"], simp)

text \<open>
  C35: the demuxing loop sends exactly the packets of the chosen stream, in the order of the input,
  each normalised, up to the first one that has no valid message, whose error it returns, or until
  it is cancelled or nobody receives any more.
\<close>

theorem demux_sends_stream_in_order:
  "\<exists>before after. stream_packets s ps = before @ after \<and>
     map Inr (wo_sent (snd (demux_loop s is_local first ps out))) =
       map Inr (wo_sent out) @ map (message_of s) before \<and>
     (case fst (demux_loop s is_local first ps out) of
        Inl e \<Rightarrow> after \<noteq> [] \<and> message_of s (hd after) = Inl e
      | Inr _ \<Rightarrow> after = [] \<or> wo_room out = length before)"
  by (rule demux_loop_prefix)

section \<open>The worker's messages\<close>

fun is_packet :: "worker_message \<Rightarrow> bool" where
  "is_packet (PacketMessage p) = True"
| "is_packet m = False"

text \<open>A run that only adds packets to what was sent, as both loops do.\<close>

definition adds_packets :: "(worker_out \<Rightarrow> (str + unit) \<times> worker_out) \<Rightarrow> bool" where
  "adds_packets run \<longleftrightarrow>
     (\<forall>out. \<exists>ms. wo_sent (snd (run out)) = wo_sent out @ ms \<and> list_all is_packet ms)"

lemma adds_packetsD:
  "adds_packets run \<Longrightarrow> \<exists>ms. wo_sent (snd (run out)) = wo_sent out @ ms \<and> list_all is_packet ms"
  by (auto simp: adds_packets_def)

lemma blocking_send_adds:
  "is_packet m \<Longrightarrow> blocking_send m out = (sent, out') \<Longrightarrow>
     \<exists>ms. wo_sent out' = wo_sent out @ ms \<and> list_all is_packet ms"
  by (auto simp: blocking_send_def split: if_splits)

lemma message_of_packet:
  assumes "message_of s p = Inr m"
  shows "is_packet m"
proof (cases "dp_data p")
  case (Some raw)
  with assms show ?thesis
    by (cases "normalize_encoded_packet (ds_codec s) raw (dp_is_key p) (ds_config s)")
      (auto simp: message_of_def demuxed_def)
qed (use assms in \<open>simp add: message_of_def\<close>)

lemma adds_packets_demux: "adds_packets (demux_loop s is_local first ps)"
  unfolding adds_packets_def
proof
  fix out
  obtain before after where b:
    "map Inr (wo_sent (snd (demux_loop s is_local first ps out))) =
       map Inr (wo_sent out) @ map (message_of s) before"
    using demux_loop_prefix [of s ps is_local first out] by blast
  let ?sent = "wo_sent (snd (demux_loop s is_local first ps out))"
  have "map Inr ?sent = map Inr (wo_sent out) @ map (message_of s) before" by (rule b)
  then obtain ms where ms: "?sent = wo_sent out @ ms" "map Inr ms = map (message_of s) before"
    by (auto simp: map_eq_append_conv inj_map_eq_map [OF inj_Inr])
  have "is_packet m" if "m \<in> set ms" for m
  proof -
    from that ms(2) have "(Inr m :: str + worker_message) \<in> set (map (message_of s) before)"
      by (metis imageI set_map)
    then obtain p where "message_of s p = Inr m" by auto
    then show ?thesis by (rule message_of_packet)
  qed
  with ms(1) show "\<exists>ms. ?sent = wo_sent out @ ms \<and> list_all is_packet ms" by (auto simp: list_all_iff)
qed

lemma adds_packets_const [intro]: "adds_packets (\<lambda>out. (r, out))"
  by (simp add: adds_packets_def)

lemma adds_packetsI:
  "(\<And>out. \<exists>ms. wo_sent (snd (run out)) = wo_sent out @ ms \<and> list_all is_packet ms) \<Longrightarrow> adds_packets run"
  by (simp add: adds_packets_def)

lemma adds_packets_trans:
  assumes "\<exists>ms. wo_sent out1 = wo_sent out @ ms \<and> list_all is_packet ms"
    and "\<exists>ms. wo_sent out2 = wo_sent out1 @ ms \<and> list_all is_packet ms"
  shows "\<exists>ms. wo_sent out2 = wo_sent out @ ms \<and> list_all is_packet ms"
proof -
  from assms obtain ms ms' where "wo_sent out1 = wo_sent out @ ms" "list_all is_packet ms"
    "wo_sent out2 = wo_sent out1 @ ms'" "list_all is_packet ms'" by blast
  then show ?thesis by (intro exI [of _ "ms @ ms'"]) simp
qed

text \<open>Running one thing after another, as \<open>?\<close> does.\<close>

lemma adds_packets_and_then:
  assumes "adds_packets f" "adds_packets g"
  shows "adds_packets (\<lambda>out. and_then (f out) g)"
proof (rule adds_packetsI)
  fix out
  obtain r out1 where f: "f out = (r, out1)" by fastforce
  show "\<exists>ms. wo_sent (snd (and_then (f out) g)) = wo_sent out @ ms \<and> list_all is_packet ms"
    using adds_packetsD [OF assms(1), of out] adds_packetsD [OF assms(2), of out1]
      adds_packets_trans [of out1 out "snd (g out1)"]
    by (cases r) (simp_all add: f and_then_def)
qed

lemma adds_packets_and_then':
  assumes "adds_packets g"
  shows "adds_packets (\<lambda>out. and_then (r, out) g)"
  by (rule adds_packets_and_then [OF adds_packets_const assms])

lemma adds_packets_run_each:
  assumes "\<And>x. adds_packets (f x)"
  shows "adds_packets (run_each f xs)"
proof (induction xs)
  case (Cons x xs)
  have "run_each f (x # xs) = (\<lambda>out. and_then (f x out) (run_each f xs))"
    by (auto simp: and_then_def fun_eq_iff split: prod.split sum.split)
  with adds_packets_and_then [OF assms Cons] show ?case by simp
qed (use adds_packets_const in simp)

lemma adds_packets_encoded: "adds_packets (receive_encoded_packets t es)"
proof (induction es)
  case (Cons e es)
  show ?case
  proof (rule adds_packetsI)
    fix out
    show "\<exists>ms. wo_sent (snd (receive_encoded_packets t (e # es) out)) = wo_sent out @ ms \<and> list_all is_packet ms"
    proof (cases "en_data e")
      case (Some raw)
      show ?thesis
      proof (cases "normalize_h264_payload raw (en_is_key e) (tr_config t)")
        case (Inr data)
        obtain sent out1 where b: "blocking_send (transcoded t e data) out = (sent, out1)" by fastforce
        from blocking_send_adds [OF _ b] have "\<exists>ms. wo_sent out1 = wo_sent out @ ms \<and> list_all is_packet ms"
          by (simp add: transcoded_def)
        with Some Inr b adds_packetsD [OF Cons, of out1]
          adds_packets_trans [of out1 out "snd (receive_encoded_packets t es out1)"]
        show ?thesis by simp
      qed (simp add: Some)
    qed simp
  qed
qed (use adds_packets_const in simp)

lemma adds_packets_filtered: "adds_packets (receive_filtered_frames t node frames)"
proof -
  have "adds_packets (encode_frame t f)" for f
    unfolding encode_frame_def
    by (cases "fl_send f") (simp_all add: adds_packets_const adds_packets_encoded)
  then show ?thesis
    unfolding receive_filtered_frames_def
    by (cases node) (simp_all add: adds_packets_const adds_packets_run_each)
qed

lemma adds_packets_decoded: "adds_packets (receive_decoded_frames t ds)"
proof -
  have "adds_packets (filter_frame t d)" for d
    unfolding filter_frame_def
    by (cases "de_input_node d"; cases "de_add d") (simp_all add: adds_packets_const adds_packets_filtered)
  then show ?thesis unfolding receive_decoded_frames_def by (rule adds_packets_run_each)
qed

lemma adds_packets_finish: "adds_packets (transcode_finish t e)"
  unfolding transcode_finish_def
  by (intro adds_packets_and_then' adds_packets_and_then adds_packets_decoded adds_packets_filtered
      adds_packets_encoded)

lemma adds_packets_due:
  assumes "adds_packets run"
  shows "adds_packets (\<lambda>out. run (case due of Some d \<Rightarrow> out\<lparr> wo_due := wo_due out @ [d] \<rparr> | None \<Rightarrow> out))"
proof (rule adds_packetsI)
  fix out
  show "\<exists>ms. wo_sent (snd (run (case due of Some d \<Rightarrow> out\<lparr> wo_due := wo_due out @ [d] \<rparr> | None \<Rightarrow> out)))
      = wo_sent out @ ms \<and> list_all is_packet ms"
    using adds_packetsD [OF assms, of "case due of Some d \<Rightarrow> out\<lparr> wo_due := wo_due out @ [d] \<rparr> | None \<Rightarrow> out"]
    by (cases due) simp_all
qed

lemma adds_packets_transcode: "adds_packets (transcode_loop t index is_local e first ps)"
proof (induction ps arbitrary: first)
  case Nil
  have "transcode_loop t index is_local e first [] = transcode_finish t e" by (simp add: fun_eq_iff)
  then show ?case by (simp add: adds_packets_finish)
next
  case (Cons p ps)
  obtain due first' where d:
    "(if is_local then packet_due (ip_time_base p) (ip_pts p) first else (None, first)) = (due, first')"
    by fastforce
  let ?rest = "\<lambda>out1. and_then (map_err (\<lambda>m. ''failed to send packet to decoder: '' @ m) (ip_send p), out1)
      (\<lambda>out2. and_then (receive_decoded_frames t (ip_decoded p) out2)
        (transcode_loop t index is_local e first' ps))"
  have rest: "adds_packets ?rest"
    by (intro adds_packets_and_then' adds_packets_and_then adds_packets_decoded Cons)
  show ?case
  proof (cases "ip_cancelled p")
    case True
    then have "transcode_loop t index is_local e first (p # ps) = transcode_finish t e"
      by (simp add: fun_eq_iff)
    then show ?thesis by (simp only: adds_packets_finish)
  next
    case False
    show ?thesis
    proof (cases "ip_stream p = index")
      case True
      with False have step: "transcode_loop t index is_local e first (p # ps) =
          (\<lambda>out. ?rest (case due of Some d \<Rightarrow> out\<lparr> wo_due := wo_due out @ [d] \<rparr> | None \<Rightarrow> out))"
        by (intro ext) (simp only: transcode_loop.simps d Let_def prod.case simp_thms if_False)
      show ?thesis unfolding step by (rule adds_packets_due [OF rest])
    next
      case other: False
      with False have "transcode_loop t index is_local e first (p # ps) = transcode_loop t index is_local e first ps"
        by (simp add: fun_eq_iff)
      then show ?thesis by (simp only: Cons)
    qed
  qed
qed

lemma adds_packets_demux_packets:
  "adds_packets (demux_packets ff input spec d is_local)"
proof (rule adds_packetsI)
  fix out
  show "\<exists>ms. wo_sent (snd (demux_packets ff input spec d is_local out)) = wo_sent out @ ms \<and> list_all is_packet ms"
    unfolding demux_packets_def
    using adds_packetsD [OF adds_packets_demux, of _ _ None _ out]
    by (simp split: sum.split prod.split)
qed

lemma adds_packets_transcode_packets:
  "adds_packets (transcode_packets ff codecs input spec processing overlay backend d is_local)"
proof (rule adds_packetsI)
  fix out
  show "\<exists>ms. wo_sent (snd (transcode_packets ff codecs input spec processing overlay backend d is_local out)) =
      wo_sent out @ ms \<and> list_all is_packet ms"
    unfolding transcode_packets_def
    using adds_packetsD [OF adds_packets_transcode, of _ _ _ _ None _ out]
    by (simp del: transcode_loop.simps split: sum.split prod.split)
qed

lemma adds_packets_worker_run: "adds_packets (worker_run spec env)"
  by (cases "wk_mode spec")
    (simp_all add: worker_run_def adds_packets_demux_packets adds_packets_transcode_packets)

text \<open>What one turn adds before the worker decides whether to go on: packets, then possibly one recoverable error.\<close>

fun is_progress :: "worker_message \<Rightarrow> bool" where
  "is_progress (PacketMessage p) = True"
| "is_progress (RecoverableMessage e) = True"
| "is_progress m = False"

lemma is_packet_progress: "is_packet m \<Longrightarrow> is_progress m"
  by (cases m) simp_all

lemma turn_adds:
  assumes "adds_packets run" "run out = (r, out1)"
    and "out2 = (case r of Inl e \<Rightarrow> snd (blocking_send (RecoverableMessage (f e)) out1) | Inr _ \<Rightarrow> out1)"
  shows "\<exists>ms. wo_sent out2 = wo_sent out @ ms \<and> list_all is_progress ms"
proof -
  obtain ms where "wo_sent out1 = wo_sent out @ ms" "list_all is_packet ms"
    using adds_packetsD [OF assms(1), of out] assms(2) by auto
  then show ?thesis
    using assms(3) by (cases r) (auto simp: blocking_send_def is_packet_progress list_all_iff)
qed

definition ends_well :: "worker_spec \<Rightarrow> worker_turn list \<Rightarrow> worker_end \<times> worker_out \<Rightarrow> worker_message list \<Rightarrow> bool" where
  "ends_well spec turns r ms \<longleftrightarrow>
     (\<exists>body. list_all is_progress body \<and>
        (ms = body \<or>
         ms = body @ [EndMessage] \<and> fst r = WorkerDone \<and> \<not> is_local_file (wk_input spec))) \<and>
     (fst r = WorkerDone \<and> wo_room (snd r) > 0 \<and> (\<forall>t \<in> set turns. \<not> wt_cancelled t) \<longrightarrow>
        ms \<noteq> [] \<and> last ms = EndMessage)"

lemma ends_well_later:
  assumes "list_all is_progress body" "ends_well spec ts r ms"
  shows "ends_well spec (t # ts) r (body @ ms)"
proof -
  from assms(2) obtain body' where b: "list_all is_progress body'"
    "ms = body' \<or> ms = body' @ [EndMessage] \<and> fst r = WorkerDone \<and> \<not> is_local_file (wk_input spec)"
    by (auto simp: ends_well_def)
  have "\<exists>b. list_all is_progress b \<and> (body @ ms = b \<or>
      body @ ms = b @ [EndMessage] \<and> fst r = WorkerDone \<and> \<not> is_local_file (wk_input spec))"
    using assms(1) b by (intro exI [of _ "body @ body'"]) auto
  moreover have "fst r = WorkerDone \<and> wo_room (snd r) > 0 \<and> (\<forall>t \<in> set (t # ts). \<not> wt_cancelled t) \<longrightarrow>
      body @ ms \<noteq> [] \<and> last (body @ ms) = EndMessage"
    using assms(2) by (auto simp: ends_well_def)
  ultimately show ?thesis unfolding ends_well_def by blast
qed

lemma worker_loop_ends_well:
  "\<exists>ms. wo_sent (snd (worker_loop spec turns out)) = wo_sent out @ ms \<and>
      ends_well spec turns (worker_loop spec turns out) ms"
proof (induction turns arbitrary: out)
  case Nil
  show ?case by (intro exI [of _ "[]"]) (simp add: ends_well_def)
next
  case (Cons t ts)
  show ?case
  proof (cases "wt_cancelled t")
    case True
    then show ?thesis by (intro exI [of _ "[]"]) (simp add: ends_well_def)
  next
    case False
    obtain r out1 where run: "worker_run spec (wt_env t) out = (r, out1)" by fastforce
    define out2 where "out2 = (case r of Inl e \<Rightarrow> snd (blocking_send (RecoverableMessage
        (pipeline_msg (wk_pipeline_id spec) (''failed during FFmpeg execution: '' @ e))) out1) | Inr _ \<Rightarrow> out1)"
    obtain body where body: "wo_sent out2 = wo_sent out @ body" "list_all is_progress body"
      using turn_adds [OF adds_packets_worker_run, of spec "wt_env t" out r out1 out2 "\<lambda>e. pipeline_msg (wk_pipeline_id spec) (''failed during FFmpeg execution: '' @ e)"]
        run out2_def by auto
    obtain ms where ms: "wo_sent (snd (worker_loop spec ts out2)) = wo_sent out2 @ ms"
      "ends_well spec ts (worker_loop spec ts out2) ms"
      using Cons [of out2] by auto
    have step: "worker_loop spec (t # ts) out =
        (if is_local_file (wk_input spec) \<or> isl r then worker_loop spec ts out2
         else (WorkerDone, snd (blocking_send EndMessage out2)))"
      using False by (cases r) (simp_all add: run out2_def Let_def)
    show ?thesis
    proof (cases "is_local_file (wk_input spec) \<or> isl r")
      case True
      then have eq: "worker_loop spec (t # ts) out = worker_loop spec ts out2" using step by simp
      show ?thesis
        unfolding eq using body ms ends_well_later [OF body(2) ms(2)]
        by (intro exI [of _ "body @ ms"]) simp
    next
      case False
      then have eq: "worker_loop spec (t # ts) out = (WorkerDone, snd (blocking_send EndMessage out2))"
        using step by simp
      show ?thesis
        unfolding eq using body False
        by (intro exI [of _ "if wo_room out2 = 0 then body else body @ [EndMessage]"])
          (auto simp: blocking_send_def ends_well_def)
    qed
  qed
qed

text \<open>
  C36: a worker with an FFmpeg that does not initialise sends one error, if anybody receives it, and stops without an
  end of stream. With one that does, whatever it answers in its turns, the worker sends packets and
  recoverable errors only, and at most one end of stream, as its very last message, when it stops on an
  input that is not a local file; and such a worker that stops without being cancelled, with a receiver
  that stays, has sent that end.
\<close>

theorem worker_end_message:
  "\<exists>ms. wo_sent (snd (run_worker initialised spec turns out)) = wo_sent out @ ms \<and>
      (if initialised then ends_well spec turns (run_worker initialised spec turns out) ms
       else fst (run_worker initialised spec turns out) = WorkerDone \<and>
         ms = (if wo_room out = 0 then []
               else [ErrorMessage ''ffmpeg initialization failed; verify FFmpeg libraries are available'']))"
  using worker_loop_ends_well [of spec turns out] by (auto simp: run_worker_def blocking_send_def)

section \<open>Which compiled pipelines FFmpeg takes\<close>

text \<open>
  What the FFmpeg worker implements: no libcamera device; to transcode, H.264 only, a positive frame
  rate, a rotation by quarter turns, a software encoder unless the hardware encoder was compiled in,
  and overlays whose font and images are there.
\<close>

definition quarter_turn :: "i32 option \<Rightarrow> bool" where
  "quarter_turn r \<longleftrightarrow> sint (unwrap_or 0 r) \<in> {0, 90, -90, 180, -180, 270, -270}"

definition processing_implemented :: "bool \<Rightarrow> compiled_processing_profile \<Rightarrow> bool" where
  "processing_implemented hardware p \<longleftrightarrow>
     to_ascii_lowercase (trim (cp_codec p)) = ''h264'' \<and> cp_out_frame_rate p > 0 \<and>
     quarter_turn (cp_rotation p) \<and>
     (hardware \<or> to_ascii_lowercase (trim (cp_encoder p)) \<in> {''software'', ''libx264''})"

definition worker_implements :: "overlay_host \<Rightarrow> compiled_pipeline \<Rightarrow> bool" where
  "worker_implements host c \<longleftrightarrow>
     cpl_resolved_backend c \<noteq> LibcameraDevice \<and>
     (cpl_strategy c = Passthrough \<or>
        is_some_and (processing_implemented (cpl_codec_path c = HardwareTranscode)) (cpl_processing c) \<and>
        validate_overlay_runtime host c = Inr ())"

lemma normalize_rotation_ok: "(\<exists>r'. normalize_rotation r = Inr r') \<longleftrightarrow> quarter_turn r"
  by (simp add: normalize_rotation_def quarter_turn_def Let_def)

lemma frame_duration_positive_rate:
  "(\<exists>d. frame_duration_from_processing p = Some d) \<longleftrightarrow> cp_out_frame_rate p > 0"
  by (simp add: frame_duration_from_processing_def word_gt_0)

lemma encoder_accepted:
  assumes "paths_wf c" "cpl_processing c = Some p" "cpl_strategy c \<noteq> Passthrough"
  shows "validate_transcode_support c p = Inr () \<longleftrightarrow>
    processing_implemented (cpl_codec_path c = HardwareTranscode) p"
proof -
  have codec: "cpl_codec_path c \<noteq> PathPassthrough"
    "cpl_codec_path c = HardwareTranscode \<Longrightarrow> names_hardware_encoder (cp_encoder p)"
    using assms by (auto simp: paths_wf_def)
  show ?thesis
    using codec normalize_rotation_ok [of "cp_rotation p"] frame_duration_positive_rate [of p]
    by (cases "cpl_codec_path c")
      (auto simp: validate_transcode_support_def processing_implemented_def names_hardware_encoder_def
        Let_def result_simps split: if_splits)
qed

lemma transcode_mode_accepted:
  assumes "paths_wf c" "cpl_strategy c \<noteq> Passthrough"
  shows "(\<exists>mode. worker_transcode_mode host c d what = Inr mode) \<longleftrightarrow>
    is_some_and (processing_implemented (cpl_codec_path c = HardwareTranscode)) (cpl_processing c) \<and>
    validate_overlay_runtime host c = Inr ()"
proof -
  obtain p where p: "cpl_processing c = Some p" using assms by (auto simp: paths_wf_def)
  have "\<exists>b. transcode_backend_for_pipeline c = Inr b"
    using assms by (auto simp: paths_wf_def transcode_backend_for_pipeline_def split: codec_path.split)
  with encoder_accepted [OF assms(1) p assms(2)] show ?thesis
    by (auto simp: worker_transcode_mode_def p result_simps)
qed

lemma input_accepted:
  assumes "paths_wf c"
  shows "(\<exists>i. worker_input_spec c = Inr i) \<longleftrightarrow> cpl_resolved_backend c \<noteq> LibcameraDevice"
  using assms
  by (auto simp: paths_wf_def worker_input_spec_def split: input_type.split resolved_input_backend.split)

lemma worker_spec_accepted:
  assumes "paths_wf c"
  shows "(\<exists>spec. worker_spec_for_pipeline host c = Inr spec) \<longleftrightarrow> worker_implements host c"
proof -
  let ?d = "unwrap_or (from_millis 33) (Option.bind (cpl_processing c) frame_duration_from_processing)"
  have "(\<exists>spec. worker_spec_for_pipeline host c = Inr spec) \<longleftrightarrow>
     (\<exists>i. worker_input_spec c = Inr i) \<and>
     (cpl_strategy c = Passthrough \<or>
      (\<exists>mode. worker_transcode_mode host c ?d
         (if cpl_strategy c = Transcode then ''transcode'' else ''hardware decode'') = Inr mode))"
    by (cases "cpl_strategy c") (auto simp: worker_spec_for_pipeline_def Let_def result_simps)
  then show ?thesis
    using transcode_mode_accepted [OF assms] input_accepted [OF assms]
    by (auto simp: worker_implements_def)
qed

text \<open>
  Of the pipelines of a compiled graph, the FFmpeg worker takes exactly those it implements, and
  refuses every other one before it starts: whatever compiles needs no further check on its paths.
\<close>

theorem worker_takes_implemented:
  assumes "compile_internal m capabilities vars = Inr g"
  shows "\<forall>c \<in> set (cg_pipelines g).
     (\<exists>spec. worker_spec_for_pipeline host c = Inr spec) \<longleftrightarrow> worker_implements host c"
  using worker_spec_accepted compiled_paths_wf [OF assms] by blast

theorem worker_takes_implemented_witness:
  "\<exists>g. compile_internal (example_manifest [example_device ''a'', example_device ''b'']) None Map.empty = Inr g \<and>
     (\<forall>c \<in> set (cg_pipelines g).
       (\<exists>spec. worker_spec_for_pipeline \<lparr> oh_ffmpeg = True, oh_exists = (\<lambda>p. True), oh_metadata = (\<lambda>p. Inr True),
          oh_image = (\<lambda>p. Inr True) \<rparr> c = Inr spec) \<longleftrightarrow>
       worker_implements \<lparr> oh_ffmpeg = True, oh_exists = (\<lambda>p. True), oh_metadata = (\<lambda>p. Inr True),
          oh_image = (\<lambda>p. Inr True) \<rparr> c)"
proof -
  obtain g where g: "compile_internal (example_manifest [example_device ''a'', example_device ''b''])
      None Map.empty = Inr g"
    using example_compiles by blast
  from g worker_takes_implemented [OF this] show ?thesis by blast
qed

end
