(* ===== verification/Caml_Transcode_Correct.thy ===== *)
theory Caml_Transcode_Correct
  imports Caml_Worker_Correct
begin

text \<open>
  The set-up of a transcoder: when it succeeds, that the probe of FFmpeg asks for the codecs that are
  opened later, and what the encoder's clock does to the time stamps.
\<close>

section \<open>Setting up the transcoder\<close>

text \<open>
  FFmpeg does its part for a transcoder: it has the decoder and the encoder of the backend and opens
  them, it has the two end nodes, takes the description of the graph and answers with extradata that
  can be read.
\<close>

definition opens_decoder :: "ffmpeg_codecs \<Rightarrow> opened_stream \<Rightarrow> transcode_backend \<Rightarrow> av_decoder \<Rightarrow> bool" where
  "opens_decoder ff stream backend decoder \<longleftrightarrow>
     decoder_context ff stream = Inr () \<and>
     (if backend = Pi5HardwareDecode
      then \<exists>name. (os_codec stream = CodecH264 \<and> name = ''h264_v4l2request'' \<or>
                   os_codec stream = CodecHevc \<and> name = ''hevc_v4l2request'') \<and>
             finds_decoder ff name \<and> open_named_decoder ff name stream = Inr decoder
      else open_default_decoder ff stream = Inr decoder)"

definition takes_graph :: "ffmpeg_codecs \<Rightarrow> av_decoder \<Rightarrow> rational \<Rightarrow> str \<Rightarrow> bool" where
  "takes_graph ff decoder time_base description \<longleftrightarrow>
     finds_filter ff ''buffer'' \<and> add_filter ff ''buffer'' ''in'' (buffer_args decoder time_base) = Inr () \<and>
     finds_filter ff ''buffersink'' \<and> add_filter ff ''buffersink'' ''out'' [] = Inr () \<and>
     gets_output_node ff \<and> parse_graph ff description = Inr () \<and> validate_graph ff description = Inr ()"

definition opens_encoder ::
  "ffmpeg_codecs \<Rightarrow> transcode_backend \<Rightarrow> encoder_settings \<Rightarrow> dictionary \<Rightarrow> av_encoder \<Rightarrow> bool" where
  "opens_encoder ff backend settings options encoder \<longleftrightarrow>
     (\<exists>codec. (if backend = Pi4HardwareEncode
               then finds_encoder ff ''h264_v4l2m2m'' \<and> codec = NamedEncoder ''h264_v4l2m2m''
               else finds_encoder ff ''libx264'' \<and> codec = NamedEncoder ''libx264'' \<or>
                    \<not> finds_encoder ff ''libx264'' \<and> finds_h264_encoder ff \<and> codec = AnyH264Encoder) \<and>
        encoder_context ff codec = Inr () \<and> open_encoder ff codec settings options = Inr encoder)"

lemma find_pi5_decoder_Inr:
  "find_pi5_decoder ff codec = Inr name \<longleftrightarrow>
     (codec = CodecH264 \<and> name = ''h264_v4l2request'' \<or> codec = CodecHevc \<and> name = ''hevc_v4l2request'') \<and>
     finds_decoder ff name"
  by (cases codec) (auto simp: find_pi5_decoder_def result_simps)

lemma open_video_decoder_Inr:
  "open_video_decoder ff stream backend = Inr decoder \<longleftrightarrow> opens_decoder ff stream backend decoder"
  by (cases backend) (auto simp: open_video_decoder_def opens_decoder_def find_pi5_decoder_Inr result_simps)

lemma build_video_filter_Inr:
  "build_video_filter ff decoder tb rotation overlay = Inr u \<longleftrightarrow>
     takes_graph ff decoder tb (build_filter_spec rotation overlay)"
  by (auto simp: build_video_filter_def takes_graph_def add_node_def Let_def result_simps)

lemma open_h264_encoder_Inr:
  "open_h264_encoder ff decoder processing backend w h = Inr encoder \<longleftrightarrow>
     opens_encoder ff backend (encoder_settings_for decoder processing w h) (encoder_options processing) encoder"
  by (auto simp: open_h264_encoder_def opens_encoder_def choose_encoder_def result_simps)

text \<open>The turn that a rotation makes, and what it does to the size of a picture.\<close>

definition turned :: "compiled_processing_profile \<Rightarrow> av_decoder \<Rightarrow> u32 \<times> u32" where
  "turned processing decoder =
     (if sint (unwrap_or 0 (cp_rotation processing)) \<in> {90, -90, 270, -270}
      then (ad_height decoder, ad_width decoder) else (ad_width decoder, ad_height decoder))"

lemma normalize_rotation_turned:
  "normalize_rotation (cp_rotation processing) = Inr rotation \<Longrightarrow>
     rotated_dimensions (ad_width decoder) (ad_height decoder) rotation = turned processing decoder"
  by (auto simp: normalize_rotation_def turned_def Let_def split: if_splits)

lemma accepted_rotation:
  assumes "worker_spec_for_pipeline host c = Inr spec" "wk_mode spec = TranscodeMode processing overlay backend d"
  shows "(\<exists>rotation. normalize_rotation (cp_rotation processing) = Inr rotation) \<and>
    cpl_processing c = Some processing \<and> transcode_backend_for_pipeline c = Inr backend \<and> cpl_overlay c = overlay"
  using assms
  by (cases "cpl_strategy c")
    (auto simp: worker_spec_for_pipeline_def worker_transcode_mode_def validate_transcode_support_def
      Let_def result_simps split: if_splits codec_path.splits)

text \<open>
  C38: for a pipeline that the worker accepted, setting up the transcoder succeeds exactly when FFmpeg
  opens the decoder of the backend, takes the described graph and opens the encoder with the settings of
  the profile and the picture turned by its rotation, and the code's own parser of H.264 configurations
  accepts the extradata of that encoder. The rotation, in particular, cannot fail at this point any more.
\<close>

theorem transcoder_setup_exact:
  assumes "worker_spec_for_pipeline host c = Inr spec" "wk_mode spec = TranscodeMode processing overlay backend d"
  shows "\<exists>rotation. normalize_rotation (cp_rotation processing) = Inr rotation \<and>
    (\<forall>t. transcoder_new ff stream processing overlay backend nominal = Inr t \<longleftrightarrow>
       (\<exists>decoder encoder config.
          opens_decoder ff stream backend decoder \<and>
          takes_graph ff decoder (os_time_base stream) (build_filter_spec rotation overlay) \<and>
          opens_encoder ff backend
            (encoder_settings_for decoder processing (fst (turned processing decoder)) (snd (turned processing decoder)))
            (encoder_options processing) encoder \<and>
          extract_h264_config (ae_extradata encoder) = Inr config \<and>
          t = \<lparr> tr_time_base = ae_time_base encoder, tr_config = config, tr_nominal = nominal \<rparr>))"
proof -
  obtain rotation where r: "normalize_rotation (cp_rotation processing) = Inr rotation"
    using accepted_rotation [OF assms] by blast
  show ?thesis
    by (intro exI [of _ rotation] conjI r)
      (auto simp: transcoder_new_def r normalize_rotation_turned [OF r] open_video_decoder_Inr
        build_video_filter_Inr open_h264_encoder_Inr result_simps case_prod_beta Let_def)
qed

definition example_transcode :: compiled_pipeline where
  "example_transcode = sentinel\<lparr> cpl_id := ''cam'', cpl_strategy := Transcode, cpl_codec_path := SoftwareTranscode,
     cpl_processing := Some \<lparr> cp_codec = ''h264'', cp_encoder = ''libx264'', cp_preset = ''fast'', cp_tune = [],
       cp_out_frame_rate = 30, cp_bitrate_bps = 2000000, cp_rotation = Some 90 \<rparr> \<rparr>"

definition example_host :: overlay_host where
  "example_host = \<lparr> oh_ffmpeg = True, oh_exists = (\<lambda>p. True), oh_metadata = (\<lambda>p. Inr True), oh_image = (\<lambda>p. Inr True) \<rparr>"

lemma example_accepted:
  "\<exists>spec. worker_spec_for_pipeline example_host example_transcode = Inr spec \<and>
     wk_mode spec = TranscodeMode (the (cpl_processing example_transcode)) None SoftwareBackend 33333333"
proof -
  have "case worker_spec_for_pipeline example_host example_transcode of
      Inl e \<Rightarrow> False
    | Inr spec \<Rightarrow> wk_mode spec = TranscodeMode (the (cpl_processing example_transcode)) None SoftwareBackend 33333333"
    by code_simp
  then show ?thesis by (auto split: sum.splits)
qed

definition example_stream :: opened_stream where
  "example_stream = \<lparr> os_index = 0, os_time_base = \<lparr> numerator = 1, denominator = 90000 \<rparr>, os_codec = CodecH264,
     os_avg_frame_rate = \<lparr> numerator = 30, denominator = 1 \<rparr>, os_extradata = None \<rparr>"

text \<open>An FFmpeg with a default decoder and \<open>libx264\<close>, which takes only pictures turned upright.\<close>

definition example_ffmpeg :: ffmpeg_codecs where
  "example_ffmpeg =
     \<lparr> decoder_context = (\<lambda>_. Inr ()),
       open_default_decoder = (\<lambda>_. Inr \<lparr> ad_width = 1920, ad_height = 1080, ad_format_name = Some ''yuv420p'',
         ad_aspect_ratio = \<lparr> numerator = 1, denominator = 1 \<rparr> \<rparr>),
       finds_decoder = (\<lambda>_. False), open_named_decoder = (\<lambda>_ _. Inl ''Decoder not found''),
       finds_filter = (\<lambda>name. name = ''buffer'' \<or> name = ''buffersink''), add_filter = (\<lambda>_ _ _. Inr ()),
       gets_output_node = True, parse_graph = (\<lambda>_. Inr ()), validate_graph = (\<lambda>_. Inr ()),
       finds_encoder = (\<lambda>name. name = ''libx264''), finds_h264_encoder = True,
       encoder_context = (\<lambda>_. Inr ()),
       open_encoder = (\<lambda>codec settings _.
         if es_width settings = 1080 \<and> es_height settings = 1920
         then Inr \<lparr> ae_time_base = \<lparr> numerator = 1, denominator = 30 \<rparr>, ae_extradata = None \<rparr>
         else Inl ''Invalid argument'') \<rparr>"

lemma example_transcoder:
  "transcoder_new example_ffmpeg example_stream (the (cpl_processing example_transcode)) None SoftwareBackend 0 =
     Inr \<lparr> tr_time_base = \<lparr> numerator = 1, denominator = 30 \<rparr>, tr_config = None, tr_nominal = 0 \<rparr>"
  by code_simp

theorem transcoder_setup_exact_witness:
  "\<exists>rotation decoder. normalize_rotation (Some 90) = Inr rotation \<and>
     opens_decoder example_ffmpeg example_stream SoftwareBackend decoder \<and>
     takes_graph example_ffmpeg decoder (os_time_base example_stream) (build_filter_spec rotation None)"
proof -
  have r: "cp_rotation (the (cpl_processing example_transcode)) = Some 90" by (simp add: example_transcode_def)
  obtain spec where spec: "worker_spec_for_pipeline example_host example_transcode = Inr spec"
    "wk_mode spec = TranscodeMode (the (cpl_processing example_transcode)) None SoftwareBackend 33333333"
    using example_accepted by blast
  show ?thesis
    using transcoder_setup_exact [OF spec, of example_ffmpeg example_stream 0] example_transcoder unfolding r by blast
qed

section \<open>Probed capabilities and lookups\<close>

text \<open>
  The probe of FFmpeg and the opening of the codecs ask for the same names. The Raspberry Pi 4
  encoder is found when it is opened exactly if the probe reported it. The Raspberry Pi 5 decoder is
  reported exactly if it is found for some codec, which may be the other one: an H.264 stream finds
  it exactly if the build has the decoder for H.264.
\<close>

theorem hardware_lookup_matches_probe:
  "\<exists>caps. ffmpeg_capabilities (Some build) target = Inr caps \<and>
     (let ff' = ff\<lparr> finds_encoder := has_encoder build, finds_decoder := has_decoder build \<rparr> in
      (has_pi4_h264_encoder caps \<longleftrightarrow> (\<exists>codec. choose_encoder ff' Pi4HardwareEncode = Inr codec)) \<and>
      (has_pi5_stateless_decoder caps \<longleftrightarrow> (\<exists>codec name. find_pi5_decoder ff' codec = Inr name)) \<and>
      ((\<exists>name. find_pi5_decoder ff' CodecH264 = Inr name) \<longleftrightarrow> has_decoder build ''h264_v4l2request''))"
  by (auto simp: ffmpeg_capabilities_def static_probe_def default_capabilities_def choose_encoder_def
      find_pi5_decoder_Inr Let_def)

section \<open>The encoder's clock\<close>

text \<open>An \<open>u32\<close> read as an \<open>i32\<close>.\<close>

lemma sint_small:
  fixes w :: u32
  assumes "uint w < 2 ^ 31"
  shows "sint w = uint w"
proof -
  have "- (2 ^ 31) \<le> uint w" by (rule order_trans [of _ 0]) simp_all
  with assms show ?thesis by (simp add: sint_uint signed_take_bit_int_eq_self)
qed

lemma sint_large:
  fixes w :: u32
  assumes "2 ^ 31 \<le> uint w"
  shows "sint w < 0"
proof -
  have "uint w < 2 ^ 32" using unsigned_less [of w, where ?'a = int] by simp
  with assms have "uint w div 2 ^ 31 = 1" by (simp add: div_pos_geq)
  then have "bit (uint w) 31" by (simp add: bit_iff_odd)
  then show ?thesis by (simp add: sint_uint)
qed

text \<open>
  The time stamps of encoded packets count frames of the profile's rate exactly: packet \<open>t\<close> is
  stamped \<open>t\<close> seconds divided by the rate, rounded down to a nanosecond, or not at all if that does
  not fit; a rate of \<open>2 ^ 31\<close> or more, which turns negative in the encoder's 32-bit time base, gives
  no time stamps.
\<close>

theorem encoder_clock_exact:
  assumes "0 \<le> sint t"
  shows "duration_from_time_base (Some t) (es_time_base (encoder_settings_for decoder processing w h)) =
    (let rate = unat (cp_out_frame_rate processing); nanos = nat (sint t) * 1000000000 div rate in
     if 0 < rate \<and> rate < 2 ^ 31 \<and> nanos < 2 ^ 64 then Some nanos else None)"
proof -
  let ?w = "cp_out_frame_rate processing"
  let ?tb = "es_time_base (encoder_settings_for decoder processing w h)"
  have tb: "numerator ?tb = 1" "denominator ?tb = ?w" by (simp_all add: encoder_settings_for_def Let_def)
  have u: "uint ?w = int (unat ?w)" by simp
  show ?thesis
  proof (cases "0 < unat ?w \<and> unat ?w < 2 ^ 31")
    case True
    then have "int 0 < int (unat ?w)" "int (unat ?w) < int (2 ^ 31)" by (simp_all only: of_nat_less_iff)
    then have "0 < uint ?w" "uint ?w < 2 ^ 31" by simp_all
    then have s: "sint ?w = int (unat ?w)" "0 < sint ?w" by (simp_all add: sint_small)
    have n: "sint t * sint (1 :: i32) * 1000000000 div int (unat ?w) = int (nat (sint t) * 1000000000 div unat ?w)"
      using assms by (simp only: zdiv_int) simp
    have "duration_from_time_base (Some t) ?tb =
        (let nanos = sint t * sint (1 :: i32) * 1000000000 div int (unat ?w) in
         if nanos < 2 ^ 64 then Some (nat nanos) else None)"
      using time_base_nanos [of t ?tb] assms s(2) unfolding tb s(1) by simp
    with True show ?thesis unfolding n by (simp only: Let_def nat_int of_nat_less_numeral_power_cancel_iff) simp
  next
    case False
    then have "?w = 0 \<or> int (2 ^ 31) \<le> int (unat ?w)" by (simp only: of_nat_le_iff) (auto simp: unat_eq_0)
    then have "?w = 0 \<or> 2 ^ 31 \<le> uint ?w" by simp
    then have "sint ?w \<le> 0" using sint_large [of ?w] by auto
    then show ?thesis using False tb by (auto simp: duration_from_time_base_def Let_def)
  qed
qed

theorem encoder_clock_exact_witness:
  "duration_from_time_base (Some 45) (es_time_base (encoder_settings_for
     \<lparr> ad_width = 1280, ad_height = 720, ad_format_name = None, ad_aspect_ratio = \<lparr> numerator = 1, denominator = 1 \<rparr> \<rparr>
     (the (cpl_processing example_transcode)) 720 1280)) = Some 1500000000"
  by (subst encoder_clock_exact) (simp_all add: example_transcode_def)

end
