(* ===== verification/Caml_Linux.thy ===== *)
theory Caml_Linux
  imports Caml_Adapters
begin

text \<open>
  The capability probe of a Linux host and the libcamera source
  (\<^verbatim>\<open>crates/caml-linux-media/src/lib.rs\<close>).

  The probe reads files below a root directory. What the file system answers is a record of
  functions of the joined path: the text of a file that can be read, the paths of a directory's
  entries that can be listed, and whether a path exists.
\<close>

record file_system =
  fs_read :: "str \<Rightarrow> str option"
  fs_list :: "str \<Rightarrow> (str list) option"
  fs_exists :: "str \<Rightarrow> bool"

text \<open>\<open>Path::join\<close> with a relative path.\<close>

definition path_join :: "str \<Rightarrow> str \<Rightarrow> str" where
  "path_join base relative =
     (if base = [] \<or> last base = CHR ''/'' then base @ relative else base @ ''/'' @ relative)"

record linux_probe =
  lp_root :: str

definition linux_probe_new :: linux_probe where
  "linux_probe_new = \<lparr> lp_root = ''/'' \<rparr>"

definition with_root :: "str \<Rightarrow> linux_probe" where
  "with_root base = \<lparr> lp_root = base \<rparr>"

section \<open>Reading the host\<close>

definition resolve :: "str \<Rightarrow> str \<Rightarrow> str" where
  "resolve base relative = path_join base (trim_start_matches (CHR ''/'') relative)"

definition clean_text :: "str \<Rightarrow> str option" where
  "clean_text raw =
     (let text' = trim (trim_matches (char_of (0::nat)) raw) in if text' = [] then None else Some text')"

definition read_string :: "file_system \<Rightarrow> str \<Rightarrow> str \<Rightarrow> str option" where
  "read_string fs base relative = Option.bind (fs_read fs (resolve base relative)) clean_text"

definition read_dir_entries :: "file_system \<Rightarrow> str \<Rightarrow> str \<Rightarrow> str list" where
  "read_dir_entries fs base relative = unwrap_or [] (fs_list fs (resolve base relative))"

definition read_child_string :: "file_system \<Rightarrow> str \<Rightarrow> str \<Rightarrow> str option" where
  "read_child_string fs parent child = Option.bind (fs_read fs (path_join parent child)) clean_text"

definition model_of_text :: "str \<Rightarrow> pi_model option" where
  "model_of_text model =
     (let normalized = to_ascii_lowercase model in
      if contains ''raspberry pi 5'' normalized then Some Pi5
      else if contains ''raspberry pi 4'' normalized then Some Pi4
      else None)"

fun detect_in :: "file_system \<Rightarrow> str \<Rightarrow> str list \<Rightarrow> pi_model option" where
  "detect_in fs base [] = None"
| "detect_in fs base (location # locations) =
     (case Option.bind (read_string fs base location) model_of_text of
        Some model \<Rightarrow> Some model
      | None \<Rightarrow> detect_in fs base locations)"

definition detect_pi_model :: "file_system \<Rightarrow> str \<Rightarrow> pi_model option" where
  "detect_pi_model fs base =
     detect_in fs base [''/proc/device-tree/model'', ''/sys/firmware/devicetree/base/model'']"

definition video4linux_names :: "file_system \<Rightarrow> str \<Rightarrow> str list" where
  "video4linux_names fs base =
     List.map_filter (\<lambda>entry. read_child_string fs entry ''name'')
       (read_dir_entries fs base ''/sys/class/video4linux'')"

definition media_models :: "file_system \<Rightarrow> str \<Rightarrow> str list" where
  "media_models fs base =
     List.map_filter (\<lambda>entry. read_child_string fs entry ''model'')
       (read_dir_entries fs base ''/sys/class/media'')"

definition has_v4l2 :: "file_system \<Rightarrow> str \<Rightarrow> bool" where
  "has_v4l2 fs base \<longleftrightarrow>
     fs_exists fs (resolve base ''/dev/video0'') \<or> read_dir_entries fs base ''/sys/class/video4linux'' \<noteq> []"

definition has_media_nodes :: "file_system \<Rightarrow> str \<Rightarrow> bool" where
  "has_media_nodes fs base \<longleftrightarrow>
     fs_exists fs (resolve base ''/dev/media0'') \<or> read_dir_entries fs base ''/sys/class/media'' \<noteq> []"

definition has_libcamera :: "file_system \<Rightarrow> str \<Rightarrow> bool" where
  "has_libcamera fs base \<longleftrightarrow>
     fs_exists fs (resolve base ''/usr/bin/libcamera-hello'') \<or>
     fs_exists fs (resolve base ''/usr/bin/libcamera-still'') \<or>
     fs_exists fs (resolve base ''/usr/bin/libcamera-vid'')"

section \<open>Classifying the names\<close>

definition any_name_matches :: "str list \<Rightarrow> str list \<Rightarrow> bool" where
  "any_name_matches names tokens =
     list_ex (\<lambda>name. list_all (\<lambda>token. contains token (to_ascii_lowercase name)) tokens) names"

definition detect_pi4_h264_encoder :: "pi_model option \<Rightarrow> str list \<Rightarrow> str list \<Rightarrow> bool" where
  "detect_pi4_h264_encoder model v4l2_names media_names =
     (if model \<noteq> Some Pi4 then False
      else any_name_matches v4l2_names [''bcm2835'', ''codec'', ''encode''] \<or>
           any_name_matches media_names [''bcm2835'', ''codec'', ''encode''] \<or>
           any_name_matches v4l2_names [''h264'', ''enc''])"

definition detect_pi5_stateless_decoder ::
  "hardware_target \<Rightarrow> pi_model option \<Rightarrow> str list \<Rightarrow> str list \<Rightarrow> bool \<Rightarrow> bool" where
  "detect_pi5_stateless_decoder target model v4l2_names media_names media_nodes =
     (if target \<noteq> RaspberryPi5 \<and> model \<noteq> Some Pi5 then False
      else any_name_matches v4l2_names [''rpivid''] \<or>
           any_name_matches v4l2_names [''stateless'', ''decoder''] \<or>
           any_name_matches media_names [''rpivid''] \<or>
           any_name_matches media_names [''pisp''] \<or>
           model = Some Pi5 \<and> media_nodes)"

definition linux_capabilities :: "file_system \<Rightarrow> linux_probe \<Rightarrow> capability_probe" where
  "linux_capabilities fs probe target =
     (let base = lp_root probe; model = detect_pi_model fs base;
          v4l2_names = video4linux_names fs base; media_names = media_models fs base
      in Inr (default_capabilities
        \<lparr> v4l2_available := has_v4l2 fs base, libcamera_available := has_libcamera fs base,
          host_pi_model := model,
          has_pi4_h264_encoder := detect_pi4_h264_encoder model v4l2_names media_names,
          has_pi5_stateless_decoder :=
            detect_pi5_stateless_decoder target model v4l2_names media_names (has_media_nodes fs base) \<rparr>))"

definition linux_capability_probe :: "file_system \<Rightarrow> capability_probe" where
  "linux_capability_probe fs = linux_capabilities fs linux_probe_new"

section \<open>The libcamera source\<close>

text \<open>\<open>open\<close> is the provider factory; the source hands on whatever its provider gives.\<close>

definition libcamera_build_source ::
  "(compiled_pipeline \<Rightarrow> runtime_error + 'provider) \<Rightarrow> compiled_pipeline \<Rightarrow> runtime_error + 'provider" where
  "libcamera_build_source open_provider pipeline =
     (if ci_kind (cpl_input pipeline) \<noteq> Device \<or> cpl_resolved_backend pipeline \<noteq> LibcameraDevice
      then Inl (Adapter (pipeline_msg (cpl_id pipeline) ''is not a libcamera device pipeline''))
      else open_provider pipeline)"

end
