(* ===== verification/Caml_Camera.thy ===== *)
theory Caml_Camera
  imports Caml_Linux
begin

text \<open>
  The camera of libcamera: which camera a source names and the format asked of it
  (\<^verbatim>\<open>crates/caml-linux-media/src/camera/config.rs\<close>), the errors (\<^verbatim>\<open>error.rs\<close>), and the worker thread with
  the provider that receives its frames (\<^verbatim>\<open>native.rs\<close>).

  What libcamera answers is a record of functions. What the worker's waiting for a completed request
  gives, one answer after the other, is a list. The panics of the \<open>unwrap\<close>s on mapping buffers and
  adding them to requests are the result \<open>None\<close>, as are the planes of a request that has no buffer.
  The thread of the worker, the provider that receives its frames and those who hold the frames that
  it has handed on share a pool; their steps interleave, one operation of the pool at a time.
\<close>

section \<open>Choosing a camera\<close>

datatype camera_selector = SelectIndex usize | SelectId str | SelectModel str

text \<open>The index of all digits of a text read as one number, or 0.\<close>

definition index_of_digits :: "str \<Rightarrow> camera_selector" where
  "index_of_digits input =
     (case parse_unsigned (filter is_ascii_digit input) of
        Some idx \<Rightarrow> SelectIndex idx
      | None \<Rightarrow> SelectIndex 0)"

definition parse_selector :: "str \<Rightarrow> camera_selector" where
  "parse_selector input =
     (case strip_prefix ''camera:'' input of
        Some rest \<Rightarrow>
          (case parse_unsigned rest of
             Some idx \<Rightarrow> SelectIndex idx
           | None \<Rightarrow> index_of_digits input)
      | None \<Rightarrow>
          (case strip_prefix ''libcamera:id:'' input of
             Some rest \<Rightarrow> SelectId rest
           | None \<Rightarrow>
               (case strip_prefix ''libcamera:model:'' input of
                  Some rest \<Rightarrow> SelectModel rest
                | None \<Rightarrow> index_of_digits input)))"

record stream_configuration =
  sf_width :: u32
  sf_height :: u32
  sf_fourcc :: "str"

definition apply_capture_profile :: "capture_profile \<Rightarrow> stream_configuration \<Rightarrow> stream_configuration" where
  "apply_capture_profile profile cfg =
     (let cfg1 = cfg\<lparr> sf_width := cp_width profile, sf_height := cp_height profile \<rparr> in
      if length (cp_pixel_format profile) = 4 then cfg1\<lparr> sf_fourcc := cp_pixel_format profile \<rparr> else cfg1)"

section \<open>Errors\<close>

datatype camera_error =
    ManagerInit str
  | NoCameras
  | CameraNotFound str
  | AcquireFailed str
  | ConfigGenerateFailed str
  | InvalidConfig
  | ConfigureFailed str
  | AllocFailed str
  | StartFailed str
  | QueueFailed str
  | WorkerDied
  | ReceiverClosed

fun camera_error_display :: "camera_error \<Rightarrow> str" where
  "camera_error_display (ManagerInit e) = ''failed to initialize libcamera CameraManager: '' @ e"
| "camera_error_display NoCameras = ''no libcamera compatible cameras found''"
| "camera_error_display (CameraNotFound e) = ''camera not found: '' @ e"
| "camera_error_display (AcquireFailed e) = ''failed to acquire camera: '' @ e"
| "camera_error_display (ConfigGenerateFailed e) = ''failed to generate configuration: '' @ e"
| "camera_error_display InvalidConfig = ''invalid libcamera configuration''"
| "camera_error_display (ConfigureFailed e) = ''failed to configure camera: '' @ e"
| "camera_error_display (AllocFailed e) = ''failed to allocate frame buffers: '' @ e"
| "camera_error_display (StartFailed e) = ''failed to start camera: '' @ e"
| "camera_error_display (QueueFailed e) = ''failed to queue request: '' @ e"
| "camera_error_display WorkerDied = ''camera worker thread panicked or died''"
| "camera_error_display ReceiverClosed = ''camera receiver closed''"

definition runtime_error_of_camera :: "camera_error \<Rightarrow> runtime_error" where
  "runtime_error_of_camera e = Adapter (camera_error_display e)"

section \<open>Setting up the camera\<close>

text \<open>
  Cameras are their ids. Generating the configurations for the recording role answers with a list of
  them; the first is changed to the profile and all of them are validated.
\<close>

record libcamera =
  lc_cameras :: "str + str list"
  lc_acquire :: "str \<Rightarrow> str + unit"
  lc_generate :: "str \<Rightarrow> str + stream_configuration list"
  lc_valid :: "stream_configuration list \<Rightarrow> bool"
  lc_configure :: "stream_configuration list \<Rightarrow> str + unit"
  lc_alloc :: "stream_configuration list \<Rightarrow> str + nat"
  lc_maps_buffers :: bool
  lc_start :: "str + unit"
  lc_queue :: "nat \<Rightarrow> str + unit"

definition select_camera :: "str list \<Rightarrow> str \<Rightarrow> camera_error + str" where
  "select_camera cameras input_path =
     ok_or (CameraNotFound input_path)
       (case parse_selector input_path of
          SelectIndex idx \<Rightarrow> if unat idx < length cameras then Some (cameras ! unat idx) else None
        | SelectId ident \<Rightarrow> find (\<lambda>c. c = ident) cameras
        | SelectModel model \<Rightarrow> find (\<lambda>c. contains model c) cameras)"

definition configure_camera ::
  "libcamera \<Rightarrow> str \<Rightarrow> capture_profile \<Rightarrow> camera_error + stream_configuration list" where
  "configure_camera lc cam profile =
     res_bind (map_err AcquireFailed (lc_acquire lc cam)) (\<lambda>_.
     res_bind (map_err ConfigGenerateFailed (lc_generate lc cam)) (\<lambda>cfgs.
       case cfgs of
         [] \<Rightarrow> Inl InvalidConfig
       | cfg # rest \<Rightarrow>
           (let cfgs' = apply_capture_profile profile cfg # rest in
            if \<not> lc_valid lc cfgs' then Inl InvalidConfig
            else res_bind (map_err ConfigureFailed (lc_configure lc cfgs')) (\<lambda>_. Inr cfgs'))))"

text \<open>The requests that were queued before the loop: one per buffer, in order.\<close>

definition start_camera ::
  "libcamera \<Rightarrow> str \<Rightarrow> capture_profile \<Rightarrow> (camera_error + nat) option" where
  "start_camera lc input_path profile =
     (case res_bind (map_err ManagerInit (lc_cameras lc)) (\<lambda>cameras.
             if cameras = [] then Inl NoCameras
             else res_bind (select_camera cameras input_path) (\<lambda>cam.
               res_bind (configure_camera lc cam profile) (\<lambda>cfgs.
                 map_err AllocFailed (lc_alloc lc cfgs)))) of
        Inl e \<Rightarrow> Some (Inl e)
      | Inr buffers \<Rightarrow>
          if \<not> lc_maps_buffers lc then None
          else Some (res_bind (map_err StartFailed (lc_start lc)) (\<lambda>_.
                 res_bind (try_each (\<lambda>i. map_err QueueFailed (lc_queue lc i)) [0..<buffers]) (\<lambda>_. Inr buffers))))"

section \<open>The thread of the worker\<close>

text \<open>
  A completed request carries its sequence number and the planes of its frame, if it has the buffer of
  the stream; queueing it again may fail.
\<close>

record camera_request =
  cr_sequence :: u64
  cr_planes :: "u8 list list option"
  cr_requeue :: "str + unit"

datatype completed = Completed camera_request | NothingCompleted | CallbackGone

record frame_message =
  fm_timestamp :: duration
  fm_data :: media_buffer

datatype camera_end = CameraStopped | CameraError camera_error | CameraPanicked

text \<open>
  Where the worker is: at the top of its loop, copying a frame, with the planes it still has to copy
  and the buffer it copies them to, or at its end.
\<close>

datatype worker_at = Polling | Copying camera_request "u8 list list" media_buffer | WorkerEnded camera_end

definition run_camera_worker :: "libcamera \<Rightarrow> str \<Rightarrow> capture_profile \<Rightarrow> worker_at" where
  "run_camera_worker lc input_path profile =
     (case start_camera lc input_path profile of
        None \<Rightarrow> WorkerEnded CameraPanicked
      | Some (Inl e) \<Rightarrow> WorkerEnded (CameraError e)
      | Some (Inr _) \<Rightarrow> Polling)"

text \<open>
  The provider receives until it is dropped: then it sends the shutdown command, joins the thread of
  the worker, and only after that its fields are dropped, the receiver of the frames among them.
\<close>

datatype provider_at = ProviderReceives | ProviderJoins | ProviderGone

text \<open>
  What became of the messages that left the channel, in order: frames that were handed on, and
  messages whose buffer went back to the pool because the receiving future or the receiver was dropped.
\<close>

datatype received_frame = Handed decoded_frame | Abandoned

text \<open>
  The state that the threads share. Each frame that somebody holds carries its position in what was
  received, which the program does not store.
\<close>

record camera_state =
  cw_pool :: store
  cw_worker :: worker_at
  cw_completed :: "completed list"
  cw_shutdown :: bool
  cw_channel :: "frame_message list"
  cw_provider :: provider_at
  cw_received :: "received_frame list"
  cw_frames :: "(nat \<times> pooled_buffer) list"

abbreviation ends_worker :: "camera_end \<Rightarrow> camera_state \<Rightarrow> camera_state" where
  "ends_worker e c \<equiv> c\<lparr> cw_worker := WorkerEnded e \<rparr>"

text \<open>The buffer that the worker holds is dropped when it ends, by a return as by a panic.\<close>

definition ends_dropping :: "camera_end \<Rightarrow> media_buffer \<Rightarrow> camera_state \<Rightarrow> camera_state" where
  "ends_dropping e b c =
     (case drop_media_buffer b (cw_pool c) of
        None \<Rightarrow> ends_worker CameraPanicked c
      | Some st \<Rightarrow> ends_worker e (c\<lparr> cw_pool := st \<rparr>))"

text \<open>The top of the loop: the shutdown command first, then the next answer of waiting for a request.\<close>

definition camera_poll :: "camera_state \<Rightarrow> camera_state" where
  "camera_poll c =
     (if cw_shutdown c then ends_worker CameraStopped c
      else (case cw_completed c of
          [] \<Rightarrow> c
        | NothingCompleted # rest \<Rightarrow> c\<lparr> cw_completed := rest \<rparr>
        | CallbackGone # rest \<Rightarrow> ends_worker CameraStopped (c\<lparr> cw_completed := rest \<rparr>)
        | Completed req # rest \<Rightarrow>
            (case acquire (cw_pool c) of
               None \<Rightarrow> ends_worker CameraPanicked c
             | Some (b, st) \<Rightarrow>
                 (let c1 = c\<lparr> cw_pool := st, cw_completed := rest \<rparr> in
                  case cr_planes req of
                    None \<Rightarrow> ends_dropping CameraPanicked b c1
                  | Some planes \<Rightarrow> c1\<lparr> cw_worker := Copying req planes b \<rparr>))))"

text \<open>The frame is sent, unless nobody receives any more, and its request is queued again.\<close>

definition camera_send :: "camera_request \<Rightarrow> media_buffer \<Rightarrow> camera_state \<Rightarrow> camera_state" where
  "camera_send req b c =
     (if cw_provider c = ProviderGone then ends_dropping CameraStopped b c
      else (let c1 = c\<lparr> cw_channel := cw_channel c @
                  [\<lparr> fm_timestamp = from_nanos (cr_sequence req), fm_data = b \<rparr>] \<rparr>
            in case cr_requeue req of
                 Inl e \<Rightarrow> ends_worker (CameraError (QueueFailed e)) c1
               | Inr _ \<Rightarrow> c1\<lparr> cw_worker := Polling \<rparr>))"

text \<open>One step of the thread; a thread at its end does nothing.\<close>

definition camera_loop :: "camera_state \<Rightarrow> camera_state" where
  "camera_loop c =
     (case cw_worker c of
        Polling \<Rightarrow> camera_poll c
      | Copying req [] b \<Rightarrow> camera_send req b c
      | Copying req (plane # planes) b \<Rightarrow>
          (let (b', st) = extend_from_slice plane b (cw_pool c)
           in c\<lparr> cw_pool := st, cw_worker := Copying req planes b' \<rparr>)
      | WorkerEnded e \<Rightarrow> c)"

section \<open>The provider\<close>

definition native_profile :: "compiled_pipeline \<Rightarrow> capture_profile" where
  "native_profile pipeline =
     (case cpl_processing pipeline of
        Some p \<Rightarrow> \<lparr> cp_width = 1920, cp_height = 1080, cp_pixel_format = ''NV12'',
                    cp_frame_rate = cp_out_frame_rate p \<rparr>
      | None \<Rightarrow> \<lparr> cp_width = 1920, cp_height = 1080, cp_pixel_format = ''NV12'', cp_frame_rate = 30 \<rparr>)"

record native_provider =
  nv_width :: u32
  nv_height :: u32
  nv_pixel_format :: str
  nv_input_path :: str
  nv_profile :: capture_profile
  nv_pool :: store

text \<open>\<open>NativeLibcameraFactory::open\<close>; the last three fields are what the thread is started with.\<close>

definition native_open :: "compiled_pipeline \<Rightarrow> native_provider" where
  "native_open pipeline =
     (let profile = native_profile pipeline in
      \<lparr> nv_width = cp_width profile, nv_height = cp_height profile, nv_pixel_format = cp_pixel_format profile,
        nv_input_path = ci_source (cpl_input pipeline), nv_profile = profile,
        nv_pool = pool_new (unat (rt_buffer_size (cpl_runtime pipeline))) \<rparr>)"

text \<open>\<open>next_payload\<close> for the next frame, or for none if the worker is gone; \<open>None\<close> is a panic.\<close>

definition next_payload ::
  "native_provider \<Rightarrow> frame_message option \<Rightarrow> store \<Rightarrow> ((runtime_error + media_payload) \<times> store) option" where
  "next_payload provider message st =
     (case message of
        None \<Rightarrow> Some (Inl (Adapter ''camera worker thread terminated''), st)
      | Some m \<Rightarrow>
          map_option (\<lambda>(buf, st'). (Inr (DecodedFrame
              \<lparr> df_pixel_format = nv_pixel_format provider, df_width = nv_width provider,
                df_height = nv_height provider, df_timestamp = Some (fm_timestamp m),
                df_data = Pooled buf \<rparr>), st'))
            (freeze (fm_data m) st))"

section \<open>Worker, provider and holders of frames\<close>

definition camera_initial :: "libcamera \<Rightarrow> native_provider \<Rightarrow> completed list \<Rightarrow> camera_state" where
  "camera_initial lc provider answers =
     \<lparr> cw_pool = nv_pool provider,
       cw_worker = run_camera_worker lc (nv_input_path provider) (nv_profile provider),
       cw_completed = answers, cw_shutdown = False, cw_channel = [], cw_provider = ProviderReceives,
       cw_received = [], cw_frames = [] \<rparr>"

text \<open>Dropping the receiver drops the messages that are still in the channel.\<close>

fun drop_messages :: "frame_message list \<Rightarrow> store \<Rightarrow> store option" where
  "drop_messages [] st = Some st"
| "drop_messages (m # ms) st = Option.bind (drop_media_buffer (fm_data m) st) (drop_messages ms)"

text \<open>
  A step of the worker; the provider hands on the next frame, or is cancelled while it waits for the
  metrics and drops the message; a holder of a frame clones or drops it, at which fewer than \<open>2^64\<close> of
  them exist; the provider is dropped, and joins the worker once that is at its end.
\<close>

inductive camera_step :: "native_provider \<Rightarrow> camera_state \<Rightarrow> camera_state \<Rightarrow> bool" for provider where
  Works: "camera_step provider c (camera_loop c)"
| Hands: "cw_provider c = ProviderReceives \<Longrightarrow> cw_channel c = m # ms \<Longrightarrow>
    next_payload provider (Some m) (cw_pool c) = Some (Inr (DecodedFrame f), st) \<Longrightarrow> df_data f = Pooled r \<Longrightarrow>
    camera_step provider c (c\<lparr> cw_pool := st, cw_channel := ms, cw_received := cw_received c @ [Handed f],
      cw_frames := (length (cw_received c), r) # cw_frames c \<rparr>)"
| Cancels: "cw_provider c = ProviderReceives \<Longrightarrow> cw_channel c = m # ms \<Longrightarrow>
    drop_media_buffer (fm_data m) (cw_pool c) = Some st \<Longrightarrow>
    camera_step provider c (c\<lparr> cw_pool := st, cw_channel := ms, cw_received := cw_received c @ [Abandoned] \<rparr>)"
| Clones: "(i, r) \<in> set (cw_frames c) \<Longrightarrow> length (cw_frames c) < 2 ^ 64 - 1 \<Longrightarrow>
    clone_pooled r (cw_pool c) = Some (r', st) \<Longrightarrow>
    camera_step provider c (c\<lparr> cw_pool := st, cw_frames := (i, r') # cw_frames c \<rparr>)"
| Drops: "cw_frames c = fs @ (i, r) # fs' \<Longrightarrow> drop_pooled r (cw_pool c) = Some st \<Longrightarrow>
    camera_step provider c (c\<lparr> cw_pool := st, cw_frames := fs @ fs' \<rparr>)"
| Leaves: "cw_provider c = ProviderReceives \<Longrightarrow>
    camera_step provider c (c\<lparr> cw_provider := ProviderJoins, cw_shutdown := True \<rparr>)"
| Joins: "cw_provider c = ProviderJoins \<Longrightarrow> cw_worker c = WorkerEnded e \<Longrightarrow>
    drop_messages (cw_channel c) (cw_pool c) = Some st \<Longrightarrow>
    camera_step provider c (c\<lparr> cw_pool := st, cw_provider := ProviderGone, cw_channel := [],
      cw_received := cw_received c @ replicate (length (cw_channel c)) Abandoned \<rparr>)"

end
