(* ===== verification/Caml_Camera_Correct.thy ===== *)
theory Caml_Camera_Correct
  imports Caml_Camera Caml_Pool_Correct
begin

text \<open>
  Worker, provider and holders of frames use their pool soundly, however they interleave: what the
  provider hands on are exactly the frames of the requests that completed, byte for byte and in order, and
  the worker ends as libcamera's answers say; and which camera a source names.
\<close>

section \<open>What the pool's operations leave alone\<close>

abbreviation data_in :: "world \<Rightarrow> media_buffer \<Rightarrow> u8 list" where
  "data_in w b \<equiv> vec_data (heap (w_store w)) (mb_bytes b)"

lemma other_writer_data:
  assumes inv: "\<forall>i. slot_ok_in own st ws rs i" and "c \<in> set ws" "mb_slot_index c \<noteq> k"
    and "only_touches k own st own' st'"
  shows "vec_data (heap st') (mb_bytes c) = vec_data (heap st) (mb_bytes c)"
proof -
  obtain bs bs' where "ws = bs @ c # bs'" using assms(2) by (metis split_list)
  with inv have "\<forall>i. slot_ok_in own st (bs @ c # bs') rs i" by simp
  then obtain s where "vec_ok own (heap st) (next_addr st) (mb_slot_index c) (mb_bytes c)"
    by (rule writer_slot)
  from vec_ok_frame [OF this assms(4,3)] show ?thesis by simp
qed

lemma not_writer_slot: "writers_of k ws = [] \<Longrightarrow> c \<in> set ws \<Longrightarrow> mb_slot_index c \<noteq> k"
  by (auto simp: writers_of_def filter_empty_conv)

lemma acquire_touches:
  assumes st: "store_ok st" and inv: "\<forall>i. slot_ok_in own st ws rs i" and a: "acquire st = Some (b, st')"
  shows "\<exists>own'. only_touches (mb_slot_index b) own st own' st'"
proof (cases "free st")
  case (Cons k rest)
  have "slot_ok_in own st ws rs k" by (rule inv [rule_format])
  moreover have "0 < count_list (free st) k" using Cons by simp
  ultimately obtain s v where s: "slot_at st k = Some s" "slot_bytes s = Some v"
    and v: "vec_ok own (heap st) (next_addr st) k v"
    by (rule slot_ok_free)
  let ?st1 = "set_free rest (set_slots ((slots st)[k := s\<lparr> slot_bytes := None \<rparr>]) st)"
  have "b = \<lparr> mb_bytes = v, mb_slot_index = k \<rparr>" "st' = vec_write v [] ?st1"
    using a Cons s by (simp_all add: acquire_def slot_at_Some)
  moreover have "only_touches k own ?st1 own (vec_write v [] ?st1)"
    using vec_write_ok [of own ?st1 k v "[]"] v by simp
  ultimately show ?thesis by (intro exI [of _ own]) (simp add: only_touches_def)
next
  case Nil
  let ?k = "length (slots st)"
  let ?st1 = "count_allocated 1 (set_slots (slots st @ [new_slot None]) st)"
  obtain v st2 where v: "vec_alloc (buffer_size st) [] ?st1 = (v, st2)" by fastforce
  have "b = \<lparr> mb_bytes = v, mb_slot_index = ?k \<rparr>" "st' = st2"
    using a Nil v by (simp_all add: acquire_def Let_def)
  moreover have "2 \<le> next_addr ?st1" using st by (simp add: store_ok_def)
  note va = vec_alloc_ok [OF this v, of own ?k, simplified]
  ultimately show ?thesis using va by (intro exI [of _ "own(next_addr st := ?k)"]) (simp add: only_touches_def)
qed

lemma extend_touches:
  assumes st: "store_ok st" and inv: "\<forall>i. slot_ok_in own st (b # ws) rs i"
    and e: "extend_from_slice payload b st = (b', st')"
  shows "\<exists>own'. only_touches (mb_slot_index b) own st own' st'"
proof -
  obtain v where v: "vec_extend (mb_bytes b) payload st = (v, st')"
    using e by (auto simp: extend_from_slice_def split: prod.splits)
  have n: "2 \<le> next_addr st" using st by (simp add: store_ok_def)
  from inv have "\<forall>i. slot_ok_in own st ([] @ b # ws) rs i" by simp
  then obtain s where "vec_ok own (heap st) (next_addr st) (mb_slot_index b) (mb_bytes b)"
    by (rule writer_slot)
  from vec_extend_ok [OF n this v] show ?thesis by blast
qed

lemma drop_touches:
  assumes inv: "\<forall>i. slot_ok_in own st (bs @ b # bs') rs i" and d: "drop_media_buffer b st = Some st'"
  shows "\<exists>own'. only_touches (mb_slot_index b) own st own' st'"
proof -
  from inv obtain s where s: "mb_slot_index b < length (slots st)" "slots st ! mb_slot_index b = s"
    "slot_bytes s = None" and v: "vec_ok own (heap st) (next_addr st) (mb_slot_index b) (mb_bytes b)"
    by (rule writer_slot)
  show ?thesis
  proof (cases "v_cap (mb_bytes b) = 0")
    case True
    with d have "st' = st" by (simp add: drop_media_buffer_def Let_def)
    then show ?thesis using only_touches_refl by blast
  next
    case False
    let ?st1 = "set_free (mb_slot_index b # free st)
      (set_slots ((slots st)[mb_slot_index b := s\<lparr> slot_bytes := Some (mb_bytes b) \<rparr>]) st)"
    have "st' = vec_write (mb_bytes b) [] ?st1"
      using d False s by (simp add: drop_media_buffer_def Let_def drop_stored_def)
    moreover have "only_touches (mb_slot_index b) own ?st1 own (vec_write (mb_bytes b) [] ?st1)"
      using vec_write_ok [of own ?st1 "mb_slot_index b" "mb_bytes b" "[]"] v by simp
    ultimately show ?thesis by (intro exI [of _ own]) (simp add: only_touches_def)
  qed
qed

text \<open>One operation of the pool: it succeeds, and the other writers keep their bytes.\<close>

definition keeps_writers :: "world \<Rightarrow> media_buffer list \<Rightarrow> world \<Rightarrow> bool" where
  "keeps_writers w ws w' \<longleftrightarrow> (\<forall>c \<in> set ws. data_in w' c = data_in w c)"

lemma pool_inv_cases:
  assumes "pool_inv w"
  obtains own where "store_ok (w_store w)" "\<forall>i. slot_ok_in own (w_store w) (writers w) (readers w) i"
  using assms by (auto simp: pool_inv_def)

lemma acquire_step:
  assumes "pool_inv w"
  shows "\<exists>b st. acquire (w_store w) = Some (b, st) \<and>
    (let w' = w\<lparr> w_store := st, writers := b # writers w \<rparr> in
       pool_step w w' \<and> data_in w' b = [] \<and> keeps_writers w (writers w) w')"
proof -
  obtain own where st: "store_ok (w_store w)"
    and inv: "\<forall>i. slot_ok_in own (w_store w) (writers w) (readers w) i"
    using assms by (rule pool_inv_cases)
  from acquire_ok [OF st inv] obtain b st' where b: "acquire (w_store w) = Some (b, st')"
    "vec_data (heap st') (mb_bytes b) = []" "writers_of (mb_slot_index b) (writers w) = []" by blast
  obtain own' where t: "only_touches (mb_slot_index b) own (w_store w) own' st'"
    using acquire_touches [OF st inv b(1)] by blast
  have "keeps_writers w (writers w) (w\<lparr> w_store := st', writers := b # writers w \<rparr>)"
    using other_writer_data [OF inv _ not_writer_slot [OF b(3)] t] by (simp add: keeps_writers_def)
  with b pool_step.Acquire [OF b(1)] show ?thesis by (auto simp: Let_def)
qed

lemma other_writers:
  assumes inv: "\<forall>i. slot_ok_in own st (bs @ b # bs') rs i" and "c \<in> set (bs @ bs')"
  shows "mb_slot_index c \<noteq> mb_slot_index b"
proof -
  from inv obtain s where "writers_of (mb_slot_index b) bs = []" "writers_of (mb_slot_index b) bs' = []"
    by (rule writer_slot)
  then have "writers_of (mb_slot_index b) (bs @ bs') = []" by simp
  with assms(2) show ?thesis by (rule not_writer_slot [rotated])
qed

lemma extend_step:
  assumes "pool_inv w" "writers w = b # ws" "extend_from_slice payload b (w_store w) = (b', st)"
  shows "let w' = w\<lparr> w_store := st, writers := b' # ws \<rparr> in
    pool_step w w' \<and> data_in w' b' = data_in w b @ payload \<and> keeps_writers w ws w'"
proof -
  obtain own where st: "store_ok (w_store w)"
    and inv: "\<forall>i. slot_ok_in own (w_store w) (b # ws) (readers w) i"
    using assms(1) unfolding assms(2) [symmetric] by (rule pool_inv_cases)
  from inv have inv': "\<forall>i. slot_ok_in own (w_store w) ([] @ b # ws) (readers w) i" by simp
  obtain own' where t: "only_touches (mb_slot_index b) own (w_store w) own' st"
    using extend_touches [OF st inv assms(3)] by blast
  have "keeps_writers w ws (w\<lparr> w_store := st, writers := b' # ws \<rparr>)"
    using other_writer_data [OF inv _ _ t] other_writers [OF inv'] by (simp add: keeps_writers_def)
  with extend_ok [OF st inv' assms(3)] pool_step.Extend [of w "[]" b ws payload b' st] assms(2,3)
  show ?thesis by (simp add: Let_def)
qed

lemma drop_step:
  assumes "pool_inv w" "writers w = bs @ b # bs'"
  shows "\<exists>st. drop_media_buffer b (w_store w) = Some st \<and>
    (let w' = w\<lparr> w_store := st, writers := bs @ bs' \<rparr> in pool_step w w' \<and> keeps_writers w (bs @ bs') w')"
proof -
  obtain own where st: "store_ok (w_store w)"
    and inv: "\<forall>i. slot_ok_in own (w_store w) (bs @ b # bs') (readers w) i"
    using assms(1) unfolding assms(2) [symmetric] by (rule pool_inv_cases)
  from drop_writer_ok [OF st inv] obtain st' where d: "drop_media_buffer b (w_store w) = Some st'" by blast
  obtain own' where t: "only_touches (mb_slot_index b) own (w_store w) own' st'"
    using drop_touches [OF inv d] by blast
  have "keeps_writers w (bs @ bs') (w\<lparr> w_store := st', writers := bs @ bs' \<rparr>)"
    using other_writer_data [OF inv _ _ t] other_writers [OF inv] by (auto simp: keeps_writers_def)
  with d pool_step.DropWriter [OF assms(2) d] show ?thesis by (auto simp: Let_def)
qed

lemma freeze_step:
  assumes "pool_inv w" "writers w = bs @ b # bs'" "freeze b (w_store w) = Some (r, st)"
  shows "let w' = w\<lparr> w_store := st, writers := bs @ bs', readers := (r, data_in w b) # readers w \<rparr> in
    pool_step w w' \<and> keeps_writers w (bs @ bs') w'"
proof -
  obtain own where inv: "\<forall>i. slot_ok_in own (w_store w) (bs @ b # bs') (readers w) i"
    using assms(1) unfolding assms(2) [symmetric] by (rule pool_inv_cases)
  then obtain s where "slots (w_store w) ! mb_slot_index b = s" "slot_bytes s = None" by (rule writer_slot)
  then have "heap st = heap (w_store w)"
    using assms(3) by (auto simp: freeze_def Let_def drop_stored_def split: if_splits)
  then show ?thesis
    using pool_step.Freeze [OF assms(2,3)] by (simp add: Let_def keeps_writers_def)
qed

lemma clone_heap: "clone_pooled r st = Some (r', st') \<Longrightarrow> heap st' = heap st"
  by (auto simp: clone_pooled_def Let_def split: if_splits)

lemma drop_pooled_heap: "drop_pooled r st = Some st' \<Longrightarrow> heap st' = heap st"
  by (auto simp: drop_pooled_def Let_def split: if_splits)

lemma keeps_writers_trans:
  "keeps_writers w ws w' \<Longrightarrow> keeps_writers w' ws w'' \<Longrightarrow> keeps_writers w ws w''"
  by (simp add: keeps_writers_def)

lemma keeps_writers_Cons:
  "keeps_writers w (b # ws) w' \<longleftrightarrow> data_in w' b = data_in w b \<and> keeps_writers w ws w'"
  by (simp add: keeps_writers_def)

section \<open>What is promised\<close>

text \<open>
  For the answers of libcamera: the requests whose frames are sent, in order, and how the worker ends if
  the answers end it. A request that cannot be queued again is the last one, a request without its buffer
  is a panic, and a callback that is gone is the end of the loop.
\<close>

fun camera_spec :: "completed list \<Rightarrow> camera_request list \<times> camera_end option" where
  "camera_spec [] = ([], None)"
| "camera_spec (NothingCompleted # rest) = camera_spec rest"
| "camera_spec (CallbackGone # rest) = ([], Some CameraStopped)"
| "camera_spec (Completed req # rest) =
     (case cr_planes req of
        None \<Rightarrow> ([], Some CameraPanicked)
      | Some _ \<Rightarrow>
          (case cr_requeue req of
             Inl e \<Rightarrow> ([req], Some (CameraError (QueueFailed e)))
           | Inr _ \<Rightarrow> (req # fst (camera_spec rest), snd (camera_spec rest))))"

definition camera_promise ::
  "libcamera \<Rightarrow> native_provider \<Rightarrow> completed list \<Rightarrow> camera_request list \<times> camera_end option" where
  "camera_promise lc provider answers =
     (case start_camera lc (nv_input_path provider) (nv_profile provider) of
        None \<Rightarrow> ([], Some CameraPanicked)
      | Some (Inl e) \<Rightarrow> ([], Some (CameraError e))
      | Some (Inr _) \<Rightarrow> camera_spec answers)"

text \<open>What is sent for a request: its stamp and the bytes of its planes; and what a message says.\<close>

definition frame_of :: "camera_request \<Rightarrow> duration \<times> u8 list" where
  "frame_of req = (from_nanos (cr_sequence req), concat (the (cr_planes req)))"

definition message_in :: "store \<Rightarrow> frame_message \<Rightarrow> duration \<times> u8 list" where
  "message_in st m = (fm_timestamp m, vec_data (heap st) (mb_bytes (fm_data m)))"

definition handed_for :: "native_provider \<Rightarrow> received_frame \<Rightarrow> camera_request \<Rightarrow> bool" where
  "handed_for provider x req \<longleftrightarrow>
     (case x of
        Abandoned \<Rightarrow> True
      | Handed f \<Rightarrow> df_timestamp f = Some (fst (frame_of req)) \<and> df_pixel_format f = nv_pixel_format provider \<and>
          df_width f = nv_width provider \<and> df_height f = nv_height provider)"

section \<open>The invariant of worker, provider and holders\<close>

fun held_buffers :: "worker_at \<Rightarrow> media_buffer list" where
  "held_buffers (Copying req planes b) = [b]"
| "held_buffers Polling = []"
| "held_buffers (WorkerEnded e) = []"

text \<open>The world of the pool that a state of the camera shows, with the requests whose frames were sent.\<close>

definition camera_world :: "camera_request list \<Rightarrow> camera_state \<Rightarrow> world" where
  "camera_world sent c =
     \<lparr> w_store = cw_pool c, writers = held_buffers (cw_worker c) @ rev (map fm_data (cw_channel c)),
       readers = map (\<lambda>(i, r). (r, snd (frame_of (sent ! i)))) (cw_frames c) \<rparr>"

definition keeps_promise ::
  "camera_request list \<times> camera_end option \<Rightarrow> camera_request list \<Rightarrow> completed list \<Rightarrow> bool" where
  "keeps_promise promise sent answers \<longleftrightarrow>
     promise = (sent @ fst (camera_spec answers), snd (camera_spec answers))"

definition worker_ok ::
  "camera_request list \<times> camera_end option \<Rightarrow> camera_request list \<Rightarrow> camera_state \<Rightarrow> bool" where
  "worker_ok promise sent c \<longleftrightarrow>
     (case cw_worker c of
        Polling \<Rightarrow> keeps_promise promise sent (cw_completed c)
      | Copying req planes b \<Rightarrow>
          keeps_promise promise sent (Completed req # cw_completed c) \<and> cr_planes req \<noteq> None \<and>
          data_in (camera_world sent c) b @ concat planes = snd (frame_of req)
      | WorkerEnded e \<Rightarrow> promise = (sent, Some e) \<or>
          e = CameraStopped \<and> cw_shutdown c \<and> prefix sent (fst promise))"

definition frames_ok :: "camera_state \<Rightarrow> bool" where
  "frames_ok c \<longleftrightarrow> (\<forall>(i, r) \<in> set (cw_frames c). i < length (cw_received c) \<and>
     (\<exists>f. cw_received c ! i = Handed f \<and> df_data f = Pooled r))"

definition camera_inv ::
  "native_provider \<Rightarrow> nat \<Rightarrow> camera_request list \<times> camera_end option \<Rightarrow> camera_request list \<Rightarrow> camera_state \<Rightarrow> bool" where
  "camera_inv provider n promise sent c \<longleftrightarrow>
     pool_step\<^sup>*\<^sup>* (initial_world n) (camera_world sent c) \<and>
     length sent = length (cw_received c) + length (cw_channel c) \<and>
     list_all2 (handed_for provider) (cw_received c) (take (length (cw_received c)) sent) \<and>
     map (message_in (cw_pool c)) (cw_channel c) = map frame_of (drop (length (cw_received c)) sent) \<and>
     frames_ok c \<and> worker_ok promise sent c \<and>
     (cw_shutdown c \<longleftrightarrow> cw_provider c \<noteq> ProviderReceives) \<and>
     (cw_provider c = ProviderGone \<longrightarrow> (\<exists>e. cw_worker c = WorkerEnded e))"

lemma camera_world_simps [simp]:
  "w_store (camera_world sent c) = cw_pool c"
  "writers (camera_world sent c) = held_buffers (cw_worker c) @ rev (map fm_data (cw_channel c))"
  "readers (camera_world sent c) = map (\<lambda>(i, r). (r, snd (frame_of (sent ! i)))) (cw_frames c)"
  by (simp_all add: camera_world_def)

lemma camera_inv_pool: "camera_inv provider n promise sent c \<Longrightarrow> pool_inv (camera_world sent c)"
  by (auto simp: camera_inv_def intro: reachable_inv)

lemma keeps_messages:
  "keeps_writers w ws w' \<Longrightarrow> set (map fm_data ms) \<subseteq> set ws \<Longrightarrow>
     map (message_in (w_store w')) ms = map (message_in (w_store w)) ms"
  by (auto simp: keeps_writers_def message_in_def)

text \<open>A step that changes the pool, the worker and what it still has to do, and nothing else.\<close>

lemma worker_update_inv:
  assumes inv: "camera_inv provider n promise sent c"
    and step: "pool_step\<^sup>*\<^sup>* (camera_world sent c)
      ((camera_world sent c)\<lparr> w_store := st, writers := held_buffers at' @ rev (map fm_data (cw_channel c)) \<rparr>)"
    and kept: "keeps_writers (camera_world sent c) (rev (map fm_data (cw_channel c)))
      ((camera_world sent c)\<lparr> w_store := st, writers := held_buffers at' @ rev (map fm_data (cw_channel c)) \<rparr>)"
    and ok: "worker_ok promise sent (c\<lparr> cw_pool := st, cw_worker := at', cw_completed := rest \<rparr>)"
    and live: "\<nexists>e. cw_worker c = WorkerEnded e"
  shows "camera_inv provider n promise sent (c\<lparr> cw_pool := st, cw_worker := at', cw_completed := rest \<rparr>)"
proof -
  let ?c = "c\<lparr> cw_pool := st, cw_worker := at', cw_completed := rest \<rparr>"
  have w: "camera_world sent ?c = (camera_world sent c)\<lparr> w_store := st,
      writers := held_buffers at' @ rev (map fm_data (cw_channel c)) \<rparr>"
    by (simp add: camera_world_def)
  have "map (message_in st) (cw_channel c) = map (message_in (cw_pool c)) (cw_channel c)"
    using keeps_messages [OF kept, of "cw_channel c"] by simp
  with inv step ok live show ?thesis
    unfolding camera_inv_def w by (auto simp: frames_ok_def intro: rtranclp_trans)
qed

text \<open>A buffer that is acquired and dropped again.\<close>

lemma ends_dropping_inv:
  assumes inv: "camera_inv provider n promise sent c" and at: "cw_worker c = Polling"
    and s: "pool_step (camera_world sent c) ((camera_world sent c)\<lparr> w_store := st, writers := b # rev (map fm_data (cw_channel c)) \<rparr>)"
      "keeps_writers (camera_world sent c) (rev (map fm_data (cw_channel c)))
        ((camera_world sent c)\<lparr> w_store := st, writers := b # rev (map fm_data (cw_channel c)) \<rparr>)"
    and ok: "promise = (sent, Some e)"
  shows "camera_inv provider n promise sent (ends_dropping e b (c\<lparr> cw_pool := st, cw_completed := rest \<rparr>))"
proof -
  let ?ws = "rev (map fm_data (cw_channel c))"
  define w1 where "w1 = (camera_world sent c)\<lparr> w_store := st, writers := b # ?ws \<rparr>"
  have "pool_inv w1" using pool_step_inv [OF s(1) camera_inv_pool [OF inv]] by (simp add: w1_def)
  moreover have "writers w1 = [] @ b # ?ws" by (simp add: w1_def)
  ultimately obtain st' where d: "drop_media_buffer b (w_store w1) = Some st'"
    and s': "pool_step w1 (w1\<lparr> w_store := st', writers := ?ws \<rparr>)" "keeps_writers w1 ?ws (w1\<lparr> w_store := st', writers := ?ws \<rparr>)"
    using drop_step [of w1 "[]" b ?ws] by (auto simp: Let_def)
  have w: "w1\<lparr> w_store := st', writers := ?ws \<rparr> = (camera_world sent c)\<lparr> w_store := st', writers := ?ws \<rparr>"
    by (simp add: w1_def)
  have "pool_step\<^sup>*\<^sup>* (camera_world sent c) ((camera_world sent c)\<lparr> w_store := st', writers := ?ws \<rparr>)"
    using s(1) s'(1) unfolding w by (auto simp: w1_def)
  moreover have "keeps_writers (camera_world sent c) ?ws ((camera_world sent c)\<lparr> w_store := st', writers := ?ws \<rparr>)"
    using s(2) s'(2) unfolding w by (auto simp: w1_def intro: keeps_writers_trans)
  ultimately have "camera_inv provider n promise sent (c\<lparr> cw_pool := st', cw_worker := WorkerEnded e, cw_completed := rest \<rparr>)"
    by (intro worker_update_inv [OF inv]) (simp_all add: at worker_ok_def ok)
  moreover have "c\<lparr> cw_pool := st', cw_worker := WorkerEnded e, cw_completed := rest \<rparr> =
      ends_worker e (c\<lparr> cw_completed := rest, cw_pool := st' \<rparr>)" by (cases c) simp
  moreover have "drop_media_buffer b st = Some st'" using d by (simp add: w1_def)
  ultimately show ?thesis by (simp add: ends_dropping_def)
qed

text \<open>The pool unchanged.\<close>

lemma worker_moves_inv:
  assumes inv: "camera_inv provider n promise sent c" and live: "\<nexists>e. cw_worker c = WorkerEnded e"
    and held: "held_buffers at' = held_buffers (cw_worker c)"
    and ok: "worker_ok promise sent (c\<lparr> cw_worker := at', cw_completed := rest \<rparr>)"
  shows "camera_inv provider n promise sent (c\<lparr> cw_worker := at', cw_completed := rest \<rparr>)"
proof -
  have w: "(camera_world sent c)\<lparr> w_store := cw_pool c,
      writers := held_buffers at' @ rev (map fm_data (cw_channel c)) \<rparr> = camera_world sent c"
    using held by (simp add: camera_world_def)
  have c: "c\<lparr> cw_pool := cw_pool c, cw_worker := at', cw_completed := rest \<rparr> = c\<lparr> cw_worker := at', cw_completed := rest \<rparr>"
    by simp
  show ?thesis
    using worker_update_inv [OF inv, where st = "cw_pool c" and at' = at' and rest = rest] live ok unfolding w c
    by (simp add: keeps_writers_def)
qed

section \<open>The steps of the worker\<close>

lemma poll_inv:
  assumes inv: "camera_inv provider n promise sent c" and at: "cw_worker c = Polling"
  shows "camera_inv provider n promise sent (camera_poll c)"
proof -
  have p: "keeps_promise promise sent (cw_completed c)" using inv at by (simp add: camera_inv_def worker_ok_def)
  note moves = worker_moves_inv [OF inv, unfolded at, simplified]
  have same: "c\<lparr> cw_worker := x, cw_completed := cw_completed c \<rparr> = c\<lparr> cw_worker := x \<rparr>"
    "c\<lparr> cw_worker := Polling, cw_completed := rest \<rparr> = c\<lparr> cw_completed := rest \<rparr>"
    "c\<lparr> cw_worker := x, cw_completed := rest \<rparr> = c\<lparr> cw_completed := rest, cw_worker := x \<rparr>" for x rest
    using at by (cases c, simp)+
  show ?thesis
  proof (cases "cw_shutdown c")
    case True
    with p have "worker_ok promise sent (c\<lparr> cw_worker := WorkerEnded CameraStopped, cw_completed := cw_completed c \<rparr>)"
      by (simp add: worker_ok_def keeps_promise_def)
    with True moves [of "WorkerEnded CameraStopped" "cw_completed c"] show ?thesis
      by (simp add: camera_poll_def same(1,2))
  next
    case False
    note opened = this
    show ?thesis
    proof (cases "cw_completed c")
      case Nil
      with opened inv show ?thesis by (simp add: camera_poll_def)
    next
      case (Cons answer rest)
      show ?thesis
      proof (cases answer)
        case NothingCompleted
        have "worker_ok promise sent (c\<lparr> cw_worker := Polling, cw_completed := rest \<rparr>)"
          using p by (simp add: worker_ok_def keeps_promise_def Cons NothingCompleted)
        with opened Cons NothingCompleted moves [of Polling rest] show ?thesis by (simp add: camera_poll_def same(1,2))
      next
        case CallbackGone
        have "worker_ok promise sent (c\<lparr> cw_worker := WorkerEnded CameraStopped, cw_completed := rest \<rparr>)"
          using p by (simp add: worker_ok_def keeps_promise_def Cons CallbackGone)
        with opened Cons CallbackGone moves [of "WorkerEnded CameraStopped" rest] show ?thesis
          by (simp add: camera_poll_def same(3))
      next
        case (Completed req)
        obtain b st where a: "acquire (cw_pool c) = Some (b, st)"
          and s: "pool_step (camera_world sent c) ((camera_world sent c)\<lparr> w_store := st, writers := b # rev (map fm_data (cw_channel c)) \<rparr>)"
            "vec_data (heap st) (mb_bytes b) = []"
            "keeps_writers (camera_world sent c) (rev (map fm_data (cw_channel c)))
              ((camera_world sent c)\<lparr> w_store := st, writers := b # rev (map fm_data (cw_channel c)) \<rparr>)"
          using acquire_step [OF camera_inv_pool [OF inv]] by (auto simp: Let_def at)
        let ?copying = "\<lambda>planes. c\<lparr> cw_pool := st, cw_worker := Copying req planes b, cw_completed := rest \<rparr>"
        have copying: "camera_inv provider n promise sent (?copying planes)" if "cr_planes req = Some planes" for planes
          by (rule worker_update_inv [OF inv])
            (use s p that at in \<open>auto simp: worker_ok_def frame_of_def Cons Completed\<close>)
        show ?thesis
        proof (cases "cr_planes req")
          case (Some planes)
          have "?copying planes = c\<lparr> cw_pool := st, cw_completed := rest, cw_worker := Copying req planes b \<rparr>"
            by (cases c) simp
          from copying [OF Some, unfolded this] Some opened Cons Completed a show ?thesis
            by (simp add: camera_poll_def Let_def)
        next
          case None
          then have "promise = (sent, Some CameraPanicked)"
            using p by (simp add: keeps_promise_def Cons Completed)
          with None opened Cons Completed a ends_dropping_inv [OF inv at s(1,3)] show ?thesis
            by (simp add: camera_poll_def Let_def)
        qed
      qed
    qed
  qed
qed

lemma copy_inv:
  assumes inv: "camera_inv provider n promise sent c" and at: "cw_worker c = Copying req (plane # planes) b"
  shows "camera_inv provider n promise sent (camera_loop c)"
proof -
  obtain b' st where e: "extend_from_slice plane b (cw_pool c) = (b', st)" by fastforce
  have "writers (camera_world sent c) = b # rev (map fm_data (cw_channel c))" by (simp add: at)
  from extend_step [OF camera_inv_pool [OF inv] this, of plane b' st] e
  have s: "pool_step (camera_world sent c) ((camera_world sent c)\<lparr> w_store := st, writers := b' # rev (map fm_data (cw_channel c)) \<rparr>)"
    "vec_data (heap st) (mb_bytes b') = vec_data (heap (cw_pool c)) (mb_bytes b) @ plane"
    "keeps_writers (camera_world sent c) (rev (map fm_data (cw_channel c)))
      ((camera_world sent c)\<lparr> w_store := st, writers := b' # rev (map fm_data (cw_channel c)) \<rparr>)"
    by (simp_all add: Let_def)
  have "worker_ok promise sent c" using inv by (simp add: camera_inv_def)
  with s(2) have "worker_ok promise sent (c\<lparr> cw_pool := st, cw_worker := Copying req planes b', cw_completed := cw_completed c \<rparr>)"
    by (simp add: worker_ok_def at)
  then have "camera_inv provider n promise sent (c\<lparr> cw_pool := st, cw_worker := Copying req planes b', cw_completed := cw_completed c \<rparr>)"
    using s by (intro worker_update_inv [OF inv]) (simp_all add: at)
  then show ?thesis using e by (simp add: camera_loop_def at)
qed

lemma frames_sent:
  assumes "camera_inv provider n promise sent c" "(i, r) \<in> set (cw_frames c)"
  shows "i < length (cw_received c)" "i < length sent"
  using assms by (auto simp: camera_inv_def frames_ok_def)

lemma send_inv:
  assumes inv: "camera_inv provider n promise sent c" and at: "cw_worker c = Copying req [] b"
  shows "camera_inv provider n promise (sent @ [req]) (camera_send req b c)"
proof -
  let ?m = "\<lparr> fm_timestamp = from_nanos (cr_sequence req), fm_data = b \<rparr>"
  have p: "keeps_promise promise sent (Completed req # cw_completed c)" "cr_planes req \<noteq> None"
    "message_in (cw_pool c) ?m = frame_of req" and open_rx: "cw_provider c \<noteq> ProviderGone"
    and len: "length sent = length (cw_received c) + length (cw_channel c)"
    using inv at by (auto simp: camera_inv_def worker_ok_def message_in_def frame_of_def)
  have sent: "camera_inv provider n promise (sent @ [req]) (c\<lparr> cw_channel := cw_channel c @ [?m], cw_worker := at' \<rparr>)"
    if "worker_ok promise (sent @ [req]) (c\<lparr> cw_channel := cw_channel c @ [?m], cw_worker := at' \<rparr>)"
      "held_buffers at' = []" for at'
  proof -
    have "camera_world (sent @ [req]) (c\<lparr> cw_channel := cw_channel c @ [?m], cw_worker := at' \<rparr>) = camera_world sent c"
      using that(2) frames_sent [OF inv] by (auto simp: camera_world_def at nth_append intro!: map_cong)
    with inv that p open_rx len show ?thesis by (simp add: camera_inv_def frames_ok_def)
  qed
  obtain planes where "cr_planes req = Some planes" using p(2) by blast
  with p(1) open_rx sent [of Polling] sent [of "WorkerEnded (CameraError (QueueFailed e))" for e] show ?thesis
    by (cases "cr_requeue req") (simp_all add: camera_send_def worker_ok_def keeps_promise_def)
qed

lemma loop_inv:
  assumes inv: "camera_inv provider n promise sent c"
  shows "\<exists>sent'. camera_inv provider n promise sent' (camera_loop c)"
proof (cases "cw_worker c")
  case Polling
  then show ?thesis using poll_inv [OF inv] by (auto simp: camera_loop_def)
next
  case (Copying req planes b)
  then show ?thesis using copy_inv [OF inv] send_inv [OF inv] by (cases planes) (auto simp: camera_loop_def)
next
  case (WorkerEnded e)
  then show ?thesis using inv by (auto simp: camera_loop_def)
qed

section \<open>The steps of the provider and of the holders\<close>

lemma message_sent:
  assumes "camera_inv provider n promise sent c" "cw_channel c = m # ms"
  shows "length (cw_received c) < length sent"
    "drop (length (cw_received c)) sent = sent ! length (cw_received c) # drop (Suc (length (cw_received c))) sent"
    "message_in (cw_pool c) m = frame_of (sent ! length (cw_received c))"
proof -
  show len: "length (cw_received c) < length sent" using assms by (simp add: camera_inv_def)
  then show d: "drop (length (cw_received c)) sent = sent ! length (cw_received c) # drop (Suc (length (cw_received c))) sent"
    by (simp add: Cons_nth_drop_Suc)
  show "message_in (cw_pool c) m = frame_of (sent ! length (cw_received c))"
    using assms by (simp add: camera_inv_def d)
qed

lemma others_inv:
  assumes inv: "camera_inv provider n promise sent c"
    and step: "pool_step\<^sup>*\<^sup>* (camera_world sent c) (camera_world sent c')"
    and kept: "keeps_writers (camera_world sent c) (writers (camera_world sent c')) (camera_world sent c')"
    and same: "cw_worker c' = cw_worker c" "cw_completed c' = cw_completed c" "cw_shutdown c \<longrightarrow> cw_shutdown c'"
      "cw_shutdown c' \<longleftrightarrow> cw_provider c' \<noteq> ProviderReceives"
      "cw_provider c' = ProviderGone \<longrightarrow> (\<exists>e. cw_worker c' = WorkerEnded e)"
    and moved: "cw_channel c = taken @ cw_channel c'" "cw_received c' = cw_received c @ xs"
      "list_all2 (handed_for provider) xs (take (length taken) (drop (length (cw_received c)) sent))"
    and frames: "frames_ok c'"
  shows "camera_inv provider n promise sent c'"
proof -
  have len: "length sent = length (cw_received c) + length (cw_channel c)" using inv by (simp add: camera_inv_def)
  with moved have xs: "length xs = length taken" by (auto dest!: list_all2_lengthD)
  have "list_all2 (handed_for provider) (cw_received c') (take (length (cw_received c')) sent)"
    using inv moved xs by (auto simp: camera_inv_def take_add intro: list_all2_appendI)
  moreover have "map (message_in (cw_pool c')) (cw_channel c') = map frame_of (drop (length (cw_received c')) sent)"
  proof -
    have "map (message_in (cw_pool c')) (cw_channel c') = map (message_in (cw_pool c)) (cw_channel c')"
      using keeps_messages [OF kept, of "cw_channel c'"] by auto
    also have "\<dots> = drop (length taken) (map (message_in (cw_pool c)) (cw_channel c))" by (simp add: moved(1))
    also have "\<dots> = map frame_of (drop (length (cw_received c')) sent)"
      using inv moved(2) xs by (simp add: camera_inv_def drop_map add.commute)
    finally show ?thesis .
  qed
  moreover have "worker_ok promise sent c'"
  proof (cases "cw_worker c")
    case (Copying req planes b)
    then have "data_in (camera_world sent c') b = data_in (camera_world sent c) b"
      using kept by (simp add: same(1) keeps_writers_def)
    then show ?thesis using inv by (simp add: camera_inv_def worker_ok_def same(1,2) Copying)
  qed (use inv same in \<open>auto simp: camera_inv_def worker_ok_def\<close>)
  ultimately show ?thesis
    using inv step same frames len moved(1,2) xs by (auto simp: camera_inv_def intro: rtranclp_trans)
qed

lemma hands_inv:
  assumes inv: "camera_inv provider n promise sent c"
    and c: "cw_provider c = ProviderReceives" "cw_channel c = m # ms"
      "next_payload provider (Some m) (cw_pool c) = Some (Inr (DecodedFrame f), st)" "df_data f = Pooled r"
  shows "camera_inv provider n promise sent (c\<lparr> cw_pool := st, cw_channel := ms,
    cw_received := cw_received c @ [Handed f], cw_frames := (length (cw_received c), r) # cw_frames c \<rparr>)"
proof -
  let ?c = "c\<lparr> cw_pool := st, cw_channel := ms,
    cw_received := cw_received c @ [Handed f], cw_frames := (length (cw_received c), r) # cw_frames c \<rparr>"
  have f: "freeze (fm_data m) (cw_pool c) = Some (r, st)" "df_timestamp f = Some (fm_timestamp m)"
    "df_pixel_format f = nv_pixel_format provider" "df_width f = nv_width provider" "df_height f = nv_height provider"
    using c(3,4) by (auto simp: next_payload_def)
  note m = message_sent [OF inv c(2)]
  have d: "data_in (camera_world sent c) (fm_data m) = snd (frame_of (sent ! length (cw_received c)))"
    "fm_timestamp m = fst (frame_of (sent ! length (cw_received c)))"
    by (simp_all add: m(3) [symmetric] message_in_def)
  have "writers (camera_world sent c) = (held_buffers (cw_worker c) @ rev (map fm_data ms)) @ fm_data m # []"
    by (simp add: c(2))
  from freeze_step [OF camera_inv_pool [OF inv] this, of r st] f(1)
  have s: "pool_step (camera_world sent c) (camera_world sent ?c)"
    "keeps_writers (camera_world sent c) (writers (camera_world sent ?c)) (camera_world sent ?c)"
    using d(1) by (simp_all add: Let_def camera_world_def)
  have "handed_for provider (Handed f) (sent ! length (cw_received c))"
    using f d(2) by (simp add: handed_for_def)
  then show ?thesis
    using inv s c(1,2,4) m(2) by (intro others_inv [OF inv, of _ "[m]" "[Handed f]"])
      (auto simp: camera_inv_def frames_ok_def nth_append)
qed

lemma cancels_inv:
  assumes inv: "camera_inv provider n promise sent c"
    and c: "cw_provider c = ProviderReceives" "cw_channel c = m # ms" "drop_media_buffer (fm_data m) (cw_pool c) = Some st"
  shows "camera_inv provider n promise sent (c\<lparr> cw_pool := st, cw_channel := ms,
    cw_received := cw_received c @ [Abandoned] \<rparr>)"
proof -
  let ?c = "c\<lparr> cw_pool := st, cw_channel := ms, cw_received := cw_received c @ [Abandoned] \<rparr>"
  have "writers (camera_world sent c) = (held_buffers (cw_worker c) @ rev (map fm_data ms)) @ fm_data m # []"
    by (simp add: c(2))
  from drop_step [OF camera_inv_pool [OF inv] this] c(3)
  have s: "pool_step (camera_world sent c) (camera_world sent ?c)"
    "keeps_writers (camera_world sent c) (writers (camera_world sent ?c)) (camera_world sent ?c)"
    by (simp_all add: Let_def camera_world_def)
  then show ?thesis
    using inv c(1,2) message_sent(2) [OF inv c(2)]
    by (intro others_inv [OF inv, of _ "[m]" "[Abandoned]"])
      (auto simp: camera_inv_def frames_ok_def handed_for_def nth_append)
qed

lemma clones_inv:
  assumes inv: "camera_inv provider n promise sent c"
    and c: "(i, r) \<in> set (cw_frames c)" "length (cw_frames c) < 2 ^ 64 - 1" "clone_pooled r (cw_pool c) = Some (r', st)"
  shows "camera_inv provider n promise sent (c\<lparr> cw_pool := st, cw_frames := (i, r') # cw_frames c \<rparr>)"
proof -
  let ?c = "c\<lparr> cw_pool := st, cw_frames := (i, r') # cw_frames c \<rparr>"
  have r: "r' = r" using c(3) by (cases r) (auto simp: clone_pooled_def Let_def split: if_splits)
  have "pool_step (camera_world sent c) ((camera_world sent c)\<lparr> w_store := st,
      readers := (r', snd (frame_of (sent ! i))) # readers (camera_world sent c) \<rparr>)"
    by (rule pool_step.Clone [of r]) (use c in \<open>auto intro!: image_eqI [where x = "(i, r)"]\<close>)
  then have "pool_step (camera_world sent c) (camera_world sent ?c)" by (simp add: camera_world_def)
  moreover have "keeps_writers (camera_world sent c) (writers (camera_world sent ?c)) (camera_world sent ?c)"
    using clone_heap [OF c(3)] by (simp add: keeps_writers_def)
  ultimately show ?thesis
    using inv c(1) r by (intro others_inv [OF inv, of _ "[]" "[]"]) (auto simp: camera_inv_def frames_ok_def)
qed

lemma drops_inv:
  assumes inv: "camera_inv provider n promise sent c"
    and c: "cw_frames c = fs @ (i, r) # fs'" "drop_pooled r (cw_pool c) = Some st"
  shows "camera_inv provider n promise sent (c\<lparr> cw_pool := st, cw_frames := fs @ fs' \<rparr>)"
proof -
  let ?c = "c\<lparr> cw_pool := st, cw_frames := fs @ fs' \<rparr>"
  have "pool_step (camera_world sent c) ((camera_world sent c)\<lparr> w_store := st,
      readers := map (\<lambda>(i, r). (r, snd (frame_of (sent ! i)))) fs @ map (\<lambda>(i, r). (r, snd (frame_of (sent ! i)))) fs' \<rparr>)"
    by (rule pool_step.DropReader [of _ _ r "snd (frame_of (sent ! i))"]) (use c in simp_all)
  then have "pool_step (camera_world sent c) (camera_world sent ?c)" by (simp add: camera_world_def)
  moreover have "keeps_writers (camera_world sent c) (writers (camera_world sent ?c)) (camera_world sent ?c)"
    using drop_pooled_heap [OF c(2)] by (simp add: keeps_writers_def)
  ultimately show ?thesis
    using inv c(1) by (intro others_inv [OF inv, of _ "[]" "[]"]) (auto simp: camera_inv_def frames_ok_def)
qed

lemma drop_messages_steps:
  assumes "pool_inv w" "writers w = rev (map fm_data ms)" "drop_messages ms (w_store w) = Some st"
  shows "pool_step\<^sup>*\<^sup>* w (w\<lparr> w_store := st, writers := [] \<rparr>)"
  using assms
proof (induction ms arbitrary: w)
  case Nil
  then have "w\<lparr> w_store := st, writers := [] \<rparr> = w" by (cases w) simp
  then show ?case by simp
next
  case (Cons m ms)
  from Cons.prems(3) obtain st1 where d: "drop_media_buffer (fm_data m) (w_store w) = Some st1" "drop_messages ms st1 = Some st"
    by (auto split: bind_splits)
  define w1 where "w1 = w\<lparr> w_store := st1, writers := rev (map fm_data ms) @ [] \<rparr>"
  have s: "pool_step w w1" using pool_step.DropWriter [of w _ "fm_data m" "[]", OF _ d(1)] Cons.prems(2) by (simp add: w1_def)
  have "pool_step\<^sup>*\<^sup>* w1 (w1\<lparr> w_store := st, writers := [] \<rparr>)"
    by (rule Cons.IH) (use s d(2) Cons.prems(1) pool_step_inv in \<open>auto simp: w1_def\<close>)
  with s show ?case by (simp add: w1_def converse_rtranclp_into_rtranclp)
qed

lemma joins_inv:
  assumes inv: "camera_inv provider n promise sent c"
    and c: "cw_provider c = ProviderJoins" "cw_worker c = WorkerEnded e" "drop_messages (cw_channel c) (cw_pool c) = Some st"
  shows "camera_inv provider n promise sent (c\<lparr> cw_pool := st, cw_provider := ProviderGone, cw_channel := [],
    cw_received := cw_received c @ replicate (length (cw_channel c)) Abandoned \<rparr>)"
proof -
  let ?c = "c\<lparr> cw_pool := st, cw_provider := ProviderGone, cw_channel := [],
    cw_received := cw_received c @ replicate (length (cw_channel c)) Abandoned \<rparr>"
  have "pool_step\<^sup>*\<^sup>* (camera_world sent c) ((camera_world sent c)\<lparr> w_store := st, writers := [] \<rparr>)"
    by (rule drop_messages_steps [OF camera_inv_pool [OF inv]]) (use c in simp_all)
  moreover have "(camera_world sent c)\<lparr> w_store := st, writers := [] \<rparr> = camera_world sent ?c"
    by (simp add: camera_world_def c(2))
  moreover have "length (drop (length (cw_received c)) sent) = length (cw_channel c)" using inv by (simp add: camera_inv_def)
  ultimately show ?thesis
    using inv c(1,2)
    by (intro others_inv [OF inv, of _ "cw_channel c" "replicate (length (cw_channel c)) Abandoned"])
      (auto simp: camera_inv_def frames_ok_def keeps_writers_def handed_for_def list_all2_conv_all_nth nth_append)
qed

lemma camera_step_inv:
  assumes "camera_step provider c c'" "camera_inv provider n promise sent c"
  shows "\<exists>sent'. camera_inv provider n promise sent' c'"
  using assms(1)
proof cases
  case Works
  then show ?thesis using loop_inv [OF assms(2)] by simp
next
  case (Hands m ms f st r)
  with hands_inv [OF assms(2)] show ?thesis by blast
next
  case (Cancels m ms st)
  with cancels_inv [OF assms(2)] show ?thesis by blast
next
  case (Clones i r r' st)
  with clones_inv [OF assms(2)] show ?thesis by blast
next
  case (Drops fs i r fs' st)
  with drops_inv [OF assms(2)] show ?thesis by blast
next
  case Leaves
  have w: "camera_world sent c' = camera_world sent c" by (simp add: Leaves camera_world_def)
  have "camera_inv provider n promise sent c'"
    by (rule others_inv [OF assms(2), of _ "[]" "[]"], unfold w)
      (use assms(2) Leaves in \<open>auto simp: camera_inv_def frames_ok_def keeps_writers_def\<close>)
  then show ?thesis by blast
next
  case (Joins e st)
  with joins_inv [OF assms(2)] show ?thesis by blast
qed

lemma camera_initial_inv:
  assumes "nv_pool provider = pool_new n"
  shows "camera_inv provider n (camera_promise lc provider answers) [] (camera_initial lc provider answers)"
proof -
  let ?c = "camera_initial lc provider answers"
  have "camera_world [] ?c = initial_world n"
    by (simp add: camera_world_def camera_initial_def initial_world_def run_camera_worker_def assms
        split: option.split sum.split)
  then show ?thesis
    by (simp add: camera_inv_def worker_ok_def frames_ok_def keeps_promise_def camera_initial_def
        run_camera_worker_def camera_promise_def split: option.split sum.split)
qed

lemma camera_reachable_inv:
  assumes "(camera_step provider)\<^sup>*\<^sup>* (camera_initial lc provider answers) c" "nv_pool provider = pool_new n"
  shows "\<exists>sent. camera_inv provider n (camera_promise lc provider answers) sent c"
  using assms(1) by (induction rule: rtranclp_induct) (use camera_initial_inv [OF assms(2)] camera_step_inv in blast)+

section \<open>What the worker reaches alone\<close>

definition worker_done :: "camera_state \<Rightarrow> bool" where
  "worker_done c \<longleftrightarrow> (case cw_worker c of
     Polling \<Rightarrow> cw_completed c = [] | Copying req planes b \<Rightarrow> False | WorkerEnded e \<Rightarrow> True)"

definition turns_left :: "camera_state \<Rightarrow> nat" where
  "turns_left c =
     (let answers = (\<Sum>a\<leftarrow>cw_completed c. case a of
          Completed req \<Rightarrow> (case cr_planes req of None \<Rightarrow> 1 | Some planes \<Rightarrow> length planes + 2) | _ \<Rightarrow> 1)
      in case cw_worker c of
           Polling \<Rightarrow> answers | Copying req planes b \<Rightarrow> length planes + 1 + answers | WorkerEnded e \<Rightarrow> 0)"

lemma turns_go_down: "\<not> worker_done c \<Longrightarrow> turns_left (camera_loop c) < turns_left c"
proof (cases "cw_worker c")
  case (Copying req planes b)
  then show ?thesis
    by (cases planes) (auto simp: camera_loop_def camera_send_def ends_dropping_def turns_left_def Let_def
      split: sum.split prod.split option.split)
next
  case Polling
  moreover assume "\<not> worker_done c"
  ultimately obtain a rest where "cw_completed c = a # rest" by (cases "cw_completed c") (auto simp: worker_done_def)
  with Polling show ?thesis
    by (cases a) (auto simp: camera_loop_def camera_poll_def ends_dropping_def turns_left_def Let_def split: option.split)
qed (simp add: worker_done_def)

lemma worker_gets_done: "\<exists>k. worker_done ((camera_loop ^^ k) c)"
proof (induction "turns_left c" arbitrary: c rule: less_induct)
  case less
  show ?case
  proof (cases "worker_done c")
    case True
    then show ?thesis by (intro exI [of _ 0]) simp
  next
    case False
    from less [OF turns_go_down [OF this]] obtain k where "worker_done ((camera_loop ^^ k) (camera_loop c))" by blast
    then show ?thesis by (intro exI [of _ "Suc k"]) (simp add: funpow_swap1)
  qed
qed

lemma loop_keeps:
  "cw_received (camera_loop c) = cw_received c" "cw_shutdown (camera_loop c) = cw_shutdown c"
  by (auto simp: camera_loop_def camera_poll_def camera_send_def ends_dropping_def Let_def
      split: worker_at.split list.split completed.split option.split sum.split prod.split)

lemma loops_keep:
  "cw_received ((camera_loop ^^ k) c) = cw_received c \<and> cw_shutdown ((camera_loop ^^ k) c) = cw_shutdown c"
  by (induction k) (simp_all add: loop_keeps)

lemma loops_reach: "(camera_step provider)\<^sup>*\<^sup>* c ((camera_loop ^^ k) c)"
  by (induction k) (auto intro: rtranclp.rtrancl_into_rtrancl Works)

lemma worker_keeps_promise:
  assumes "(camera_step provider)\<^sup>*\<^sup>* (camera_initial lc provider answers) c" "nv_pool provider = pool_new n"
    and "cw_provider c = ProviderReceives"
  shows "\<exists>k. let c' = (camera_loop ^^ k) c; promise = camera_promise lc provider answers in
    cw_received c' = cw_received c \<and>
    map (message_in (cw_pool c')) (cw_channel c') = map frame_of (drop (length (cw_received c)) (fst promise)) \<and>
    cw_worker c' = (case snd promise of None \<Rightarrow> Polling | Some e \<Rightarrow> WorkerEnded e)"
proof -
  let ?promise = "camera_promise lc provider answers"
  obtain k where k: "worker_done ((camera_loop ^^ k) c)" using worker_gets_done by blast
  define c' where "c' = (camera_loop ^^ k) c"
  have "(camera_step provider)\<^sup>*\<^sup>* (camera_initial lc provider answers) c'"
    using assms(1) loops_reach unfolding c'_def by (rule rtranclp_trans)
  from camera_reachable_inv [OF this assms(2)] obtain sent where inv: "camera_inv provider n ?promise sent c'" by blast
  from camera_reachable_inv [OF assms(1,2)] assms(3) have "\<not> cw_shutdown c" by (auto simp: camera_inv_def)
  then have c': "cw_received c' = cw_received c" "\<not> cw_shutdown c'" using loops_keep by (simp_all add: c'_def)
  have "worker_ok ?promise sent c'" "worker_done c'" using inv k by (simp_all add: camera_inv_def c'_def)
  with c'(2) have "fst ?promise = sent" "cw_worker c' = (case snd ?promise of None \<Rightarrow> Polling | Some e \<Rightarrow> WorkerEnded e)"
    by (auto simp: worker_ok_def worker_done_def keeps_promise_def split: worker_at.splits)
  with inv c' show ?thesis by (intro exI [of _ k]) (simp add: camera_inv_def Let_def flip: c'_def)
qed

text \<open>
  C40: however the worker of a camera, its provider and the holders of frames interleave on their pool, the
  frames that left the channel and the messages in it are, one after the other, the first ones of the frames
  that the answers of libcamera promise: every completed request up to the end of the loop, with its stamp and
  the concatenation of its planes. A frame that was handed on has the stamp of its request and the format of
  the provider, and whoever holds it reads exactly the bytes of that request; the pool is used only through
  its operations. A worker that has ended has sent all promised frames and ended as promised, by the
  callback gone, by a request that cannot be queued again or by a panic at a request without its buffer, or
  was stopped because its provider was dropped. And while the provider receives, finitely many
  steps of the worker alone bring all promised frames into the channel and the worker to its promised end.
\<close>

theorem camera_frames_exact:
  assumes "(camera_step (native_open p))\<^sup>*\<^sup>* (camera_initial lc (native_open p) answers) c"
  shows "\<exists>sent. let promise = camera_promise lc (native_open p) answers in
    prefix sent (fst promise) \<and>
    list_all2 (handed_for (native_open p)) (cw_received c) (take (length (cw_received c)) sent) \<and>
    map (message_in (cw_pool c)) (cw_channel c) = map frame_of (drop (length (cw_received c)) sent) \<and>
    (\<forall>(i, r) \<in> set (cw_frames c). i < length (cw_received c) \<and>
       (\<exists>f. cw_received c ! i = Handed f \<and> df_data f = Pooled r) \<and>
       as_slice r (cw_pool c) = Some (snd (frame_of (sent ! i)))) \<and>
    pool_step\<^sup>*\<^sup>* (initial_world (unat (rt_buffer_size (cpl_runtime p)))) (camera_world sent c) \<and>
    (\<forall>e. cw_worker c = WorkerEnded e \<longrightarrow>
       promise = (sent, Some e) \<or> e = CameraStopped \<and> cw_provider c \<noteq> ProviderReceives) \<and>
    (cw_provider c = ProviderReceives \<longrightarrow> (\<exists>k. let c' = (camera_loop ^^ k) c in
       cw_received c' = cw_received c \<and>
       map (message_in (cw_pool c')) (cw_channel c') = map frame_of (drop (length (cw_received c)) (fst promise)) \<and>
       cw_worker c' = (case snd promise of None \<Rightarrow> Polling | Some e \<Rightarrow> WorkerEnded e)))"
proof -
  let ?pv = "native_open p" and ?n = "unat (rt_buffer_size (cpl_runtime p))"
  let ?promise = "camera_promise lc (native_open p) answers"
  have n: "nv_pool ?pv = pool_new ?n" by (simp add: native_open_def Let_def)
  from camera_reachable_inv [OF assms n] obtain sent where inv: "camera_inv ?pv ?n ?promise sent c" by blast
  have "as_slice r (cw_pool c) = Some (snd (frame_of (sent ! i)))" if "(i, r) \<in> set (cw_frames c)" for i r
    using fp.look_law [OF camera_inv_pool [OF inv], of r "snd (frame_of (sent ! i))"] that by (force simp: image_iff)
  moreover have "prefix sent (fst ?promise)"
    using inv by (auto simp: camera_inv_def worker_ok_def keeps_promise_def split: worker_at.splits)
  moreover have "?promise = (sent, Some e) \<or> e = CameraStopped \<and> cw_provider c \<noteq> ProviderReceives"
    if "cw_worker c = WorkerEnded e" for e
    using inv that by (auto simp: camera_inv_def worker_ok_def)
  ultimately show ?thesis
    using inv worker_keeps_promise [OF assms n]
    by (intro exI [of _ sent]) (auto simp: camera_inv_def frames_ok_def Let_def)
qed

definition example_libcamera :: libcamera where
  "example_libcamera = \<lparr> lc_cameras = Inr [''cam''], lc_acquire = \<lambda>c. Inr (),
     lc_generate = \<lambda>c. Inr [\<lparr> sf_width = 640, sf_height = 480, sf_fourcc = ''NV12'' \<rparr>],
     lc_valid = \<lambda>cs. True, lc_configure = \<lambda>cs. Inr (), lc_alloc = \<lambda>cs. Inr 2, lc_maps_buffers = True,
     lc_start = Inr (), lc_queue = \<lambda>i. Inr () \<rparr>"

definition example_request :: "u64 \<Rightarrow> u8 list list option \<Rightarrow> camera_request" where
  "example_request n planes = \<lparr> cr_sequence = n, cr_planes = planes, cr_requeue = Inr () \<rparr>"

text \<open>Two frames are sent, in order; the third request has lost its buffer, so the worker panics.\<close>

theorem camera_frames_exact_witness:
  "\<exists>k. let p = sentinel\<lparr> cpl_input := (cpl_input sentinel)\<lparr> ci_source := ''camera:0'' \<rparr> \<rparr>;
       c = (camera_loop ^^ k) (camera_initial example_libcamera (native_open p)
         [Completed (example_request 7 (Some [[1, 2], [3]])), NothingCompleted,
          Completed (example_request 8 (Some [[4]])), Completed (example_request 9 None)])
     in map (message_in (cw_pool c)) (cw_channel c) = [(from_nanos 7, [1, 2, 3]), (from_nanos 8, [4])] \<and>
        cw_worker c = WorkerEnded CameraPanicked"
proof -
  let ?p = "sentinel\<lparr> cpl_input := (cpl_input sentinel)\<lparr> ci_source := ''camera:0'' \<rparr> \<rparr>"
  let ?answers = "[Completed (example_request 7 (Some [[1, 2], [3]])), NothingCompleted,
          Completed (example_request 8 (Some [[4]])), Completed (example_request 9 None)]"
  let ?c = "camera_initial example_libcamera (native_open ?p) ?answers"
  have s: "parse_selector ''camera:0'' = SelectIndex 0" by code_simp
  have sel: "select_camera [''cam''] ''camera:0'' = Inr ''cam''" by (simp add: select_camera_def s result_simps)
  obtain cfgs where conf: "configure_camera example_libcamera ''cam'' profile = Inr (cfgs profile)" for profile
    using that [of "\<lambda>p. [apply_capture_profile p \<lparr> sf_width = 640, sf_height = 480, sf_fourcc = ''NV12'' \<rparr>]"]
    by (simp add: configure_camera_def example_libcamera_def result_simps Let_def)
  have lc: "lc_cameras example_libcamera = Inr [''cam'']" "lc_alloc example_libcamera cs = Inr 2"
    "lc_maps_buffers example_libcamera" "lc_start example_libcamera = Inr ()" "lc_queue example_libcamera i = Inr ()" for cs i
    by (simp_all add: example_libcamera_def)
  have "start_camera example_libcamera ''camera:0'' profile = Some (Inr 2)" for profile
    by (simp add: start_camera_def sel conf lc upt_rec)
  then have promise: "camera_promise example_libcamera (native_open ?p) ?answers =
      ([example_request 7 (Some [[1, 2], [3]]), example_request 8 (Some [[4]])], Some CameraPanicked)"
    by (simp add: camera_promise_def native_open_def Let_def example_request_def)
  have c: "(camera_step (native_open ?p))\<^sup>*\<^sup>* ?c ?c" "cw_provider ?c = ProviderReceives" "length (cw_received ?c) = 0"
    by (simp_all add: camera_initial_def)
  from camera_frames_exact [OF c(1)] c(2) obtain k where k:
    "map (message_in (cw_pool ((camera_loop ^^ k) ?c))) (cw_channel ((camera_loop ^^ k) ?c)) =
       map frame_of (drop (length (cw_received ?c)) (fst (camera_promise example_libcamera (native_open ?p) ?answers)))"
    "cw_worker ((camera_loop ^^ k) ?c) = (case snd (camera_promise example_libcamera (native_open ?p) ?answers) of
       None \<Rightarrow> Polling | Some e \<Rightarrow> WorkerEnded e)"
    by (simp only: Let_def) blast
  have "map frame_of [example_request 7 (Some [[1, 2], [3]]), example_request 8 (Some [[4]])] =
      [(from_nanos 7, [1, 2, 3]), (from_nanos 8, [4])]"
    by (simp add: frame_of_def example_request_def)
  with k show ?thesis
    unfolding promise c(3) Let_def drop_0 fst_conv snd_conv option.case by (intro exI [of _ k] conjI) simp_all
qed

text \<open>What the provider makes of a frame that is in its channel.\<close>

lemma next_payload_reads_frame:
  assumes "pool_inv w" "writers w = bs @ fm_data m # bs'"
  shows "\<exists>r st frame. next_payload provider (Some m) (w_store w) = Some (Inr (DecodedFrame frame), st) \<and>
    df_data frame = Pooled r \<and> df_timestamp frame = Some (fm_timestamp m) \<and> as_slice r st = Some (data_in w (fm_data m))"
proof -
  obtain own where st: "store_ok (w_store w)"
    and inv: "\<forall>i. slot_ok_in own (w_store w) (bs @ fm_data m # bs') (readers w) i"
    using assms(1) unfolding assms(2) [symmetric] by (rule pool_inv_cases)
  from freeze_ok [OF st inv] obtain r st' where f: "freeze (fm_data m) (w_store w) = Some (r, st')" by blast
  define w' where "w' = w\<lparr> w_store := st', writers := bs @ bs', readers := (r, data_in w (fm_data m)) # readers w \<rparr>"
  have "pool_inv w'"
    using pool_step_inv [OF pool_step.Freeze [OF assms(2) f] assms(1)] by (simp add: w'_def)
  then have "as_slice r (w_store w') = Some (data_in w (fm_data m))"
    by (rule fp.look_law) (simp add: w'_def)
  with f show ?thesis by (auto simp: next_payload_def w'_def)
qed

section \<open>Naming a camera\<close>

lemma parse_selector_dev:
  assumes "list_all is_ascii_digit s"
  shows "parse_selector (''/dev/video'' @ s) = (case parse_unsigned s of Some idx \<Rightarrow> SelectIndex idx | None \<Rightarrow> SelectIndex 0)"
proof -
  have f: "filter is_ascii_digit (''/dev/video'' @ s) = s"
    using assms by (simp add: is_ascii_digit_def list_all_iff)
  have p: "strip_prefix ''camera:'' (''/dev/video'' @ s) = None"
    "strip_prefix ''libcamera:id:'' (''/dev/video'' @ s) = None"
    "strip_prefix ''libcamera:model:'' (''/dev/video'' @ s) = None"
    by (simp_all add: strip_prefix_def starts_with_def)
  show ?thesis unfolding parse_selector_def p option.case index_of_digits_def f ..
qed

text \<open>
  A source names a camera by its number, as \<open>camera:\<close> or as a video device, by its id or by a part
  of its id, and each of these spellings is read back as it was meant, for every number an index can
  hold and every id.
\<close>

theorem camera_selector_roundtrip:
  "parse_selector (''camera:'' @ show_unsigned i) = SelectIndex i \<and>
   parse_selector (''/dev/video'' @ show_unsigned i) = SelectIndex i \<and>
   parse_selector (''libcamera:id:'' @ s) = SelectId s \<and>
   parse_selector (''libcamera:model:'' @ s) = SelectModel s"
proof (intro conjI)
  show "parse_selector (''camera:'' @ show_unsigned i) = SelectIndex i"
    by (simp add: parse_selector_def strip_prefix_def starts_with_def)
  show "parse_selector (''/dev/video'' @ show_unsigned i) = SelectIndex i"
  proof -
    have "list_all is_ascii_digit (show_unsigned i)" unfolding show_unsigned_def by (rule show_nat_digits)
    from parse_selector_dev [OF this] show ?thesis by simp
  qed
qed (simp_all add: parse_selector_def strip_prefix_def starts_with_def)

end
