(* ===== verification/Caml_Host_Correct.thy ===== *)
theory Caml_Host_Correct
  imports Caml_Camera_Correct Caml_Builder Caml_Ffmpeg Caml_Webrtc_Correct
begin

text \<open>
  What spans the host crates and the rest: what the probe of the builder reports, and what becomes of
  the frames of the native camera at a WebRTC output.
\<close>

section \<open>The probe of the features\<close>

definition offered :: "features \<Rightarrow> ffmpeg_build option \<Rightarrow> (ffmpeg_build \<Rightarrow> bool) \<Rightarrow> bool" where
  "offered fs build P \<longleftrightarrow> feat_ffmpeg fs \<and> is_some_and P build"

text \<open>
  What the builder's probe reports to the compiler, for every choice of features, every FFmpeg
  build and every file tree. The FFmpeg filters come from the build alone and the libcamera and the
  model from the file tree alone; V4L2 and the two hardware codecs are reported as soon as either of
  the two reports them. The probes never disagree, so the probe itself never fails.
\<close>

theorem feature_probe_exact:
  "composite_probe (feature_probes fs (ffmpeg_capabilities build) (linux_capability_probe files)) target = Inr
     \<lparr> ffmpeg_available = offered fs build (\<lambda>b. True),
       v4l2_available = (offered fs build (\<lambda>b. has_input_format b ''video4linux2'') \<or> feat_pi fs \<and> has_v4l2 files ''/''),
       libcamera_available = (feat_pi fs \<and> has_libcamera files ''/''),
       rtp_packetization_available = feat_webrtc fs,
       host_pi_model = (if feat_pi fs then detect_pi_model files ''/'' else None),
       has_pi4_h264_encoder = (offered fs build (\<lambda>b. has_encoder b ''h264_v4l2m2m'') \<or>
         feat_pi fs \<and> detect_pi4_h264_encoder (detect_pi_model files ''/'')
           (video4linux_names files ''/'') (media_models files ''/'')),
       has_pi5_stateless_decoder =
         (offered fs build (\<lambda>b. has_decoder b ''h264_v4l2request'' \<or> has_decoder b ''hevc_v4l2request'') \<or>
         feat_pi fs \<and> detect_pi5_stateless_decoder target (detect_pi_model files ''/'')
           (video4linux_names files ''/'') (media_models files ''/'') (has_media_nodes files ''/'')),
       has_drawtext_filter = offered fs build (\<lambda>b. has_filter b ''drawtext''),
       has_overlay_filter = offered fs build (\<lambda>b. has_filter b ''overlay''),
       has_scale_filter = offered fs build (\<lambda>b. has_filter b ''scale''),
       has_color_channel_mixer_filter = offered fs build (\<lambda>b. has_filter b ''colorchannelmixer'') \<rparr>"
  by (cases build; cases "detect_pi_model files ''/''")
    (simp_all add: composite_probe_def feature_probes_def ffmpeg_capabilities_def static_probe_def
      webrtc_capabilities_def linux_capability_probe_def linux_capabilities_def linux_probe_new_def
      merge_capabilities_def default_capabilities_def offered_def Let_def)

section \<open>Camera frames at a WebRTC output\<close>

text \<open>What \<open>consume\<close> of a WebRTC sink answers if it does not have to wait: the result it appends.\<close>

definition sink_answer :: "webrtc_sink \<Rightarrow> bool \<Rightarrow> webrtc_world \<Rightarrow> media_payload \<Rightarrow> runtime_error + unit" where
  "sink_answer sink metrics w payload = last (results (consume_step sink metrics payload w))"

lemma camera_payload_decoded:
  "next_payload provider (Some m) st = Some (Inr payload, st') \<Longrightarrow> \<exists>frame. payload = DecodedFrame frame"
  by (auto simp: next_payload_def)

text \<open>
  C39: a pipeline of the native camera whose only output is WebRTC fails for good with its first
  frame: the adapters insert no transform, the camera gives decoded frames, and the sink refuses
  these with an error that is not recoverable.
\<close>

theorem camera_webrtc_fails:
  assumes "builtin_build_pipeline fs hash sb a p = Some (Inr stages)"
    and "ps_sink stages = SingleSink (WebrtcTo track sink config)"
    and "next_payload provider (Some m) st = Some (Inr payload, st')"
    and "w_error (shared w) = None"
    and "tk_select t = SourceNext (Inr payload)" "tk_transforms t = map tr (ps_transforms stages)"
    and "tk_sink t = sink_answer sink metrics w"
  shows "fst (run_pipeline_loop p metrics (t # ts)) = Some (ExitFatal (runtime_error_display (decoded_frame_error sink)))"
proof -
  obtain frame where f: "payload = DecodedFrame frame" using camera_payload_decoded [OF assms(3)] by blast
  have "ps_transforms stages = []"
    using assms(1) by (auto simp: builtin_build_pipeline_def split: sum.splits)
  moreover have "sink_answer sink metrics w (DecodedFrame frame) = Inl (decoded_frame_error sink)"
    using assms(4) by (simp add: sink_answer_def consume_step_def shared_error_def install_metrics_def reply_def Let_def)
  moreover have "pipeline_exit_from_error (decoded_frame_error sink) =
      ExitFatal (runtime_error_display (decoded_frame_error sink))"
    by (simp add: pipeline_exit_from_error_def decoded_frame_error_def is_recoverable_iff)
  ultimately show ?thesis
    using assms(5-7) f by (simp add: loop_turn_def)
qed

definition example_camera :: compiled_pipeline where
  "example_camera = sentinel\<lparr> cpl_id := ''cam'', cpl_resolved_backend := LibcameraDevice,
     cpl_outputs := [WebrtcRtp None None None None None None Block] \<rparr>"

lemma example_camera_built:
  fixes fs :: features
  assumes "feat_pi fs" "feat_webrtc fs"
  shows "\<exists>stages track sink config. builtin_build_pipeline fs (\<lambda>s. 0)
      \<lparr> sb_ffmpeg = \<lambda>p. Inr (), sb_libcamera = \<lambda>u p. Inr () \<rparr>
      (\<lparr> ba_ffmpeg_source = True, ba_libcamera_source = Some (), ba_webrtc_sinks = [''cam'' \<mapsto> ()],
        ba_recording_packets = None :: unit option \<rparr>) example_camera = Some (Inr stages) \<and>
    ps_sink stages = SingleSink (WebrtcTo track sink config) \<and> ws_pipeline_id sink = ''cam''"
  using assms
  by (simp add: builtin_build_pipeline_def builtin_source_def example_camera_def sentinel_def select_sink_def
      build_sink_def new_configured_def is_webrtc_output_def result_simps)

theorem camera_webrtc_fails_witness:
  "\<exists>payload sink st. ws_pipeline_id sink = ''cam'' \<and>
     next_payload (native_open example_camera) (Some \<lparr> fm_timestamp = 1, fm_data = fst (the (acquire (pool_new 4))) \<rparr>)
       (snd (the (acquire (pool_new 4)))) = Some (Inr payload, st) \<and>
     fst (run_pipeline_loop example_camera False [\<lparr> tk_select = SourceNext (Inr payload), tk_data_len = None,
       tk_transforms = [], tk_sink = sink_answer sink False webrtc_initial \<rparr>]) =
     Some (ExitFatal (runtime_error_display (decoded_frame_error sink)))"
proof -
  have inv: "pool_inv (initial_world 4)" by (rule initial_world_inv)
  obtain b st where a: "acquire (pool_new 4) = Some (b, st)"
    and w: "pool_step (initial_world 4) (initial_world 4\<lparr> w_store := st, writers := [b] \<rparr>)"
    using acquire_step [OF inv] by (auto simp: initial_world_def Let_def)
  let ?m = "\<lparr> fm_timestamp = 1, fm_data = b \<rparr>"
  from next_payload_reads_frame [OF pool_step_inv [OF w inv], of "[]" ?m "[]" "native_open example_camera"]
  obtain frame st' where n: "next_payload (native_open example_camera) (Some ?m) st = Some (Inr (DecodedFrame frame), st')"
    by auto
  obtain stages track sink config where s: "builtin_build_pipeline
      \<lparr> feat_ffmpeg = True, feat_webrtc = True, feat_pi = True \<rparr> (\<lambda>s. 0)
      \<lparr> sb_ffmpeg = \<lambda>p. Inr (), sb_libcamera = \<lambda>u p. Inr () \<rparr>
      (\<lparr> ba_ffmpeg_source = True, ba_libcamera_source = Some (), ba_webrtc_sinks = [''cam'' \<mapsto> ()],
        ba_recording_packets = None :: unit option \<rparr>) example_camera = Some (Inr stages)"
    "ps_sink stages = SingleSink (WebrtcTo track sink config)" "ws_pipeline_id sink = ''cam''"
    using example_camera_built [of "\<lparr> feat_ffmpeg = True, feat_webrtc = True, feat_pi = True \<rparr>"] by auto
  have "ps_transforms stages = []"
    using s(1) by (auto simp: builtin_build_pipeline_def split: sum.splits)
  then have "fst (run_pipeline_loop example_camera False [\<lparr> tk_select = SourceNext (Inr (DecodedFrame frame)),
      tk_data_len = None, tk_transforms = [], tk_sink = sink_answer sink False webrtc_initial \<rparr>]) =
      Some (ExitFatal (runtime_error_display (decoded_frame_error sink)))"
    by (intro camera_webrtc_fails [OF s(1,2) n, of webrtc_initial]) (simp_all add: webrtc_initial_def)
  with s(3) n a show ?thesis by (intro exI [of _ "DecodedFrame frame"] exI [of _ sink] exI [of _ st']) simp
qed

end
