(* ===== verification/Caml_Notify.thy ===== *)
theory Caml_Notify
  imports Caml_Webrtc
begin

text \<open>
  The two tasks of the WebRTC sink (\<^verbatim>\<open>crates/caml-webrtc/src/lib.rs\<close>) with the waiting they really
  do: both wait on one \<open>Notify\<close> of tokio. \<open>Caml_Webrtc\<close> lets a waiting task look again at any time;
  here it looks again when its \<open>notified()\<close> future is ready, so that a lost wake-up shows.

  \<open>Notify\<close> is not part of the repository, so its operations are the parameter \<open>notify_ops\<close> of the
  steps. What tokio documents about them is \<open>documented\<close>: \<open>notify_one\<close> wakes the task that waits
  longest, or stores one permit if none waits; the first poll of a future takes a stored permit,
  otherwise the task waits; \<open>notify_waiters\<close> wakes the waiting tasks and completes the futures that
  were created but not polled yet, and stores nothing. Whether such a completed future also takes a
  stored permit is not documented; either is allowed.
\<close>

section \<open>What is documented of Notify\<close>

text \<open>Both tasks have at most one \<open>notified()\<close> future at a time, so a task names its future.\<close>

datatype task = ProducerTask | SenderTask

datatype future = Created | Completed | Queued | Woken

record notify_view =
  permit :: bool
  futures :: "task \<rightharpoonup> future"
  waiters :: "task list"

definition view_new :: notify_view where
  "view_new = \<lparr> permit = False, futures = Map.empty, waiters = [] \<rparr>"

definition view_notified :: "task \<Rightarrow> notify_view \<Rightarrow> notify_view" where
  "view_notified t n = n\<lparr> futures := (futures n)(t \<mapsto> Created) \<rparr>"

definition view_notify_one :: "notify_view \<Rightarrow> notify_view" where
  "view_notify_one n =
     (case waiters n of
        [] \<Rightarrow> n\<lparr> permit := True \<rparr>
      | t # ts \<Rightarrow> n\<lparr> futures := (futures n)(t \<mapsto> Woken), waiters := ts \<rparr>)"

fun wake :: "future \<Rightarrow> future" where
  "wake Created = Completed"
| "wake Completed = Completed"
| "wake Queued = Woken"
| "wake Woken = Woken"

definition view_notify_waiters :: "notify_view \<Rightarrow> notify_view" where
  "view_notify_waiters n = n\<lparr> futures := map_option wake \<circ> futures n, waiters := [] \<rparr>"

text \<open>A poll of the future of a task: whether it is ready. A ready future is gone.\<close>

definition view_poll :: "bool \<Rightarrow> task \<Rightarrow> notify_view \<Rightarrow> bool \<times> notify_view" where
  "view_poll takes t n =
     (let gone = n\<lparr> futures := (futures n)(t := None) \<rparr> in
      case futures n t of
        Some Created \<Rightarrow>
          if permit n then (True, gone\<lparr> permit := False \<rparr>)
          else (False, n\<lparr> futures := (futures n)(t \<mapsto> Queued), waiters := waiters n @ [t] \<rparr>)
      | Some Completed \<Rightarrow> (True, if takes then gone\<lparr> permit := False \<rparr> else gone)
      | Some Woken \<Rightarrow> (True, gone)
      | _ \<Rightarrow> (False, n))"

text \<open>The operations of \<open>Notify\<close> on a state of any type, and what of that state is documented.\<close>

record 'n notify_ops =
  nt_new :: 'n
  nt_notified :: "task \<Rightarrow> 'n \<Rightarrow> 'n"
  nt_notify_one :: "'n \<Rightarrow> 'n"
  nt_notify_waiters :: "'n \<Rightarrow> 'n"
  nt_poll :: "task \<Rightarrow> 'n \<Rightarrow> bool \<times> 'n"
  nt_view :: "'n \<Rightarrow> notify_view"

definition documented :: "'n notify_ops \<Rightarrow> bool" where
  "documented nt \<longleftrightarrow>
     nt_view nt (nt_new nt) = view_new \<and>
     (\<forall>t n. nt_view nt (nt_notified nt t n) = view_notified t (nt_view nt n)) \<and>
     (\<forall>n. nt_view nt (nt_notify_one nt n) = view_notify_one (nt_view nt n)) \<and>
     (\<forall>n. nt_view nt (nt_notify_waiters nt n) = view_notify_waiters (nt_view nt n)) \<and>
     (\<forall>t n. \<exists>takes. map_prod id (nt_view nt) (nt_poll nt t n) = view_poll takes t (nt_view nt n))"

section \<open>The sink with its notifications\<close>

text \<open>
  \<open>close_pending\<close> and \<open>error_pending\<close>: a task has left its locked section, but has not called
  \<open>notify_waiters\<close> yet. All other notifications are sent under the lock.
\<close>

record 'n notify_world =
  core :: webrtc_world
  notify :: 'n
  close_pending :: bool
  error_pending :: bool

definition enqueue_notify :: "'n notify_ops \<Rightarrow> enqueue_outcome \<Rightarrow> 'n \<Rightarrow> 'n" where
  "enqueue_notify nt outcome n =
     (case outcome of
        Enqueued \<Rightarrow> nt_notify_one nt n
      | Evicted _ \<Rightarrow> nt_notify_one nt n
      | WaitForCapacity \<Rightarrow> nt_notified nt ProducerTask n
      | Refused \<Rightarrow> n
      | EnqueueClosed _ \<Rightarrow> n)"

text \<open>The sender that stops because of an error notifies nobody in \<open>dequeue_packet\<close>.\<close>

definition dequeue_notify :: "'n notify_ops \<Rightarrow> webrtc_shared \<Rightarrow> 'n \<Rightarrow> 'n" where
  "dequeue_notify nt s n =
     (if w_error s \<noteq> None then n
      else (case fst (dequeue_section s) of
          WaitForPacket \<Rightarrow> nt_notified nt SenderTask n
        | _ \<Rightarrow> nt_notify_waiters nt n))"

definition set_producer :: "producer \<Rightarrow> webrtc_world \<Rightarrow> webrtc_world" where
  "set_producer p w = w\<lparr> producer := p \<rparr>"

definition set_sender :: "sender \<Rightarrow> webrtc_world \<Rightarrow> webrtc_world" where
  "set_sender s w = w\<lparr> sender := s \<rparr>"

text \<open>A waiting task is polled unless it is queued; a future that is not ready keeps it waiting.\<close>

definition poll_producer :: "'n notify_ops \<Rightarrow> encoded_packet \<Rightarrow> 'n notify_world \<Rightarrow> 'n notify_world" where
  "poll_producer nt packet w =
     (let (ready, n) = nt_poll nt ProducerTask (notify w); w1 = w\<lparr> notify := n \<rparr>
      in if ready then w1\<lparr> core := set_producer (Checking packet) (core w) \<rparr> else w1)"

definition poll_sender :: "'n notify_ops \<Rightarrow> 'n notify_world \<Rightarrow> 'n notify_world" where
  "poll_sender nt w =
     (let (ready, n) = nt_poll nt SenderTask (notify w); w1 = w\<lparr> notify := n \<rparr>
      in if ready then w1\<lparr> core := set_sender Dequeuing (core w) \<rparr> else w1)"

text \<open>The steps of the sender task, in \<open>run_sender_loop\<close>.\<close>

definition queued :: "'n notify_ops \<Rightarrow> task \<Rightarrow> 'n notify_world \<Rightarrow> bool" where
  "queued nt t w \<longleftrightarrow> futures (nt_view nt (notify w)) t = Some Queued"

inductive sender_step :: "'n notify_ops \<Rightarrow> 'n notify_world \<Rightarrow> 'n notify_world \<Rightarrow> bool" for nt where
  SDequeue: "sender (core w) = Dequeuing \<Longrightarrow>
    sender_step nt w (w\<lparr> core := dequeue_step (core w), notify := dequeue_notify nt (shared (core w)) (notify w) \<rparr>)"
| SPoll: "sender (core w) = SenderWaiting \<Longrightarrow> \<not> queued nt SenderTask w \<Longrightarrow>
    sender_step nt w (poll_sender nt w)"
| SSent: "sender (core w) = Processing packet \<Longrightarrow>
    sender_step nt w (w\<lparr> core := (set_sender Dequeuing (core w))\<lparr> processed := processed (core w) @ [packet] \<rparr> \<rparr>)"
| SFails: "sender (core w) = Processing packet \<Longrightarrow>
    sender_step nt w (w\<lparr> core := set_sender (Failing packet error) (core w) \<rparr>)"
| SError: "sender (core w) = Failing packet error \<Longrightarrow>
    sender_step nt w (w\<lparr> core := (set_sender SenderDone (core w))
        \<lparr> shared := set_sender_error error (shared (core w)), failed := failed (core w) @ [packet] \<rparr>,
      error_pending := True \<rparr>)"
| SNotifyError: "error_pending w \<Longrightarrow>
    sender_step nt w (w\<lparr> notify := nt_notify_waiters nt (notify w), error_pending := False \<rparr>)"

text \<open>The steps of the pipeline loop in \<open>consume\<close>.\<close>

inductive producer_step ::
  "'n notify_ops \<Rightarrow> webrtc_sink \<Rightarrow> 'n notify_world \<Rightarrow> 'n notify_world \<Rightarrow> bool" for nt sink where
  PConsume: "producer (core w) = Idle \<Longrightarrow>
    producer_step nt sink w (w\<lparr> core := consume_step sink metrics payload (core w) \<rparr>)"
| PCheck: "producer (core w) = Checking packet \<Longrightarrow>
    producer_step nt sink w (w\<lparr> core := check_step packet (core w) \<rparr>)"
| PEnqueue: "producer (core w) = Enqueuing packet \<Longrightarrow>
    producer_step nt sink w (w\<lparr> core := enqueue_step sink packet (core w),
      notify := enqueue_notify nt (fst (enqueue_section sink packet (shared (core w)))) (notify w) \<rparr>)"
| PPoll: "producer (core w) = Waiting packet \<Longrightarrow> \<not> queued nt ProducerTask w \<Longrightarrow>
    producer_step nt sink w (poll_producer nt packet w)"
| PClose: "producer (core w) = Closing \<Longrightarrow>
    producer_step nt sink w (w\<lparr> core := close_step (core w), close_pending := True \<rparr>)"
| PNotifyClose: "close_pending w \<Longrightarrow>
    producer_step nt sink w (w\<lparr> notify := nt_notify_waiters nt (notify w), close_pending := False \<rparr>)"
| PFlush: "producer (core w) = Flushing \<Longrightarrow> \<not> close_pending w \<Longrightarrow>
    sender (core w) = SenderDone \<Longrightarrow> \<not> error_pending w \<Longrightarrow>
    producer_step nt sink w (w\<lparr> core := set_producer (FlushedWith (shared_error (shared (core w)))) (core w) \<rparr>)"

definition notify_step :: "'n notify_ops \<Rightarrow> webrtc_sink \<Rightarrow> 'n notify_world \<Rightarrow> 'n notify_world \<Rightarrow> bool" where
  "notify_step nt sink w w' \<longleftrightarrow> producer_step nt sink w w' \<or> sender_step nt w w'"

definition notify_initial :: "'n notify_ops \<Rightarrow> 'n notify_world" where
  "notify_initial nt =
     \<lparr> core = webrtc_initial, notify = nt_new nt, close_pending = False, error_pending = False \<rparr>"

definition notify_reachable :: "'n notify_ops \<Rightarrow> webrtc_sink \<Rightarrow> 'n notify_world \<Rightarrow> bool" where
  "notify_reachable nt sink w \<longleftrightarrow> (notify_step nt sink)\<^sup>*\<^sup>* (notify_initial nt) w"

end
