(* ===== verification/Caml_Notify_Correct.thy ===== *)
theory Caml_Notify_Correct
  imports Caml_Notify Caml_Webrtc_Correct
begin

text \<open>
  The sink with its notifications takes only steps of \<open>Caml_Webrtc\<close>, so what is proved there holds of
  it. With a dropping policy no wake-up is lost and the sender always drains the queue; with the
  blocking policy the two tasks can wait for each other.
\<close>

section \<open>Refinement\<close>

lemma sender_step_refines:
  "sender_step nt w w' \<Longrightarrow> webrtc_step sink (core w) (core w') \<or> core w' = core w"
proof (induction rule: sender_step.induct)
  case (SDequeue w)
  then show ?case using Dequeue [of "core w" sink] by simp
next
  case (SPoll w)
  then show ?case using WakeSender [of "core w" sink]
    by (auto simp: poll_sender_def set_sender_def Let_def split: prod.split)
next
  case (SSent w packet)
  then show ?case using Sent [of "core w" packet sink] by (simp add: set_sender_def)
next
  case (SFails w packet error)
  then show ?case using SendFails [of "core w" packet sink error] by (simp add: set_sender_def)
next
  case (SError w packet error)
  then show ?case using SetError [of "core w" packet error sink] by (simp add: set_sender_def)
qed simp

lemma producer_step_refines:
  "producer_step nt sink w w' \<Longrightarrow> webrtc_step sink (core w) (core w') \<or> core w' = core w"
proof (induction rule: producer_step.induct)
  case (PConsume w metrics payload)
  then show ?case using Consume [of "core w" sink metrics payload] by simp
next
  case (PCheck w packet)
  then show ?case using Check [of "core w" packet sink] by simp
next
  case (PEnqueue w packet)
  then show ?case using Enqueue [of "core w" packet sink] by simp
next
  case (PPoll w packet)
  then show ?case using WakeProducer [of "core w" packet sink]
    by (auto simp: poll_producer_def set_producer_def Let_def split: prod.split)
next
  case (PClose w)
  then show ?case using Close [of "core w" sink] by simp
next
  case (PFlush w)
  then show ?case using Flush [of "core w" sink] by (simp add: set_producer_def)
qed simp

lemma notify_step_refines:
  "notify_step nt sink w w' \<Longrightarrow> webrtc_step sink (core w) (core w') \<or> core w' = core w"
  unfolding notify_step_def using sender_step_refines producer_step_refines by blast

lemma notify_reachable_refines:
  assumes "notify_reachable nt sink w"
  shows "webrtc_reachable sink (core w)"
proof -
  from assms have "(notify_step nt sink)\<^sup>*\<^sup>* (notify_initial nt) w" by (simp add: notify_reachable_def)
  then show ?thesis
  proof (induction rule: rtranclp_induct)
    case base
    show ?case by (simp add: notify_initial_def webrtc_reachable_def)
  next
    case (step w w')
    then show ?case using notify_step_refines [OF step(2)]
      by (auto simp: webrtc_reachable_def intro: rtranclp.rtrancl_into_rtrancl)
  qed
qed

text \<open>
  Whatever \<open>Notify\<close> does, the two tasks of the sink reach only worlds that the abstract sink
  reaches, and every step is a step of the abstract sink or one that the abstract sink does not see.
\<close>

theorem notify_refines_webrtc:
  assumes "notify_reachable nt sink w" "notify_step nt sink w w'"
  shows "webrtc_reachable sink (core w) \<and> (webrtc_step sink)\<^sup>=\<^sup>= (core w) (core w')"
  using notify_reachable_refines [OF assms(1)] notify_step_refines [OF assms(2)] by auto

section \<open>No lost wake-up\<close>

text \<open>
  The world of a sink that never blocks. A sender that waits while there is something to do has a
  future that is ready when it is polled next.
\<close>

definition waits :: "notify_view \<Rightarrow> bool" where
  "waits v \<longleftrightarrow> futures v SenderTask \<noteq> None"

definition woken :: "notify_view \<Rightarrow> bool" where
  "woken v \<longleftrightarrow> futures v SenderTask = Some Completed \<or> futures v SenderTask = Some Woken"

definition wakes :: "notify_view \<Rightarrow> bool" where
  "wakes v \<longleftrightarrow> woken v \<or> futures v SenderTask = Some Created \<and> permit v"

definition view_inv :: "notify_view \<Rightarrow> bool" where
  "view_inv v \<longleftrightarrow> futures v ProducerTask = None \<and>
     waiters v = (if futures v SenderTask = Some Queued then [SenderTask] else [])"

definition wake_inv :: "'n notify_ops \<Rightarrow> 'n notify_world \<Rightarrow> bool" where
  "wake_inv nt w \<longleftrightarrow> (let v = nt_view nt (notify w) in
     view_inv v \<and>
     (\<forall>packet. producer (core w) \<noteq> Waiting packet) \<and>
     (waits v \<longleftrightarrow> sender (core w) = SenderWaiting) \<and>
     (sender (core w) = SenderWaiting \<and> w_queue (shared (core w)) \<noteq> [] \<longrightarrow> wakes v) \<and>
     (sender (core w) = SenderWaiting \<and> w_closed (shared (core w)) \<and> \<not> close_pending w \<longrightarrow> woken v) \<and>
     (error_pending w \<longrightarrow> sender (core w) = SenderDone))"

lemmas view_defs = view_inv_def waits_def woken_def wakes_def

lemma view_inv_new: "view_inv view_new" "\<not> waits view_new"
  by (simp_all add: view_defs view_new_def)

lemma view_inv_notify_one:
  assumes "view_inv v"
  shows "view_inv (view_notify_one v)" "waits (view_notify_one v) \<longleftrightarrow> waits v"
    "waits v \<Longrightarrow> wakes (view_notify_one v)" "woken v \<Longrightarrow> woken (view_notify_one v)"
  using assms by (auto simp: view_defs view_notify_one_def split: if_splits) (metis future.exhaust)

lemma wake_woken: "wake f = Completed \<or> wake f = Woken"
  by (cases f) auto

lemma view_inv_notify_waiters:
  assumes "view_inv v"
  shows "view_inv (view_notify_waiters v)" "waits (view_notify_waiters v) \<longleftrightarrow> waits v"
    "waits v \<Longrightarrow> wakes (view_notify_waiters v)" "waits v \<Longrightarrow> woken (view_notify_waiters v)"
proof -
  have "wake f \<noteq> Queued" for f using wake_woken [of f] by auto
  with assms show "view_inv (view_notify_waiters v)"
    by (auto simp: view_inv_def view_notify_waiters_def)
  show "waits (view_notify_waiters v) \<longleftrightarrow> waits v"
    by (simp add: waits_def view_notify_waiters_def)
  assume "waits v"
  then obtain f where "futures v SenderTask = Some f" by (auto simp: waits_def)
  with wake_woken [of f] show *: "woken (view_notify_waiters v)"
    by (simp add: woken_def view_notify_waiters_def)
  then show "wakes (view_notify_waiters v)" by (simp add: wakes_def)
qed

lemma view_inv_notified:
  assumes "view_inv v" "\<not> waits v"
  shows "view_inv (view_notified SenderTask v)" "waits (view_notified SenderTask v)"
  using assms by (simp_all add: view_defs view_notified_def)

lemma view_inv_poll:
  assumes "view_inv v" "waits v" "view_poll takes SenderTask v = (ready, v')"
  shows "view_inv v'" "ready \<longleftrightarrow> wakes v" "waits v' \<longleftrightarrow> \<not> ready"
    "\<not> ready \<Longrightarrow> futures v' SenderTask = Some Queued"
proof -
  from assms(2) obtain f where "futures v SenderTask = Some f" by (auto simp: waits_def)
  with assms have "view_inv v' \<and> (ready \<longleftrightarrow> wakes v) \<and> (waits v' \<longleftrightarrow> \<not> ready) \<and>
    (\<not> ready \<longrightarrow> futures v' SenderTask = Some Queued)"
    by (cases f) (auto simp: view_defs view_poll_def Let_def split: if_splits)
  then show "view_inv v'" "ready \<longleftrightarrow> wakes v" "waits v' \<longleftrightarrow> \<not> ready"
    "\<not> ready \<Longrightarrow> futures v' SenderTask = Some Queued"
    by blast+
qed

text \<open>The interface of \<open>Notify\<close>, and what the tasks of a sink can rely on under it.\<close>

locale notify_contract =
  fixes nt :: "'n notify_ops"
  assumes documented: "documented nt"
begin

lemma views:
  "nt_view nt (nt_new nt) = view_new"
  "nt_view nt (nt_notified nt t n) = view_notified t (nt_view nt n)"
  "nt_view nt (nt_notify_one nt n) = view_notify_one (nt_view nt n)"
  "nt_view nt (nt_notify_waiters nt n) = view_notify_waiters (nt_view nt n)"
  using documented by (simp_all add: documented_def)

lemma view_polled:
  assumes "nt_poll nt t n = (ready, n')"
  obtains takes where "view_poll takes t (nt_view nt n) = (ready, nt_view nt n')"
proof -
  obtain takes where "map_prod id (nt_view nt) (nt_poll nt t n) = view_poll takes t (nt_view nt n)"
    using documented unfolding documented_def by blast
  with assms that show ?thesis by simp
qed

lemma wake_inv_initial: "wake_inv nt (notify_initial nt)"
  by (simp add: wake_inv_def notify_initial_def views view_inv_new webrtc_initial_def)

lemma wake_inv_sender_step:
  assumes "sender_step nt w w'" "wake_inv nt w" "control_inv (core w)"
  shows "wake_inv nt w'"
  using assms
proof (induction rule: sender_step.induct)
  case (SDequeue w)
  then have "w_error (shared (core w)) = None" by (auto simp: control_inv_def)
  moreover from SDequeue have v: "view_inv (nt_view nt (notify w))" "\<not> waits (nt_view nt (notify w))"
    by (auto simp: wake_inv_def Let_def)
  ultimately show ?case
    using SDequeue view_inv_notified [OF v] view_inv_notify_waiters [OF v(1)]
    by (auto simp: wake_inv_def dequeue_step_def dequeue_notify_def dequeue_section_def views Let_def
        split: list.split)
next
  case (SPoll w)
  obtain ready n' where p: "nt_poll nt SenderTask (notify w) = (ready, n')" by fastforce
  then obtain takes where v: "view_poll takes SenderTask (nt_view nt (notify w)) = (ready, nt_view nt n')"
    by (rule view_polled)
  from SPoll have i: "view_inv (nt_view nt (notify w))" "waits (nt_view nt (notify w))"
    by (auto simp: wake_inv_def Let_def)
  note pv = view_inv_poll [OF i v]
  show ?case
  proof (cases ready)
    case True
    with SPoll p pv show ?thesis
      by (auto simp: wake_inv_def poll_sender_def set_sender_def Let_def)
  next
    case False
    with pv have "\<not> wakes (nt_view nt (notify w))" "\<not> woken (nt_view nt (notify w))"
      by (simp_all add: wakes_def)
    with False SPoll p pv show ?thesis
      by (auto simp: wake_inv_def poll_sender_def Let_def)
  qed
next
  case (SNotifyError w)
  then have "view_inv (nt_view nt (notify w))" by (simp add: wake_inv_def Let_def)
  from view_inv_notify_waiters [OF this] SNotifyError show ?case
    by (simp add: wake_inv_def views Let_def)
qed (auto simp: wake_inv_def set_sender_def Let_def)

lemma wake_inv_producer_step:
  assumes "producer_step nt sink w w'" "wake_inv nt w" "control_inv (core w)"
    and "ws_drop_policy sink \<noteq> RouterBlock"
  shows "wake_inv nt w'"
  using assms
proof (induction rule: producer_step.induct)
  case (PConsume w metrics payload)
  then show ?case
    by (cases payload)
      (auto simp: wake_inv_def consume_step_def install_metrics_def reply_def Let_def split: sum.split)
next
  case (PCheck w packet)
  then show ?case
    by (auto simp: wake_inv_def check_step_def reply_def Let_def split: sum.split)
next
  case (PEnqueue w packet)
  have one: "view_inv (nt_view nt (notify w))" using PEnqueue by (simp add: wake_inv_def Let_def)
  show ?case using PEnqueue view_inv_notify_one [OF one]
    by (auto simp: wake_inv_def enqueue_step_def enqueue_notify_def enqueue_section_def reply_def views Let_def
        split: router_drop_policy.splits prod.split)
next
  case (PClose w)
  then show ?case by (auto simp: wake_inv_def close_step_def Let_def)
next
  case (PNotifyClose w)
  then have "view_inv (nt_view nt (notify w))" by (simp add: wake_inv_def Let_def)
  from view_inv_notify_waiters [OF this] PNotifyClose show ?case
    by (simp add: wake_inv_def views Let_def)
qed (auto simp: wake_inv_def set_producer_def Let_def)

lemma wake_inv_reachable:
  assumes "notify_reachable nt sink w" "ws_drop_policy sink \<noteq> RouterBlock" "ws_queue_limit sink \<noteq> 0"
  shows "wake_inv nt w \<and> control_inv (core w)"
proof -
  from assms(1) have "(notify_step nt sink)\<^sup>*\<^sup>* (notify_initial nt) w" by (simp add: notify_reachable_def)
  then show ?thesis
  proof (induction rule: rtranclp_induct)
    case base
    have "webrtc_reachable sink webrtc_initial" by (simp add: webrtc_reachable_def)
    then show ?case using wake_inv_initial webrtc_reachable_inv assms(3) by (simp add: notify_initial_def)
  next
    case (step w w')
    from step have "notify_reachable nt sink w'"
      by (simp add: notify_reachable_def rtranclp.rtrancl_into_rtrancl)
    with assms(3) have "control_inv (core w')"
      using notify_reachable_refines webrtc_reachable_inv by blast
    with step assms(2) show ?case
      unfolding notify_step_def using wake_inv_sender_step wake_inv_producer_step by blast
  qed
qed

text \<open>How many steps the sender can take when it is left alone.\<close>

definition phase :: "'n notify_world \<Rightarrow> nat" where
  "phase w = (case sender (core w) of
     Processing _ \<Rightarrow> 8 | Failing _ _ \<Rightarrow> 7 | Dequeuing \<Rightarrow> 3 | SenderDone \<Rightarrow> 0
   | SenderWaiting \<Rightarrow> (case futures (nt_view nt (notify w)) SenderTask of
       Some Created \<Rightarrow> 2 | Some Queued \<Rightarrow> 0 | Some _ \<Rightarrow> 4 | None \<Rightarrow> 0))"

definition load :: "'n notify_world \<Rightarrow> nat" where
  "load w = 10 * length (w_queue (shared (core w))) + (if permit (nt_view nt (notify w)) then 4 else 0) +
     phase w + (if error_pending w then 1 else 0)"

lemma load_le: "load w \<le> 10 * length (w_queue (shared (core w))) + 13"
  by (auto simp: load_def phase_def split: sender.split option.split future.split)

lemma sender_step_load:
  assumes "sender_step nt w w'" "wake_inv nt w" "control_inv (core w)"
  shows "load w' < load w"
  using assms
proof (induction rule: sender_step.induct)
  case (SDequeue w)
  then show ?case
    by (auto simp: load_def phase_def dequeue_step_def dequeue_notify_def dequeue_section_def views Let_def
        view_notify_waiters_def view_notified_def split: list.split)
next
  case (SPoll w)
  obtain ready n' where p: "nt_poll nt SenderTask (notify w) = (ready, n')" by fastforce
  then obtain takes where v: "view_poll takes SenderTask (nt_view nt (notify w)) = (ready, nt_view nt n')"
    by (rule view_polled)
  from SPoll obtain f where f: "futures (nt_view nt (notify w)) SenderTask = Some f" "f \<noteq> Queued"
    by (auto simp: wake_inv_def waits_def queued_def Let_def)
  have "ready = fst (view_poll takes SenderTask (nt_view nt (notify w)))"
    "nt_view nt n' = snd (view_poll takes SenderTask (nt_view nt (notify w)))" by (simp_all add: v)
  with SPoll p f show ?case
    by (cases f) (auto simp: load_def phase_def poll_sender_def set_sender_def view_poll_def Let_def
        split: if_splits)
next
  case (SNotifyError w)
  then show ?case
    by (auto simp: load_def phase_def views wake_inv_def view_notify_waiters_def Let_def)
qed (auto simp: load_def phase_def set_sender_def set_sender_error_def)

lemma sender_steps:
  assumes "((sender_step nt) ^^ k) w w'" "wake_inv nt w" "control_inv (core w)"
  shows "k + load w' \<le> load w \<and> wake_inv nt w' \<and> control_inv (core w')"
  using assms(1)
proof (induction k arbitrary: w')
  case 0
  with assms show ?case by simp
next
  case (Suc k)
  then obtain w1 where w1: "((sender_step nt) ^^ k) w w1" "sender_step nt w1 w'" by auto
  note i = Suc.IH [OF w1(1)]
  have "webrtc_step sink (core w1) (core w') \<or> core w' = core w1" for sink
    by (rule sender_step_refines [OF w1(2)])
  with i have "control_inv (core w')" using control_inv_step by (metis (full_types))
  with i sender_step_load [OF w1(2)] wake_inv_sender_step [OF w1(2)] show ?case by auto
qed

lemma sender_stuck:
  assumes "\<nexists>w'. sender_step nt w w'" "wake_inv nt w" "control_inv (core w)"
  shows "w_error (shared (core w)) \<noteq> None \<or>
    w_queue (shared (core w)) = [] \<and> handled (core w) = processed (core w)"
proof (cases "sender (core w)")
  case SenderWaiting
  with assms(1) have "queued nt SenderTask w" using SPoll by blast
  with assms(2) SenderWaiting have "w_queue (shared (core w)) = []"
    by (auto simp: wake_inv_def queued_def wakes_def woken_def Let_def)
  moreover from SenderWaiting assms(3) have "failed (core w) = []" by (auto simp: control_inv_def)
  ultimately show ?thesis using SenderWaiting by (simp add: handled_def)
next
  case SenderDone
  with assms(3) show ?thesis by (auto simp: control_inv_def handled_def)
qed (use assms(1) in \<open>blast intro: SDequeue SSent SError\<close>)+

end

text \<open>The documented behaviour itself is an implementation of the interface.\<close>

definition plain_notify :: "notify_view notify_ops" where
  "plain_notify = \<lparr> nt_new = view_new, nt_notified = view_notified, nt_notify_one = view_notify_one,
     nt_notify_waiters = view_notify_waiters, nt_poll = view_poll False, nt_view = id \<rparr>"

interpretation plain: notify_contract plain_notify
  by unfold_locales (auto simp: documented_def plain_notify_def map_prod_def)

text \<open>
  C9: with a policy that drops packets no wake-up is lost: from every reachable world the sender
  task, left alone, stops after a number of steps that the length of the queue bounds, and where it
  stops it has reported an error or has emptied the queue and sent everything it took.
\<close>

theorem dropping_sink_drains:
  assumes "documented nt" "new_configured config limit policy = Inr (sink, config')"
    and "policy \<noteq> RouterBlock" "notify_reachable nt sink w"
  shows "(((sender_step nt) ^^ k) w w' \<longrightarrow> k \<le> 10 * length (w_queue (shared (core w))) + 13) \<and>
    ((sender_step nt)\<^sup>*\<^sup>* w w' \<and> (\<nexists>w''. sender_step nt w' w'') \<longrightarrow>
       w_error (shared (core w')) \<noteq> None \<or>
       w_queue (shared (core w')) = [] \<and> handled (core w') = processed (core w'))"
proof -
  have c: "notify_contract nt" using assms(1) by (simp add: notify_contract_def)
  from assms(2,3) have "ws_drop_policy sink \<noteq> RouterBlock" "ws_queue_limit sink \<noteq> 0"
    using new_configured_limit by blast+
  from notify_contract.wake_inv_reachable [OF c assms(4) this]
  have inv: "wake_inv nt w" "control_inv (core w)" by simp_all
  note steps = notify_contract.sender_steps [OF c _ inv]
  show ?thesis
  proof (intro conjI impI)
    assume "((sender_step nt) ^^ k) w w'"
    from steps [OF this] notify_contract.load_le [OF c, of w]
    show "k \<le> 10 * length (w_queue (shared (core w))) + 13" by simp
  next
    assume *: "(sender_step nt)\<^sup>*\<^sup>* w w' \<and> (\<nexists>w''. sender_step nt w' w'')"
    then obtain j where "((sender_step nt) ^^ j) w w'" using rtranclp_imp_relpowp by metis
    from steps [OF this] have "wake_inv nt w'" "control_inv (core w')" by simp_all
    with * show "w_error (shared (core w')) \<noteq> None \<or>
        w_queue (shared (core w')) = [] \<and> handled (core w') = processed (core w')"
      using notify_contract.sender_stuck [OF c] by blast
  qed
qed

section \<open>The blocking policy\<close>

lemma notify_reachable_step:
  "notify_reachable nt sink w \<Longrightarrow> notify_step nt sink w w' \<Longrightarrow> notify_reachable nt sink w'"
  by (simp add: notify_reachable_def rtranclp.rtrancl_into_rtrancl)

lemma notify_reachable_producer:
  "notify_reachable nt sink w \<Longrightarrow> producer_step nt sink w w' \<Longrightarrow> notify_reachable nt sink w'"
  by (simp add: notify_reachable_step notify_step_def)

lemma notify_reachable_sender:
  "notify_reachable nt sink w \<Longrightarrow> sender_step nt w w' \<Longrightarrow> notify_reachable nt sink w'"
  by (simp add: notify_reachable_step notify_step_def)

text \<open>The sink after the sender has created its future and \<open>k\<close> packets were put into the queue.\<close>

definition filled :: "encoded_packet \<Rightarrow> nat \<Rightarrow> webrtc_world" where
  "filled p k = webrtc_initial
     \<lparr> shared := (shared webrtc_initial)\<lparr> w_queue := replicate k p \<rparr>, sender := SenderWaiting,
       accepted := replicate k p, results := replicate k (Inr ()) \<rparr>"

lemma consume_to_enqueue:
  assumes "notify_reachable nt sink \<lparr> core = c, notify = n, close_pending = False, error_pending = False \<rparr>"
    and "producer c = Idle" "w_error (shared c) = None"
  shows "notify_reachable nt sink
    \<lparr> core = c\<lparr> producer := Enqueuing p \<rparr>, notify = n, close_pending = False, error_pending = False \<rparr>"
proof -
  have "consume_step sink False (EncodedPacket p) c = c\<lparr> producer := Checking p \<rparr>"
    using assms(3) by (simp add: consume_step_def install_metrics_def shared_error_def)
  with notify_reachable_producer [OF assms(1) PConsume [where metrics = False and payload = "EncodedPacket p"]]
  have 1: "notify_reachable nt sink
      \<lparr> core = c\<lparr> producer := Checking p \<rparr>, notify = n, close_pending = False, error_pending = False \<rparr>"
    using assms(2) by simp
  have "check_step p (c\<lparr> producer := Checking p \<rparr>) = c\<lparr> producer := Enqueuing p \<rparr>"
    using assms(3) by (simp add: check_step_def shared_error_def)
  with notify_reachable_producer [OF 1 PCheck [where packet = p]] show ?thesis by simp
qed

abbreviation quiet :: "webrtc_world \<Rightarrow> 'n \<Rightarrow> 'n notify_world" where
  "quiet c n \<equiv> \<lparr> core = c, notify = n, close_pending = False, error_pending = False \<rparr>"

definition fresh_view :: "bool \<Rightarrow> notify_view" where
  "fresh_view b = \<lparr> permit = b, futures = [SenderTask \<mapsto> Created], waiters = [] \<rparr>"

context notify_contract begin

lemma filled_initial:
  "\<exists>n. notify_reachable nt sink (quiet (filled p 0) n) \<and> nt_view nt n = fresh_view False"
proof -
  have 0: "notify_reachable nt sink (quiet webrtc_initial (nt_new nt))"
    by (simp add: notify_reachable_def notify_initial_def)
  have "dequeue_step webrtc_initial = filled p 0"
    by (simp add: dequeue_step_def dequeue_section_def webrtc_initial_def filled_def)
  moreover have "dequeue_notify nt (shared webrtc_initial) (nt_new nt) = nt_notified nt SenderTask (nt_new nt)"
    by (simp add: dequeue_notify_def dequeue_section_def webrtc_initial_def)
  ultimately have "notify_reachable nt sink (quiet (filled p 0) (nt_notified nt SenderTask (nt_new nt)))"
    using notify_reachable_sender [OF 0 SDequeue] by (simp add: webrtc_initial_def)
  then show ?thesis
    by (intro exI conjI, assumption) (simp add: views view_notified_def view_new_def fresh_view_def)
qed

lemma filled_Suc:
  assumes "notify_reachable nt sink (quiet (filled p k) n)" "nt_view nt n = fresh_view b"
    and "k < unat (ws_queue_limit sink)"
  shows "notify_reachable nt sink (quiet (filled p (Suc k)) (nt_notify_one nt n)) \<and>
    nt_view nt (nt_notify_one nt n) = fresh_view True"
proof -
  let ?c = "(filled p k)\<lparr> producer := Enqueuing p \<rparr>"
  have e: "notify_reachable nt sink (quiet ?c n)"
    by (rule consume_to_enqueue [OF assms(1)]) (simp_all add: filled_def webrtc_initial_def)
  have q: "enqueue_section sink p (shared ?c) = (Enqueued, shared (filled p (Suc k)))"
    using assms(3) by (simp add: enqueue_section_def filled_def webrtc_initial_def replicate_append_same)
  then have "enqueue_step sink p ?c = filled p (Suc k)"
    by (simp add: enqueue_step_def reply_def filled_def webrtc_initial_def replicate_append_same)
  with notify_reachable_producer [OF e PEnqueue [where packet = p]] q
  have "notify_reachable nt sink (quiet (filled p (Suc k)) (nt_notify_one nt n))"
    by (simp add: enqueue_notify_def)
  with assms(2) show ?thesis by (simp add: views view_notify_one_def fresh_view_def)
qed

lemma filled_reachable:
  assumes "k \<le> unat (ws_queue_limit sink)"
  shows "\<exists>n. notify_reachable nt sink (quiet (filled p k) n) \<and> nt_view nt n = fresh_view (0 < k)"
  using assms
proof (induction k)
  case 0
  show ?case using filled_initial by simp
next
  case (Suc k)
  then obtain n where "notify_reachable nt sink (quiet (filled p k) n)" "nt_view nt n = fresh_view (0 < k)"
    by auto
  from filled_Suc [OF this] Suc.prems show ?case by auto
qed

text \<open>A producer that finds the queue full creates its future.\<close>

lemma enqueue_full:
  assumes "notify_reachable nt sink (quiet c n)" "producer c = Enqueuing p" "ws_drop_policy sink = RouterBlock"
    and "\<not> w_closed (shared c)" "length (w_queue (shared c)) = unat (ws_queue_limit sink)"
  shows "notify_reachable nt sink (quiet (c\<lparr> producer := Waiting p \<rparr>) (nt_notified nt ProducerTask n))"
proof -
  have q: "enqueue_section sink p (shared c) = (WaitForCapacity, shared c)"
    using assms(3-5) by (simp add: enqueue_section_def)
  then have "enqueue_step sink p c = c\<lparr> producer := Waiting p \<rparr>" by (simp add: enqueue_step_def)
  with notify_reachable_producer [OF assms(1) PEnqueue [where packet = p]] q assms(2) show ?thesis
    by (simp add: enqueue_notify_def)
qed

lemma poll_first:
  assumes "futures (nt_view nt n) t = Some Created" "permit (nt_view nt n) = b"
  obtains n' where "nt_poll nt t n = (b, n')"
    "nt_view nt n' = (if b then (nt_view nt n)\<lparr> permit := False, futures := (futures (nt_view nt n))(t := None) \<rparr>
       else (nt_view nt n)\<lparr> futures := (futures (nt_view nt n))(t \<mapsto> Queued), waiters := waiters (nt_view nt n) @ [t] \<rparr>)"
proof -
  obtain r n' where p: "nt_poll nt t n = (r, n')" by fastforce
  then obtain takes where "view_poll takes t (nt_view nt n) = (r, nt_view nt n')" by (rule view_polled)
  then have "r = fst (view_poll takes t (nt_view nt n))" "nt_view nt n' = snd (view_poll takes t (nt_view nt n))"
    by simp_all
  with p assms that show ?thesis by (auto simp: view_poll_def)
qed

lemma full_waits:
  assumes "notify_reachable nt sink (quiet (c\<lparr> producer := Enqueuing p \<rparr>) n)"
    and "ws_drop_policy sink = RouterBlock" "\<not> w_closed (shared c)"
    and "length (w_queue (shared c)) = unat (ws_queue_limit sink)"
    and "nt_view nt n = fresh_view b"
  obtains n' where "notify_reachable nt sink
      (quiet (if b then c\<lparr> producer := Checking p \<rparr> else c\<lparr> producer := Waiting p \<rparr>) n')"
    "nt_view nt n' = (if b then fresh_view False
       else \<lparr> permit = False, futures = [SenderTask \<mapsto> Created, ProducerTask \<mapsto> Queued], waiters = [ProducerTask] \<rparr>)"
proof -
  let ?n = "nt_notified nt ProducerTask n" and ?w = "c\<lparr> producer := Waiting p \<rparr>"
  from enqueue_full [OF assms(1) _ assms(2)] assms(3,4)
  have full: "notify_reachable nt sink (quiet ?w ?n)" by simp
  have v: "nt_view nt ?n = \<lparr> permit = b, futures = [SenderTask \<mapsto> Created, ProducerTask \<mapsto> Created], waiters = [] \<rparr>"
    by (simp add: views assms(5) view_notified_def fresh_view_def)
  then obtain n' where n': "nt_poll nt ProducerTask ?n = (b, n')"
    "nt_view nt n' = (if b then (nt_view nt ?n)\<lparr> permit := False, futures := (futures (nt_view nt ?n))(ProducerTask := None) \<rparr>
       else (nt_view nt ?n)\<lparr> futures := (futures (nt_view nt ?n))(ProducerTask \<mapsto> Queued),
              waiters := waiters (nt_view nt ?n) @ [ProducerTask] \<rparr>)"
    using poll_first [of ?n ProducerTask b] by auto
  have "\<not> queued nt ProducerTask (quiet ?w ?n)" using v by (simp add: queued_def)
  from notify_reachable_producer [OF full PPoll [OF _ this, of p]] n'(1)
  have "notify_reachable nt sink
      (quiet (if b then c\<lparr> producer := Checking p \<rparr> else c\<lparr> producer := Waiting p \<rparr>) n')"
    by (simp add: poll_producer_def set_producer_def Let_def split: if_splits)
  moreover have "nt_view nt n' = (if b then fresh_view False
       else \<lparr> permit = False, futures = [SenderTask \<mapsto> Created, ProducerTask \<mapsto> Queued], waiters = [ProducerTask] \<rparr>)"
    using n'(2) v by (auto simp: fresh_view_def fun_upd_twist)
  ultimately show ?thesis using that by blast
qed

text \<open>Full queue, the producer takes the sender's permit, both wait.\<close>

lemma both_wait:
  assumes "ws_drop_policy sink = RouterBlock" "ws_queue_limit sink \<noteq> 0"
  obtains n where "notify_reachable nt sink
      (quiet ((filled p (unat (ws_queue_limit sink)))\<lparr> producer := Waiting p \<rparr>) n)"
    "futures (nt_view nt n) = [SenderTask \<mapsto> Queued, ProducerTask \<mapsto> Queued]"
proof -
  let ?c = "filled p (unat (ws_queue_limit sink))"
  have c: "producer ?c = Idle" "w_error (shared ?c) = None" "\<not> w_closed (shared ?c)"
    "length (w_queue (shared ?c)) = unat (ws_queue_limit sink)" "sender ?c = SenderWaiting"
    by (simp_all add: filled_def webrtc_initial_def)
  have pos: "0 < unat (ws_queue_limit sink)" using assms(2) by (simp add: unat_gt_0)
  with filled_reachable [of "unat (ws_queue_limit sink)" sink p] obtain n0
    where n0: "notify_reachable nt sink (quiet ?c n0)" "nt_view nt n0 = fresh_view True" by auto
  obtain n1 where "notify_reachable nt sink (quiet (?c\<lparr> producer := Checking p \<rparr>) n1)"
    and v1: "nt_view nt n1 = fresh_view False"
    by (rule full_waits [OF consume_to_enqueue [OF n0(1) c(1,2)] assms(1) c(3,4) n0(2)]) simp
  from notify_reachable_producer [OF this(1) PCheck [where packet = p]]
  have "notify_reachable nt sink (quiet (?c\<lparr> producer := Enqueuing p \<rparr>) n1)"
    using c(2) by (simp add: check_step_def shared_error_def)
  from full_waits [OF this assms(1) c(3,4) v1] obtain n2
    where n2: "notify_reachable nt sink (quiet (?c\<lparr> producer := Waiting p \<rparr>) n2)"
      "nt_view nt n2 = \<lparr> permit = False, futures = [SenderTask \<mapsto> Created, ProducerTask \<mapsto> Queued],
         waiters = [ProducerTask] \<rparr>"
    by auto
  have "futures (nt_view nt n2) SenderTask = Some Created" "permit (nt_view nt n2) = False"
    by (simp_all add: n2(2))
  then obtain n3 where n3: "nt_poll nt SenderTask n2 = (False, n3)"
    "nt_view nt n3 = (nt_view nt n2)\<lparr> futures := (futures (nt_view nt n2))(SenderTask \<mapsto> Queued),
       waiters := waiters (nt_view nt n2) @ [SenderTask] \<rparr>"
    by (rule poll_first) (simp only: if_False)
  have f3: "futures (nt_view nt n3) = [SenderTask \<mapsto> Queued, ProducerTask \<mapsto> Queued]"
    by (simp add: n3(2)) (simp add: n2(2) fun_upd_twist)
  have "\<not> queued nt SenderTask (quiet (?c\<lparr> producer := Waiting p \<rparr>) n2)" using n2 by (simp add: queued_def)
  from notify_reachable_sender [OF n2(1) SPoll [OF _ this]] n3(1) c(5)
  have "notify_reachable nt sink (quiet (?c\<lparr> producer := Waiting p \<rparr>) n3)"
    by (simp add: poll_sender_def)
  with f3 that show ?thesis by blast
qed

end

inductive_cases producer_stepE: "producer_step nt sink w w'"
inductive_cases sender_stepE: "sender_step nt w w'"

lemma waiting_stuck:
  assumes "producer (core w) = Waiting p" "sender (core w) = SenderWaiting"
    and "queued nt ProducerTask w" "queued nt SenderTask w" "\<not> close_pending w" "\<not> error_pending w"
  shows "\<nexists>w'. notify_step nt sink w w'"
  using assms by (auto simp: notify_step_def elim: producer_stepE sender_stepE)

text \<open>
  C10: with the blocking policy, for every queue limit, the two tasks can come to wait for each other:
  a world is reachable in which the queue is full, nothing is closed and no error has happened, the
  pipeline loop waits for room, the sender waits for a packet, and no step is possible any more.
\<close>

theorem blocking_sink_can_deadlock:
  assumes "documented nt" "new_configured config limit RouterBlock = Inr (sink, config')"
  shows "\<exists>w. notify_reachable nt sink w \<and> (\<nexists>w'. notify_step nt sink w w') \<and>
    length (w_queue (shared (core w))) = unat limit \<and> producer (core w) = Waiting p \<and>
    sender (core w) = SenderWaiting \<and> shared_error (shared (core w)) = Inr () \<and>
    \<not> w_closed (shared (core w))"
proof -
  have c: "notify_contract nt" using assms(1) by (simp add: notify_contract_def)
  from new_configured_limit [OF assms(2)] have s: "ws_drop_policy sink = RouterBlock"
    "ws_queue_limit sink \<noteq> 0" "ws_queue_limit sink = limit" by simp_all
  let ?w = "\<lambda>n. quiet ((filled p (unat limit))\<lparr> producer := Waiting p \<rparr>) n"
  obtain n where n: "notify_reachable nt sink (?w n)"
    "futures (nt_view nt n) = [SenderTask \<mapsto> Queued, ProducerTask \<mapsto> Queued]"
    using notify_contract.both_wait [OF c s(1,2), of p] s(3) by auto
  have "\<nexists>w'. notify_step nt sink (?w n) w'"
    by (rule waiting_stuck) (use n(2) in \<open>simp_all add: queued_def filled_def\<close>)
  with n(1) show ?thesis
    by (intro exI [of _ "?w n"]) (simp add: filled_def webrtc_initial_def shared_error_def)
qed

theorem blocking_sink_can_deadlock_witness:
  "\<exists>w. notify_reachable plain_notify (example_sink RouterBlock) w \<and>
     (\<nexists>w'. notify_step plain_notify (example_sink RouterBlock) w w') \<and> length (w_queue (shared (core w))) = 1"
  using blocking_sink_can_deadlock [OF plain.documented example_new_configured, of "example_frame True 0"]
  by auto

theorem dropping_sink_drains_witness:
  "\<exists>w. notify_reachable plain_notify (example_sink RouterDropNewest) w \<and>
     w_queue (shared (core w)) = [example_frame True 0] \<and>
     (\<nexists>w'. ((sender_step plain_notify) ^^ 24) w w')"
proof -
  obtain n where n: "notify_reachable plain_notify (example_sink RouterDropNewest)
      (quiet (filled (example_frame True 0) 1) n)"
    using plain.filled_reachable [of 1 "example_sink RouterDropNewest" "example_frame True 0"]
    by (auto simp: example_sink_def)
  have q: "w_queue (shared (core (quiet (filled (example_frame True 0) 1) n))) = [example_frame True 0]"
    by (simp add: filled_def)
  have "\<nexists>w'. ((sender_step plain_notify) ^^ 24) (quiet (filled (example_frame True 0) 1) n) w'"
  proof
    assume "\<exists>w'. ((sender_step plain_notify) ^^ 24) (quiet (filled (example_frame True 0) 1) n) w'"
    then obtain w' where "((sender_step plain_notify) ^^ 24) (quiet (filled (example_frame True 0) 1) n) w'" ..
    with dropping_sink_drains [OF plain.documented example_new_configured _ n, of 24 w'] q show False
      by simp
  qed
  with n q show ?thesis by blast
qed

text \<open>The first step of the sender.\<close>

theorem notify_refines_webrtc_witness:
  "webrtc_reachable (example_sink RouterBlock) (core (notify_initial plain_notify)) \<and>
   (webrtc_step (example_sink RouterBlock))\<^sup>=\<^sup>= webrtc_initial (dequeue_step webrtc_initial)"
proof -
  have 0: "notify_reachable plain_notify (example_sink RouterBlock) (notify_initial plain_notify)"
    by (simp add: notify_reachable_def)
  have "sender (core (notify_initial plain_notify)) = Dequeuing"
    by (simp add: notify_initial_def webrtc_initial_def)
  from SDequeue [OF this] have "notify_step plain_notify (example_sink RouterBlock) (notify_initial plain_notify)
      ((notify_initial plain_notify)\<lparr> core := dequeue_step (core (notify_initial plain_notify)),
         notify := dequeue_notify plain_notify (shared (core (notify_initial plain_notify)))
           (notify (notify_initial plain_notify)) \<rparr>)"
    by (simp add: notify_step_def)
  from notify_refines_webrtc [OF 0 this] show ?thesis by (simp add: notify_initial_def)
qed

end
