(* ===== verification/Caml_Track.thy ===== *)
theory Caml_Track
  imports Caml_Webrtc
begin

text \<open>
  The far end of the WebRTC sink (\<^verbatim>\<open>crates/caml-webrtc/src/lib.rs\<close>): what the sender task makes of the
  packets it takes out of the queue, and the writer behind it. \<open>Caml_Webrtc\<close> lets the processing of
  a packet end in any way; here \<open>process_packet\<close> decides, over the packetizer and the track of the
  \<^verbatim>\<open>rtp\<close> and \<^verbatim>\<open>webrtc\<close> crates, which stay parameters with a state of their own.
\<close>

section \<open>The writer\<close>

text \<open>How a write to the track ends under the timeout of half a second.\<close>

datatype track_answer = Written nat | WriteFailed str | WriteLate

fun track_write_packet :: "track_answer \<Rightarrow> runtime_error + unit" where
  "track_write_packet WriteLate =
     Inl (Sink ''WebRTC track write stalled due to backpressure timeout'')"
| "track_write_packet (Written n) = Inr ()"
| "track_write_packet (WriteFailed error) = Inl (Sink (''failed to write RTP packet: '' @ error))"

text \<open>\<open>TrackPacketWriter\<close> on a track, with \<open>write_rtp\<close> being its write under the timeout.\<close>

definition track_writer ::
  "('w \<Rightarrow> 'r \<Rightarrow> track_answer \<times> 'w) \<Rightarrow> 'w \<Rightarrow> 'r \<Rightarrow> (runtime_error + unit) \<times> 'w" where
  "track_writer write_rtp w packet =
     (let (answer, w') = write_rtp w packet in (track_write_packet answer, w'))"

section \<open>A sink with the defaults\<close>

definition webrtc_sink_new ::
  "(str \<Rightarrow> u64) \<Rightarrow> str \<Rightarrow> usize \<Rightarrow> duration option \<Rightarrow> runtime_error + webrtc_sink \<times> webrtc_sender_config" where
  "webrtc_sink_new hash pipeline_id packet_size_limit default_duration =
     new_configured
       \<lparr> sc_pipeline_id = pipeline_id, sc_packet_size_limit = packet_size_limit,
         sc_default_frame_duration = default_duration, sc_codec = ''h264'', sc_payload_type = 102,
         sc_ssrc = stable_ssrc hash pipeline_id, sc_clock_rate = video_clock_rate \<rparr>
       10 RouterBlock"

section \<open>The sender task\<close>

text \<open>
  \<open>run_sender_loop\<close> over the packets it gets from the queue, each with the bytes of its storage: the
  error it stops with, if any, and the states of packetizer and track after it.
\<close>

fun sender_loop ::
  "('p \<Rightarrow> u8 list \<Rightarrow> u32 \<Rightarrow> (str + 'r list) \<times> 'p) \<Rightarrow> ('w \<Rightarrow> 'r \<Rightarrow> (runtime_error + unit) \<times> 'w)
     \<Rightarrow> webrtc_sender_config \<Rightarrow> (encoded_packet \<times> u8 list) list \<Rightarrow> 'p \<Rightarrow> 'w
     \<Rightarrow> runtime_error option \<times> 'p \<times> 'w" where
  "sender_loop packetize write config [] p w = (None, p, w)"
| "sender_loop packetize write config ((packet, bytes) # rest) p w =
     (case process_packet packetize write config packet bytes p w of
        (Inl error, p', w') \<Rightarrow> (Some error, p', w')
      | (Inr _, p', w') \<Rightarrow> sender_loop packetize write config rest p' w')"

text \<open>
  The sink with its packetizer and track. While a packet is processed the producer goes on; \<open>bytes\<close> are
  the bytes of a packet, which do not change while the packet is alive.
\<close>

record ('p, 'w) track_world =
  sink_world :: webrtc_world
  packetizer :: 'p
  track :: 'w

inductive track_step ::
  "('p \<Rightarrow> u8 list \<Rightarrow> u32 \<Rightarrow> (str + 'r list) \<times> 'p) \<Rightarrow> ('w \<Rightarrow> 'r \<Rightarrow> (runtime_error + unit) \<times> 'w)
     \<Rightarrow> (encoded_packet \<Rightarrow> u8 list) \<Rightarrow> webrtc_sink \<Rightarrow> webrtc_sender_config
     \<Rightarrow> ('p, 'w) track_world \<Rightarrow> ('p, 'w) track_world \<Rightarrow> bool"
  for packetize put bytes sink config where
  Sends: "sender (sink_world t) = Processing packet \<Longrightarrow>
    process_packet packetize put config packet (bytes packet) (packetizer t) (track t) = (Inr (), p, x) \<Longrightarrow>
    track_step packetize put bytes sink config t
      \<lparr> sink_world = (sink_world t)\<lparr> sender := Dequeuing, processed := processed (sink_world t) @ [packet] \<rparr>,
        packetizer = p, track = x \<rparr>"
| Fails: "sender (sink_world t) = Processing packet \<Longrightarrow>
    process_packet packetize put config packet (bytes packet) (packetizer t) (track t) = (Inl error, p, x) \<Longrightarrow>
    track_step packetize put bytes sink config t
      \<lparr> sink_world = (sink_world t)\<lparr> sender := Failing packet error \<rparr>, packetizer = p, track = x \<rparr>"
| Others: "webrtc_step sink (sink_world t) v \<Longrightarrow>
    (\<And>packet. sender (sink_world t) = Processing packet \<Longrightarrow> sender v = Processing packet) \<Longrightarrow>
    track_step packetize put bytes sink config t (t\<lparr> sink_world := v \<rparr>)"

definition track_initial :: "'p \<Rightarrow> 'w \<Rightarrow> ('p, 'w) track_world" where
  "track_initial p w = \<lparr> sink_world = webrtc_initial, packetizer = p, track = w \<rparr>"

end
