(* ===== verification/Caml_Track_Correct.thy ===== *)
theory Caml_Track_Correct
  imports Caml_Track Caml_Webrtc_Correct Caml_Ffmpeg
begin

text \<open>
  The track gets exactly the RTP packets of the packets that the sink accepted and did not evict, in
  their order, and its clock runs at the rate of the video only where the frame duration is a whole
  number of nanoseconds.
\<close>

section \<open>What the track has got\<close>

lemma sender_loop_append:
  "sender_loop packetize write config (ks @ ls) p w =
     (case sender_loop packetize write config ks p w of
        (None, p', w') \<Rightarrow> sender_loop packetize write config ls p' w'
      | (Some e, p', w') \<Rightarrow> (Some e, p', w'))"
  by (induction ks arbitrary: p w) (auto split: prod.splits sum.splits)

lemma track_step_refines:
  "track_step packetize write bytes sink config t t' \<Longrightarrow> webrtc_step sink (sink_world t) (sink_world t')"
  by (induction rule: track_step.induct) (auto intro: Sent SendFails)

lemma track_refines:
  assumes "(track_step packetize write bytes sink config)\<^sup>*\<^sup>* (track_initial p0 w0) t"
  shows "webrtc_reachable sink (sink_world t)"
  using assms
proof (induction rule: rtranclp_induct)
  case base
  show ?case by (simp add: webrtc_reachable_def track_initial_def)
next
  case (step t t')
  then show ?case using track_step_refines [OF step(2)]
    by (auto simp: webrtc_reachable_def intro: rtranclp.rtrancl_into_rtrancl)
qed

text \<open>The packets whose processing has begun and ended, one way or the other.\<close>

fun failing :: "sender \<Rightarrow> encoded_packet list" where
  "failing (Failing packet error) = [packet]"
| "failing _ = []"

fun pending_error :: "webrtc_world \<Rightarrow> runtime_error option" where
  "pending_error v = (case sender v of Failing packet error \<Rightarrow> Some error | _ \<Rightarrow> w_error (shared v))"

definition tried :: "webrtc_world \<Rightarrow> encoded_packet list" where
  "tried v = processed v @ failed v @ failing (sender v)"

text \<open>The producer touches none of it.\<close>

definition progress :: "webrtc_world \<Rightarrow> encoded_packet list \<times> encoded_packet list \<times> sender \<times> runtime_error option" where
  "progress v = (processed v, failed v, sender v, w_error (shared v))"

lemma progress_tried: "progress v' = progress v \<Longrightarrow> tried v' = tried v \<and> pending_error v' = pending_error v"
  by (cases "sender v") (simp_all add: progress_def tried_def)

lemma progress_reply [simp]: "progress (reply r v) = progress v"
  by (simp add: progress_def reply_def)

lemma progress_updates [simp]:
  "progress (v\<lparr> producer := p \<rparr>) = progress v" "progress (v\<lparr> accepted := ks \<rparr>) = progress v"
  "progress (v\<lparr> evicted := ks \<rparr>) = progress v"
  "progress (v\<lparr> shared := s \<rparr>) = (processed v, failed v, sender v, w_error s)"
  by (simp_all add: progress_def)

lemma progress_consume: "progress (consume_step sink metrics payload v) = progress v"
  by (cases payload) (simp_all add: consume_step_def Let_def install_metrics_def progress_def reply_def split: sum.split)

lemma progress_check: "progress (check_step packet v) = progress v"
  by (simp add: check_step_def split: sum.split)

lemma progress_close: "progress (close_step v) = progress v"
  by (simp add: close_step_def progress_def)

lemma progress_enqueue: "progress (enqueue_step sink packet v) = progress v"
proof -
  obtain outcome s where e: "enqueue_section sink packet (shared v) = (outcome, s)" by fastforce
  then have "w_error s = w_error (shared v)"
    by (auto simp: enqueue_section_def Let_def split: if_splits router_drop_policy.splits prod.splits)
  with e show ?thesis
    by (cases outcome) (simp_all add: enqueue_step_def progress_def reply_def)
qed

lemma others_keep:
  assumes "webrtc_step sink v v'" "control_inv v"
    and "\<And>packet. sender v = Processing packet \<Longrightarrow> sender v' = Processing packet"
  shows "tried v' = tried v \<and> pending_error v' = pending_error v"
  using assms
proof (induction rule: webrtc_step.induct)
  case (Dequeue w)
  then show ?case
    by (auto simp: dequeue_step_def dequeue_section_def tried_def split: list.split)
next
  case (SetError w packet error)
  then have "failed w = []" "w_error (shared w) = None" by (auto simp: control_inv_def)
  with SetError show ?case by (simp add: tried_def set_sender_error_def)
next
  case (WakeSender w)
  then show ?case by (simp add: tried_def)
next
  case (Sent w packet)
  then show ?case by simp
next
  case (SendFails w packet error)
  then show ?case by simp
qed (intro progress_tried, simp add: progress_consume progress_check progress_enqueue progress_close)+

definition data_of :: "(encoded_packet \<Rightarrow> u8 list) \<Rightarrow> encoded_packet list \<Rightarrow> (encoded_packet \<times> u8 list) list" where
  "data_of bytes ks = map (\<lambda>k. (k, bytes k)) ks"

lemma track_exact:
  assumes "(track_step packetize write bytes sink config)\<^sup>*\<^sup>* (track_initial p0 w0) t" "ws_queue_limit sink \<noteq> 0"
  shows "sender_loop packetize write config (data_of bytes (tried (sink_world t))) p0 w0 =
    (pending_error (sink_world t), packetizer t, track t)"
  using assms(1)
proof (induction rule: rtranclp_induct)
  case base
  show ?case by (simp add: track_initial_def webrtc_initial_def tried_def data_of_def)
next
  case (step t t')
  have inv: "control_inv (sink_world t)"
    using webrtc_reachable_inv [OF track_refines [OF step(1)] assms(2)] ..
  from step(2,3) inv show ?case
  proof (induction rule: track_step.induct)
    case (Sends t packet p x)
    then have "failed (sink_world t) = []" "pending_error (sink_world t) = None"
      by (auto simp: control_inv_def)
    with Sends show ?case by (simp add: tried_def data_of_def sender_loop_append control_inv_def)
  next
    case (Fails t packet error p x)
    then have "failed (sink_world t) = []" "pending_error (sink_world t) = None"
      by (auto simp: control_inv_def)
    with Fails show ?case by (simp add: tried_def data_of_def sender_loop_append)
  next
    case (Others t v)
    then show ?case using others_keep [OF Others(1) Others(4) Others(2)] by simp
  qed
qed

lemma flushed:
  assumes "new_configured config limit policy = Inr (sink, config')" "webrtc_reachable sink v"
    and "producer v = FlushedWith r"
  shows "pending_error v = (case r of Inl e \<Rightarrow> Some e | Inr _ \<Rightarrow> None)" "subseq (tried v) (accepted v)"
    "r = Inr () \<Longrightarrow> tried v = processed v \<and> mset (accepted v) = mset (processed v) + mset (evicted v)"
    "r = Inr () \<Longrightarrow> policy \<noteq> RouterDropOldest \<Longrightarrow> processed v = accepted v"
proof -
  have inv: "queue_inv sink v" "control_inv v" "ws_drop_policy sink = policy"
    using webrtc_reachable_inv [OF assms(2)] new_configured_limit [OF assms(1)] by simp_all
  then have r: "sender v = SenderDone" "r = shared_error (shared v)"
    using assms(3) by (simp_all add: control_inv_def)
  then show "pending_error v = (case r of Inl e \<Rightarrow> Some e | Inr _ \<Rightarrow> None)"
    by (simp add: shared_error_def split: option.split)
  have "prefix (tried v) (handled v)" using r by (simp add: tried_def handled_def)
  then have "subseq (tried v) (handled v)" by (rule prefix_imp_subseq)
  with inv(1) show "subseq (tried v) (accepted v)"
    unfolding queue_inv_def using subseq_order.order_trans by blast
  show ok: "tried v = processed v \<and> mset (accepted v) = mset (processed v) + mset (evicted v)" if "r = Inr ()"
  proof -
    have "w_error (shared v) = None" using that r(2) by (simp add: shared_error_def split: option.splits)
    with inv(2) r(1) have "failed v = []" "w_queue (shared v) = []" by (simp_all add: control_inv_def)
    with r(1) inv(1) show ?thesis by (simp add: tried_def handled_def queue_inv_def)
  qed
  show "processed v = accepted v" if "r = Inr ()" "policy \<noteq> RouterDropOldest"
  proof -
    have "mset (accepted v) = mset (processed v)" using ok [OF that(1)] inv that(2) by (simp add: queue_inv_def)
    then have "length (accepted v) = length (processed v)" by (rule mset_eq_length)
    with \<open>subseq (tried v) (accepted v)\<close> ok [OF that(1)] show ?thesis by (simp add: subseq_same_length)
  qed
qed

text \<open>
  C11: what a flush reports is what happened to the track: however producer and sender interleaved, the
  packetizer and the track are where packetizing and writing the packets that were taken from the
  queue, one after the other, has brought them; the flush reports success exactly if no write and no packetizing has
  failed, and these are then all packets that were accepted and not evicted, in order.
\<close>

theorem flush_reports_track:
  assumes "new_configured config limit policy = Inr (sink, config')"
    and "(track_step packetize put bytes sink config')\<^sup>*\<^sup>* (track_initial p0 w0) t"
    and "producer (sink_world t) = FlushedWith r"
  shows "\<exists>sent. sender_loop packetize put config' (map (\<lambda>k. (k, bytes k)) sent) p0 w0 =
      ((case r of Inl e \<Rightarrow> Some e | Inr _ \<Rightarrow> None), packetizer t, track t) \<and>
    subseq sent (accepted (sink_world t)) \<and>
    (r = Inr () \<longrightarrow> mset (accepted (sink_world t)) = mset sent + mset (evicted (sink_world t)) \<and>
      (policy \<noteq> RouterDropOldest \<longrightarrow> sent = accepted (sink_world t)))"
proof -
  have "ws_queue_limit sink \<noteq> 0" using new_configured_limit [OF assms(1)] by simp
  note exact = track_exact [OF assms(2) this]
  note fl = flushed [OF assms(1) track_refines [OF assms(2)] assms(3)]
  show ?thesis
    using exact fl by (intro exI [of _ "tried (sink_world t)"]) (auto simp: data_of_def)
qed

text \<open>
  A run with a packetizer that makes one RTP packet of each frame and counts samples, and a track
  that answers by script and keeps what it was given.
\<close>

definition counting_packetize :: "nat \<Rightarrow> u8 list \<Rightarrow> u32 \<Rightarrow> (str + (nat \<times> u8 list) list) \<times> nat" where
  "counting_packetize clock bytes samples = (Inr [(clock, bytes)], clock + unat samples)"

definition scripted_write ::
  "track_answer list \<times> 'r list \<Rightarrow> 'r \<Rightarrow> track_answer \<times> track_answer list \<times> 'r list" where
  "scripted_write t packet =
     (case fst t of
        [] \<Rightarrow> (WriteLate, t)
      | Written n # answers \<Rightarrow> (Written n, answers, snd t @ [packet])
      | answer # answers \<Rightarrow> (answer, answers, snd t))"

abbreviation example_track_step ::
  "(nat, track_answer list \<times> (nat \<times> u8 list) list) track_world \<Rightarrow> _ \<Rightarrow> bool" where
  "example_track_step \<equiv> track_step counting_packetize (track_writer scripted_write) (\<lambda>k. [1, 2, 3])
     (example_sink RouterBlock) example_config"

definition example_sent :: "(nat, track_answer list \<times> (nat \<times> u8 list) list) track_world" where
  "example_sent = \<lparr> sink_world = example_queued
      \<lparr> shared := (shared webrtc_initial)\<lparr> w_closed := True \<rparr>,
        producer := FlushedWith (Inr ()), sender := SenderDone, processed := [example_frame True 0] \<rparr>,
    packetizer = 2970, track = ([], [(0, [1, 2, 3])]) \<rparr>"

lemma example_sent_reachable: "example_track_step\<^sup>*\<^sup>* (track_initial 0 ([Written 3], [])) example_sent"
proof -
  let ?sink = "example_sink RouterBlock" and ?p = "example_frame True 0"
  let ?t = "\<lambda>v. \<lparr> sink_world = v, packetizer = 0, track = ([Written 3], []) \<rparr>"
  let ?u = "\<lambda>v. \<lparr> sink_world = v, packetizer = 2970, track = ([], [(0, [1, 2, 3])]) \<rparr>"
  have idle: "example_track_step\<^sup>*\<^sup>* (?t v) (?t v')"
    if "webrtc_step ?sink v v'" "\<And>packet. sender v \<noteq> Processing packet" for v v'
    using Others [of ?sink "?t v" v'] that by (intro r_into_rtranclp) simp
  have idle': "example_track_step\<^sup>*\<^sup>* (?u v) (?u v')"
    if "webrtc_step ?sink v v'" "\<And>packet. sender v \<noteq> Processing packet" for v v'
    using Others [of ?sink "?u v" v'] that by (intro r_into_rtranclp) simp
  let ?w1 = "webrtc_initial\<lparr> producer := Checking ?p \<rparr>"
  let ?w2 = "webrtc_initial\<lparr> producer := Enqueuing ?p \<rparr>"
  let ?w4 = "example_queued\<lparr> shared := shared webrtc_initial, sender := Processing ?p \<rparr>"
  let ?w5 = "example_queued\<lparr> shared := shared webrtc_initial, processed := [?p] \<rparr>"
  let ?w6 = "?w5\<lparr> producer := Closing \<rparr>"
  let ?w7 = "?w5\<lparr> shared := (shared webrtc_initial)\<lparr> w_closed := True \<rparr>, producer := Flushing, sender := SenderDone \<rparr>"
  have "example_track_step\<^sup>*\<^sup>* (?t webrtc_initial) (?t (consume_step ?sink False (EncodedPacket ?p) webrtc_initial))"
    by (intro idle Consume) (simp_all add: webrtc_initial_def)
  also have "consume_step ?sink False (EncodedPacket ?p) webrtc_initial = ?w1"
    by (simp add: consume_step_def install_metrics_def shared_error_def webrtc_initial_def)
  also have "example_track_step\<^sup>*\<^sup>* (?t ?w1) (?t (check_step ?p ?w1))"
    by (intro idle Check) (simp_all add: webrtc_initial_def)
  also have "check_step ?p ?w1 = ?w2"
    by (simp add: check_step_def shared_error_def webrtc_initial_def)
  also have "example_track_step\<^sup>*\<^sup>* (?t ?w2) (?t (enqueue_step ?sink ?p ?w2))"
    by (intro idle Enqueue) (simp_all add: webrtc_initial_def)
  also have "enqueue_step ?sink ?p ?w2 = example_queued"
    by (simp add: enqueue_step_def enqueue_section_def reply_def example_sink_def example_queued_def webrtc_initial_def)
  also have "example_track_step\<^sup>*\<^sup>* (?t example_queued) (?t (dequeue_step example_queued))"
    by (intro idle Dequeue) (simp_all add: webrtc_initial_def example_queued_def)
  also have "dequeue_step example_queued = ?w4"
    by (simp add: dequeue_step_def dequeue_section_def example_queued_def webrtc_initial_def)
  also have "example_track_step\<^sup>*\<^sup>* (?t ?w4) (?u ?w5)"
  proof (rule r_into_rtranclp)
    have "unat (duration_to_rtp_samples_with_rate 33000000 90000) = 2970"
      using rtp_samples_exact [of 33000000 90000] by (simp add: duration_max_def)
    then have "process_packet counting_packetize (track_writer scripted_write) example_config ?p [1, 2, 3] 0
        ([Written 3], []) = (Inr (), 2970, ([], [(0, [1, 2, 3])]))"
      by (simp add: process_packet_def example_config_def example_frame_def counting_packetize_def
          track_writer_def scripted_write_def frame_duration_def default_frame_duration_def from_millis_def
          video_clock_rate_def eq_ignore_ascii_case_def)
    then have "example_track_step (?t ?w4) \<lparr> sink_world = ?w4\<lparr> sender := Dequeuing, processed := processed ?w4 @ [?p] \<rparr>,
        packetizer = 2970, track = ([], [(0, [1, 2, 3])]) \<rparr>"
      using Sends [where t = "?t ?w4" and packet = ?p and bytes = "\<lambda>k. [1, 2, 3]" and config = example_config
          and packetize = counting_packetize and put = "track_writer scripted_write" and sink = ?sink]
      by simp
    then show "example_track_step (?t ?w4) (?u ?w5)"
      by (simp add: example_queued_def webrtc_initial_def)
  qed
  also have "example_track_step\<^sup>*\<^sup>* (?u ?w5) (?u (consume_step ?sink False EndOfStream ?w5))"
    by (intro idle' Consume) (simp_all add: webrtc_initial_def example_queued_def)
  also have "consume_step ?sink False EndOfStream ?w5 = ?w6"
    by (simp add: consume_step_def install_metrics_def shared_error_def example_queued_def webrtc_initial_def)
  also have "example_track_step\<^sup>*\<^sup>* (?u ?w6) (?u (close_step ?w6))"
    by (intro idle' Close) (simp_all add: webrtc_initial_def example_queued_def)
  also have "example_track_step\<^sup>*\<^sup>* (?u (close_step ?w6)) (?u (dequeue_step (close_step ?w6)))"
    by (intro idle' Dequeue) (simp_all add: close_step_def webrtc_initial_def example_queued_def)
  also have "dequeue_step (close_step ?w6) = ?w7"
    by (simp add: dequeue_step_def dequeue_section_def close_step_def example_queued_def webrtc_initial_def)
  also have "example_track_step\<^sup>*\<^sup>* (?u ?w7) (?u (?w7\<lparr> producer := FlushedWith (shared_error (shared ?w7)) \<rparr>))"
    by (intro idle' Flush) (simp_all add: webrtc_initial_def example_queued_def)
  also have "?u (?w7\<lparr> producer := FlushedWith (shared_error (shared ?w7)) \<rparr>) = example_sent"
    by (simp add: example_sent_def shared_error_def example_queued_def webrtc_initial_def)
  finally show ?thesis by (simp add: track_initial_def)
qed

theorem flush_reports_track_witness:
  "accepted (sink_world example_sent) = [example_frame True 0] \<and> snd (track example_sent) = [(0, [1, 2, 3])] \<and>
   sender_loop counting_packetize (track_writer scripted_write) example_config
     [(example_frame True 0, [1, 2, 3])] 0 ([Written 3], []) = (None, 2970, [], [(0, [1, 2, 3])])"
proof -
  have "producer (sink_world example_sent) = FlushedWith (Inr ())" by (simp add: example_sent_def)
  from flush_reports_track [OF example_new_configured example_sent_reachable this]
  show ?thesis by (auto simp: example_sent_def example_queued_def webrtc_initial_def)
qed

section \<open>The clock of the track\<close>

lemma floored_rate:
  fixes r c :: nat
  assumes r: "0 < r" and c: "c \<le> 10 ^ 9"
  shows "10 ^ 9 div r * c div 10 ^ 9 =
    (if c mod r * 10 ^ 9 < 10 ^ 9 mod r * c then c div r - 1 else c div r)"
proof -
  define q m k e where "q = 10 ^ 9 div r" and "m = 10 ^ 9 mod r" and "k = c div r" and "e = c mod r"
  have m: "m < r" and e: "e < r" using r by (simp_all add: m_def e_def)
  have "r * (q * c) + m * c = (r * q + m) * c" by (simp add: algebra_simps)
  also have "r * q + m = 10 ^ 9" by (simp add: q_def m_def)
  also have "10 ^ 9 * c = r * (10 ^ 9 * k) + e * 10 ^ 9"
  proof -
    have "c = r * k + e" by (simp add: k_def e_def)
    then have "10 ^ 9 * c = 10 ^ 9 * (r * k + e)" by simp
    then show ?thesis by (simp add: algebra_simps)
  qed
  finally have eq: "r * (q * c) + m * c = r * (10 ^ 9 * k) + e * 10 ^ 9" .
  show ?thesis
  proof (cases "e * 10 ^ 9 < m * c")
    case False
    have "r * (10 ^ 9 * k) \<le> r * (q * c)" using eq False by linarith
    then have low: "10 ^ 9 * k \<le> q * c" using r by simp
    have "e * 10 ^ 9 < r * 10 ^ 9" using e by simp
    then have "r * (q * c) < r * (10 ^ 9 * Suc k)" using eq by (simp add: algebra_simps)
    then have "q * c < 10 ^ 9 * Suc k" using r by simp
    with low False show ?thesis
      by (simp add: q_def m_def k_def e_def div_nat_eqI)
  next
    case True
    have "r * (q * c) < r * (10 ^ 9 * k)" using eq True by linarith
    then have up: "q * c < 10 ^ 9 * k" using r by simp
    then obtain j where j: "k = Suc j" by (cases k) simp_all
    have "m * c \<le> m * 10 ^ 9" using c by simp
    also have "\<dots> < r * 10 ^ 9" using m by simp
    finally have less: "m * c < r * 10 ^ 9" .
    have "r * (10 ^ 9 * k) = r * (10 ^ 9 * j) + r * 10 ^ 9" by (simp add: j algebra_simps)
    with eq less have "r * (10 ^ 9 * j) \<le> r * (q * c)" by linarith
    then have "10 ^ 9 * j \<le> q * c" using r by simp
    with up j have "q * c div 10 ^ 9 = j" by (intro div_nat_eqI) simp_all
    with True j show ?thesis by (simp add: q_def m_def k_def [symmetric] e_def)
  qed
qed

lemma nominal_nanos:
  "from_nanos (1000000000 div ucast (rate :: u32)) = 10 ^ 9 div unat rate"
proof -
  have "unat (ucast rate :: u64) = unat rate"
    using unsigned_less [of rate, where ?'a = nat] by (simp add: unsigned_ucast_eq take_bit_nat_eq_self)
  then show ?thesis by (simp add: from_nanos_def unat_div_word)
qed

text \<open>
  C12: the RTP clock loses ticks. If the sink paces the frames by the processing profile (its own default,
  or the duration that the FFmpeg worker takes from the profile) at \<open>r\<close> frames per second, and the
  clock has at most \<open>10^9\<close> ticks per second, then a frame advances the RTP time stamp by the whole ticks of
  \<open>c / r\<close>, or by one less exactly if what is cut off a frame's duration in nanoseconds outweighs the
  fraction of a tick, and always by at least one tick. In particular, at a rate of which the clock rate is a multiple,
  but not the rate itself, the advance is exact if the rate divides a second into whole nanoseconds, and one tick too little otherwise.
\<close>

theorem rtp_clock_drifts:
  assumes "cpl_processing pipeline = Some profile"
    and "sc_default_frame_duration config = output_frame_duration pipeline"
    and "ep_duration packet \<in> {None, frame_duration_from_processing profile}"
    and "r = unat (cp_out_frame_rate profile)" "c = unat (sc_clock_rate config)"
    and "0 < r" "c \<le> 10 ^ 9"
    and "samples = unat (duration_to_rtp_samples_with_rate (frame_duration config packet) (sc_clock_rate config))"
  shows "samples = max 1 (if c mod r * 10 ^ 9 < 10 ^ 9 mod r * c then c div r - 1 else c div r) \<and>
    (r dvd c \<and> r \<noteq> c \<and> 0 < c \<longrightarrow> samples = (if r dvd 10 ^ 9 then c div r else c div r - 1))"
proof -
  have nz: "cp_out_frame_rate profile \<noteq> 0" using assms(4,6) by (auto simp: unat_eq_0)
  have d: "frame_duration config packet = 10 ^ 9 div r"
    using assms(1-4) nz
    by (auto simp: frame_duration_def output_frame_duration_def frame_duration_from_processing_def nominal_nanos)
  let ?n = "if c mod r * 10 ^ 9 < 10 ^ 9 mod r * c then c div r - 1 else c div r"
  have "c div r \<le> 10 ^ 9" by (rule order_trans [OF div_le_dividend assms(7)])
  then have "?n \<le> 2 ^ 32 - 1" by (simp, linarith)
  moreover have "10 ^ 9 div r \<le> duration_max"
    by (rule order_trans [OF div_le_dividend]) (simp add: duration_max_def)
  ultimately have samples: "samples = max 1 ?n"
    using rtp_samples_exact [of "10 ^ 9 div r" "sc_clock_rate config"] floored_rate [OF assms(6,7)]
    by (simp add: d assms(8) flip: assms(5))
  moreover have "samples = (if r dvd 10 ^ 9 then c div r else c div r - 1)" if div: "r dvd c" "r \<noteq> c" "0 < c"
  proof -
    obtain k where k: "c = r * k" using div(1) by (auto simp: dvd_def)
    with div(2,3) assms(6) have "2 \<le> k" by (cases k; cases "k - 1") auto
    moreover have "0 < 10 ^ 9 mod r \<longleftrightarrow> \<not> r dvd 10 ^ 9" by (simp add: dvd_eq_mod_eq_0)
    ultimately show ?thesis using k div(3) assms(6) unfolding samples by auto
  qed
  ultimately show ?thesis by blast
qed

text \<open>At 30 frames per second and the usual clock, 2999 ticks instead of 3000.\<close>

definition thirty :: compiled_processing_profile where
  "thirty = \<lparr> cp_codec = ''h264'', cp_encoder = ''libx264'', cp_preset = ''ultrafast'', cp_tune = ''zerolatency'',
     cp_out_frame_rate = 30, cp_bitrate_bps = 2000000, cp_rotation = None \<rparr>"

theorem rtp_clock_drifts_witness:
  "unat (duration_to_rtp_samples_with_rate
     (frame_duration (example_config\<lparr> sc_default_frame_duration :=
        output_frame_duration (sentinel\<lparr> cpl_processing := Some thirty \<rparr>) \<rparr>) (example_frame True 0)) 90000) = 2999"
proof -
  have "\<not> (30 :: nat) dvd 1000000000" by (simp add: dvd_eq_mod_eq_0)
  moreover have "(30 :: nat) dvd 90000" by (simp add: dvd_eq_mod_eq_0)
  ultimately show ?thesis
    using rtp_clock_drifts [of "sentinel\<lparr> cpl_processing := Some thirty \<rparr>" thirty
        "example_config\<lparr> sc_default_frame_duration := output_frame_duration (sentinel\<lparr> cpl_processing := Some thirty \<rparr>) \<rparr>"
        "example_frame True 0" 30 90000]
    by (simp add: thirty_def example_config_def example_frame_def video_clock_rate_def)
qed

end
