(* ===== verification/Caml_Stages.thy ===== *)
theory Caml_Stages
  imports Caml_Adapters Caml_Source
begin

text \<open>
  A pipeline with the stages it is built of: \<open>run_pipeline_loop\<close> of \<^verbatim>\<open>crates/caml-core/src/runtime.rs\<close>
  with sources and sinks that have a state of their own and share the buffer pool of the run, and the
  sources and sinks of the repository in that form: the scripted source and the recorder of module
  \<open>mock\<close>, the FFmpeg source with the messages of its worker, and the recording sink. The stages have
  no transforms, as all adapters of the repository build them.

  A source or sink answers \<open>None\<close> if the code panics. A payload that is consumed is dropped, so its
  buffer goes back to the pool.
\<close>

section \<open>The loop with its stages\<close>

type_synonym 'src media_source = "'src \<Rightarrow> store \<Rightarrow> (select_outcome \<times> 'src \<times> store) option"
type_synonym 'snk media_sink =
  "media_payload \<Rightarrow> store \<Rightarrow> 'snk \<Rightarrow> ((runtime_error + unit) \<times> 'snk \<times> store) option"

definition answered :: "select_outcome \<Rightarrow> nat option \<Rightarrow> runtime_error + unit \<Rightarrow> tick" where
  "answered sel len r = \<lparr> tk_select = sel, tk_data_len = len, tk_transforms = [], tk_sink = (\<lambda>_. r) \<rparr>"

text \<open>One turn: the source is asked, and the sink gets what it gave. The result is what they answered.\<close>

definition stages_turn ::
  "'src media_source \<Rightarrow> 'snk media_sink \<Rightarrow> 'src \<times> 'snk \<times> store \<Rightarrow> (tick \<times> 'src \<times> 'snk \<times> store) option" where
  "stages_turn source sink state =
     (let (src, snk, st) = state in
      case source src st of
        None \<Rightarrow> None
      | Some (sel, src', st1) \<Rightarrow>
          (case sel of
             SourceNext (Inr payload) \<Rightarrow>
               if payload = EndOfStream then Some (answered sel None (Inr ()), src', snk, st1)
               else (case sink payload st1 snk of
                   None \<Rightarrow> None
                 | Some (r, snk', st2) \<Rightarrow>
                     Some (answered sel (map_option length (payload_data st1 payload)) r, src', snk', st2))
           | _ \<Rightarrow> Some (answered sel None (Inr ()), src', snk, st1)))"

text \<open>At most \<open>n\<close> turns of the loop; \<open>None\<close> as the exit says that it is still running.\<close>

fun run_stages ::
  "nat \<Rightarrow> 'src media_source \<Rightarrow> 'snk media_sink \<Rightarrow> compiled_pipeline \<Rightarrow> bool \<Rightarrow> 'src \<times> 'snk \<times> store
     \<Rightarrow> (pipeline_loop_exit option \<times> effect list \<times> 'src \<times> 'snk \<times> store) option" where
  "run_stages 0 source sink p metrics state = Some (None, [], state)"
| "run_stages (Suc n) source sink p metrics state =
     (case stages_turn source sink state of
        None \<Rightarrow> None
      | Some (t, state') \<Rightarrow>
          (case loop_turn p metrics t of
             (Some e, effects) \<Rightarrow> Some (Some e, effects, state')
           | (None, effects) \<Rightarrow>
               map_option (\<lambda>(r, effects', state''). (r, effects @ effects', state''))
                 (run_stages n source sink p metrics state')))"

text \<open>
  The runs of a pipeline under its supervisor, each with a pool of its own: the turns that the
  supervisor sees if every run is over after at most \<open>n\<close> turns of the loop and takes the time
  \<open>elapsed\<close>, and nobody cancels. After a recoverable exit there is another run, at most \<open>k\<close> in all.
\<close>

definition run_cycle :: "duration \<Rightarrow> pipeline_loop_exit \<Rightarrow> cycle" where
  "run_cycle elapsed e = \<lparr> cy_cancelled = False, cy_build = Some (Inr ()), cy_exit = Some e, cy_elapsed = elapsed,
     cy_cancelled_in_backoff = False \<rparr>"

fun stages_runs ::
  "nat \<Rightarrow> nat \<Rightarrow> 'src media_source \<Rightarrow> 'snk media_sink \<Rightarrow> compiled_pipeline \<Rightarrow> bool \<Rightarrow> duration \<Rightarrow> 'src \<times> 'snk
     \<Rightarrow> (cycle list \<times> 'src \<times> 'snk) option" where
  "stages_runs 0 n source sink p metrics elapsed (src, snk) = Some ([], src, snk)"
| "stages_runs (Suc k) n source sink p metrics elapsed (src, snk) =
     (case run_stages n source sink p metrics (src, snk, pipeline_pool p) of
        Some (Some e, effects, src', snk', st) \<Rightarrow>
          (case e of
             ExitRecoverable m \<Rightarrow>
               map_option (\<lambda>(cycles, state). (run_cycle elapsed e # cycles, state))
                 (stages_runs k n source sink p metrics elapsed (src', snk'))
           | _ \<Rightarrow> Some ([run_cycle elapsed e], src', snk'))
      | _ \<Rightarrow> None)"

text \<open>Dropping a payload.\<close>

fun drop_storage :: "media_storage \<Rightarrow> store \<Rightarrow> store option" where
  "drop_storage (Pooled buf) st = drop_pooled buf st"
| "drop_storage (Owned v) st = Some st"
| "drop_storage (BorrowedSlice s) st = Some st"
| "drop_storage (MappedFrame s) st = Some st"
| "drop_storage (FfmpegPacket s) st = Some st"

definition drop_payload :: "media_payload \<Rightarrow> store \<Rightarrow> store option" where
  "drop_payload payload st =
     (case payload_storage payload of None \<Rightarrow> Some st | Some storage \<Rightarrow> drop_storage storage st)"

section \<open>The mock adapters\<close>

datatype mock_action =
    MockPacket "u8 list"
  | MockSleep duration
  | MockStall
  | MockFail str
  | MockEndOfStream

text \<open>The scripts are shared, so a restarted pipeline goes on where the last run stopped.\<close>

definition mock_build_source ::
  "(str \<rightharpoonup> 'plan) \<Rightarrow> compiled_pipeline \<Rightarrow> runtime_error + 'plan" where
  "mock_build_source plans pipeline =
     ok_or (Adapter (''missing mock source plan for '' @ quoted (cpl_id pipeline))) (plans (cpl_id pipeline))"

definition mock_build_sink ::
  "(str \<rightharpoonup> 'recorder) \<Rightarrow> compiled_pipeline \<Rightarrow> runtime_error + 'recorder" where
  "mock_build_sink recorders pipeline =
     ok_or (Adapter (''missing mock sink recorder for '' @ quoted (cpl_id pipeline))) (recorders (cpl_id pipeline))"

definition mock_encoded :: "pooled_buffer \<Rightarrow> encoded_packet" where
  "mock_encoded buf =
     \<lparr> ep_codec = ''h264'', ep_timestamp = None, ep_duration = None, ep_is_keyframe = False,
       ep_data = Pooled buf \<rparr>"

text \<open>
  \<open>MockSource::next\<close> under the watchdog: \<open>in_time d\<close> says whether a source that has slept for \<open>d\<close>
  in this call still answers before the watchdog. A stalled source never answers. Actions that were
  taken stay taken when the watchdog elapses. The store is the memory of the pool; the text of the codec, which
  is allocated for every packet, is a value.
\<close>

fun mock_next :: "(duration \<Rightarrow> bool) \<Rightarrow> duration \<Rightarrow> mock_action list media_source" where
  "mock_next in_time slept [] st =
     Some (SourceNext (Inl (Source ''mock source exhausted its scripted actions'')), [], st)"
| "mock_next in_time slept (MockPacket payload # actions) st =
     map_option (\<lambda>(buf, st'). (SourceNext (Inr (EncodedPacket (mock_encoded buf))), actions, st'))
       (publish_payload payload st)"
| "mock_next in_time slept (MockSleep d # actions) st =
     (if in_time (slept + d) then mock_next in_time (slept + d) actions st
      else Some (WatchdogElapsed, actions, st))"
| "mock_next in_time slept (MockStall # actions) st = Some (WatchdogElapsed, actions, st)"
| "mock_next in_time slept (MockFail m # actions) st =
     Some (SourceNext (Inl (Recoverable m)), actions, st)"
| "mock_next in_time slept (MockEndOfStream # actions) st =
     Some (SourceNext (Inr EndOfStream), actions, st)"

record mock_recorder =
  mr_payloads :: "u8 list list"
  mr_addresses :: "nat list"

text \<open>
  \<open>MediaPayload::buffer_ptr\<close>: the address of the payload's bytes. Only the addresses of pooled buffers
  are part of the model; \<open>elsewhere\<close> gives those of other storage.
\<close>

fun storage_ptr :: "(media_storage \<Rightarrow> nat) \<Rightarrow> store \<Rightarrow> media_storage \<Rightarrow> nat option" where
  "storage_ptr elsewhere st (Pooled buf) =
     (if pb_slot_index buf < length (slots st)
      then Some (slot_ptr (slots st ! pb_slot_index buf)) else None)"
| "storage_ptr elsewhere st storage = Some (elsewhere storage)"

definition buffer_ptr :: "(media_storage \<Rightarrow> nat) \<Rightarrow> store \<Rightarrow> media_payload \<Rightarrow> nat option" where
  "buffer_ptr elsewhere st payload = Option.bind (payload_storage payload) (storage_ptr elsewhere st)"

text \<open>\<open>MockSink::consume\<close>; the copy of the bytes that the recorder keeps lies outside the pool and is a value.\<close>

definition mock_consume :: "(media_storage \<Rightarrow> nat) \<Rightarrow> mock_recorder media_sink" where
  "mock_consume elsewhere payload st recorder =
     (case payload_storage payload of
        None \<Rightarrow> Some (Inr (), recorder, st)
      | Some storage \<Rightarrow>
          (case (buffer_ptr elsewhere st payload, payload_data st payload) of
             (Some ptr, Some bytes) \<Rightarrow>
               map_option (\<lambda>st'. (Inr (),
                   recorder\<lparr> mr_addresses := mr_addresses recorder @ [ptr],
                     mr_payloads := mr_payloads recorder @ [bytes] \<rparr>, st'))
                 (drop_payload payload st)
           | _ \<Rightarrow> None))"

section \<open>The FFmpeg source and the recording sink\<close>

text \<open>
  \<open>FfmpegSource::next\<close> under the watchdog, over what arrives on its channel: a message, or nothing
  before the watchdog elapses. After the last arrival the worker is gone.
\<close>

datatype arrival = Arrives worker_message | Late

fun ffmpeg_next :: "arrival list media_source" where
  "ffmpeg_next [] st =
     map_option (\<lambda>(r, st'). (SourceNext r, [], st')) (ffmpeg_source_next None st)"
| "ffmpeg_next (Arrives m # arrivals) st =
     map_option (\<lambda>(r, st'). (SourceNext r, arrivals, st')) (ffmpeg_source_next (Some m) st)"
| "ffmpeg_next (Late # arrivals) st = Some (WatchdogElapsed, arrivals, st)"

definition recording_consume :: "recorded_packet list media_sink" where
  "recording_consume payload st packets =
     (case (recording_sink_consume st payload packets, drop_payload payload st) of
        (Some packets', Some st') \<Rightarrow> Some (Inr (), packets', st')
      | _ \<Rightarrow> None)"

end
