(* ===== verification/Caml_Stages_Correct.thy ===== *)
theory Caml_Stages_Correct
  imports Caml_Stages Caml_Pool_Correct
begin

text \<open>
  Pipelines end to end. A source and a sink are interfaces over the buffer pool they share; what a
  source offers reaches the sink unchanged and in order, and every buffer goes back to the pool. The
  mock adapters, the FFmpeg source and the recording sink are interpretations.
\<close>

section \<open>The loop with stages is the pipeline loop\<close>

text \<open>Whatever the stages are: the loop is \<open>run_pipeline_loop\<close> on what they answered.\<close>

lemma run_stages_is_loop:
  assumes "run_stages n source sink p metrics state = Some (r, effects, state')"
  shows "\<exists>ticks. length ticks \<le> n \<and> run_pipeline_loop p metrics ticks = (r, effects)"
  using assms
proof (induction n arbitrary: state effects)
  case 0
  then show ?case by (intro exI [of _ "[]"]) simp
next
  case (Suc n)
  then obtain t state1 where t: "stages_turn source sink state = Some (t, state1)"
    by (auto split: option.splits)
  obtain e es where l: "loop_turn p metrics t = (e, es)" by fastforce
  show ?case
  proof (cases e)
    case (Some x)
    with Suc.prems t l have "r = Some x" "effects = es" by simp_all
    with Some l show ?thesis by (intro exI [of _ "[t]"]) simp
  next
    case None
    with Suc.prems t l obtain es' where
      "run_stages n source sink p metrics state1 = Some (r, es', state')" "effects = es @ es'" by auto
    with Suc.IH obtain ticks where "length ticks \<le> n" "run_pipeline_loop p metrics ticks = (r, es')" by blast
    with None l \<open>effects = es @ es'\<close> show ?thesis by (intro exI [of _ "t # ticks"]) simp
  qed
qed

section \<open>A pool whose read handles are known\<close>

definition held :: "store \<Rightarrow> (pooled_buffer \<times> u8 list) list \<Rightarrow> bool" where
  "held st rs \<longleftrightarrow> pool_inv \<lparr> w_store = st, writers = [], readers = rs \<rparr> \<and>
     no_leak \<lparr> w_store = st, writers = [], readers = rs \<rparr>"

lemma held_new: "held (pool_new n) []"
  using initial_world_inv [of n] by (simp add: held_def initial_world_def no_leak_def pool_new_def)

lemma held_preallocate:
  assumes "held st rs"
  shows "held (preallocate n st) rs"
proof -
  let ?w = "\<lparr> w_store = st, writers = [], readers = rs \<rparr>"
  have s: "pool_step ?w \<lparr> w_store = preallocate n st, writers = [], readers = rs \<rparr>"
    using Preallocate [of ?w n] by simp
  with assms pool_step_inv [OF s] careful_no_leak [OF s] show ?thesis by (simp add: held_def)
qed

lemma held_pipeline_pool: "held (pipeline_pool p) []"
  by (simp add: pipeline_pool_def held_preallocate held_new)

lemma held_reads:
  assumes "held st ((r, d) # rs)"
  shows "as_slice r st = Some d"
  using assms fp.look_law [of "\<lparr> w_store = st, writers = [], readers = (r, d) # rs \<rparr>" r d]
  by (simp add: held_def)

lemma held_publish:
  assumes "held st rs"
  shows "\<exists>r st'. publish_payload d st = Some (r, st') \<and> held st' ((r, d) # rs)"
proof -
  let ?w0 = "\<lparr> w_store = st, writers = [], readers = rs \<rparr>"
  from assms have i0: "pool_inv ?w0" "no_leak ?w0" by (simp_all add: held_def)
  from fp.get_law [OF i0(1)] obtain b st1 where a: "acquire st = Some (b, st1)"
    and b: "vec_data (heap st1) (mb_bytes b) = []"
    by (auto simp: world_acquire_def world_holds_def)
  let ?w1 = "\<lparr> w_store = st1, writers = [b], readers = rs \<rparr>"
  have "pool_step ?w0 ?w1" using Acquire [of ?w0 b st1] a by simp
  with i0 have i1: "pool_inv ?w1" "no_leak ?w1" by (auto intro: pool_step_inv careful_no_leak)
  obtain b' st2 where e: "extend_from_slice d b st1 = (b', st2)" by fastforce
  let ?w2 = "\<lparr> w_store = st2, writers = [b'], readers = rs \<rparr>"
  have h1: "world_holds ?w1 b []" using b by (simp add: world_holds_def)
  have e2: "world_extend d b ?w1 = (b', ?w2)" using e by (simp add: world_extend_def)
  from fp.put_law [OF i1(1) h1 e2] have i2: "pool_inv ?w2" "world_holds ?w2 b' d" by simp_all
  have l2: "no_leak ?w2"
    using extend_inner [OF e] by (intro no_leakI [OF i1(2)]) auto
  from fp.seal_law [OF i2] obtain r st3 where f: "freeze b' st2 = Some (r, st3)"
    and i3: "pool_inv \<lparr> w_store = st3, writers = [], readers = (r, d) # rs \<rparr>"
    using i2(2) by (auto simp: world_freeze_def world_holds_def)
  have "no_leak \<lparr> w_store = st3, writers = [], readers = (r, d) # rs \<rparr>"
    using freeze_slots [OF f] by (intro no_leakI [OF l2]) auto
  with a e f i3 show ?thesis by (auto simp: publish_payload_def held_def)
qed

lemma held_drop:
  assumes "held st ((r, d) # rs)"
  shows "\<exists>st'. drop_pooled r st = Some st' \<and> held st' rs"
proof -
  let ?w = "\<lparr> w_store = st, writers = [], readers = (r, d) # rs \<rparr>"
  from assms have i: "pool_inv ?w" "no_leak ?w" by (simp_all add: held_def)
  then obtain own where "\<forall>i. slot_ok_in own st [] ((r, d) # rs) i"
    by (auto simp: pool_inv_def simp del: readers_of_simps)
  from reader_slot [OF this, of r d] have "pb_slot_index r < length (slots st)" by fastforce
  then have "drop_pooled r st \<noteq> None" by (simp add: drop_pooled_def Let_def)
  then obtain st' where dr: "drop_pooled r st = Some st'" by blast
  have s: "pool_step ?w \<lparr> w_store = st', writers = [], readers = rs \<rparr>"
    using DropReader [of ?w "[]" r d rs st'] dr by simp
  with i dr pool_step_inv [OF s] careful_no_leak [OF s] show ?thesis by (auto simp: held_def)
qed

text \<open>With no handle left, every buffer is available.\<close>

lemma held_none:
  assumes "held st []"
  shows "in_use (stats st) = 0"
  using assms no_leak_in_use [of "\<lparr> w_store = st, writers = [], readers = [] \<rparr>"]
  by (simp add: held_def)

section \<open>Sources and sinks as interfaces\<close>

text \<open>
  What a source offers, without its buffers: a packet but for its storage and the bytes, or how it ends
  the loop. A live source over a pool gives exactly that, the bytes in one new buffer.
\<close>

datatype offer = Offers encoded_packet "u8 list" | Ends select_outcome

fun ends_loop :: "select_outcome \<Rightarrow> bool" where
  "ends_loop (SourceNext (Inr payload)) = (payload = EndOfStream)"
| "ends_loop sel = True"

locale media_source =
  fixes source :: "'src media_source"
    and offer :: "'src \<Rightarrow> offer \<times> 'src"
    and size :: "'src \<Rightarrow> nat"
  assumes source_offers: "offer src = (Offers packet d, src') \<Longrightarrow> held st rs \<Longrightarrow>
      \<exists>buf st'. source src st = Some (SourceNext (Inr (EncodedPacket (packet\<lparr> ep_data := Pooled buf \<rparr>))), src', st') \<and>
        held st' ((buf, d) # rs)"
    and source_ends: "offer src = (Ends sel, src') \<Longrightarrow> source src st = Some (sel, src', st) \<and> ends_loop sel"
    and source_size: "offer src = (Offers packet d, src') \<Longrightarrow> size src' < size src"
begin

text \<open>Everything a source offers until it ends the loop.\<close>

fun offered :: "nat \<Rightarrow> 'src \<Rightarrow> (encoded_packet \<times> u8 list) list \<times> select_outcome option \<times> 'src" where
  "offered 0 src = ([], None, src)"
| "offered (Suc n) src =
     (case offer src of
        (Ends sel, src') \<Rightarrow> ([], Some sel, src')
      | (Offers packet d, src') \<Rightarrow> (let (xs, r) = offered n src' in ((packet, d) # xs, r)))"

lemma offered_ends: "size src < n \<Longrightarrow> \<exists>sel. fst (snd (offered n src)) = Some sel"
proof (induction n arbitrary: src)
  case (Suc n)
  show ?case
  proof (cases "offer src")
    case (Pair x src')
    show ?thesis
    proof (cases x)
      case (Offers packet d)
      with Pair source_size [of src packet d src'] Suc.prems have "size src' < n" by simp
      from Suc.IH [OF this] Pair Offers show ?thesis by (simp add: case_prod_beta)
    qed (use Pair in simp)
  qed
qed simp

end

text \<open>A sink that takes encoded packets and gives their buffers back. \<open>kept\<close> is what it has to show.\<close>

locale media_sink =
  fixes sink :: "'snk media_sink"
    and kept :: "'snk \<Rightarrow> 'v list"
    and entry :: "encoded_packet \<Rightarrow> u8 list \<Rightarrow> 'v"
  assumes sink_takes: "held st ((buf, d) # rs) \<Longrightarrow> ep_data packet = Pooled buf \<Longrightarrow>
      \<exists>snk' st'. sink (EncodedPacket packet) st snk = Some (Inr (), snk', st') \<and> held st' rs \<and>
        kept snk' = kept snk @ [entry packet d]"
    and entry_data: "entry (packet\<lparr> ep_data := storage \<rparr>) d = entry packet d"

text \<open>The exit of the loop that an answer of the source causes.\<close>

fun stop_exit :: "compiled_pipeline \<Rightarrow> select_outcome \<Rightarrow> pipeline_loop_exit" where
  "stop_exit p Cancelled = ExitCancelled"
| "stop_exit p WatchdogElapsed = ExitRecoverable (watchdog_message (rt_watchdog_timeout (cpl_runtime p)))"
| "stop_exit p (SourceNext (Inl error)) = pipeline_exit_from_error error"
| "stop_exit p (SourceNext (Inr payload)) = ExitEndOfStream"

lemma loop_turn_stop:
  "ends_loop sel \<Longrightarrow> fst (loop_turn p metrics (answered sel None (Inr ()))) = Some (stop_exit p sel)"
  by (cases sel rule: ends_loop.cases) (auto simp: loop_turn_def answered_def split: sum.split)

lemma loop_turn_packet:
  "fst (loop_turn p metrics (answered (SourceNext (Inr (EncodedPacket packet))) len (Inr ()))) = None"
  by (simp add: loop_turn_def answered_def)

locale media_path = media_source source offer size + media_sink sink kept entry
  for source :: "'src media_source" and offer size
    and sink :: "'snk media_sink" and kept :: "'snk \<Rightarrow> 'v list" and entry
begin

lemma path_turn:
  assumes "held st []"
  shows "case offer src of
      (Offers packet d, src') \<Rightarrow> \<exists>buf snk' st'.
        stages_turn source sink (src, snk, st) =
          Some (answered (SourceNext (Inr (EncodedPacket (packet\<lparr> ep_data := Pooled buf \<rparr>)))) (Some (length d)) (Inr ()),
            src', snk', st') \<and>
        held st' [] \<and> kept snk' = kept snk @ [entry packet d]
    | (Ends sel, src') \<Rightarrow> stages_turn source sink (src, snk, st) = Some (answered sel None (Inr ()), src', snk, st)"
proof (cases "offer src")
  case (Pair x src')
  show ?thesis
  proof (cases x)
    case (Offers packet d)
    from source_offers [OF Pair [unfolded Offers] assms] obtain buf st1 where
      s: "source src st = Some (SourceNext (Inr (EncodedPacket (packet\<lparr> ep_data := Pooled buf \<rparr>))), src', st1)"
      "held st1 [(buf, d)]" by blast
    have "ep_data (packet\<lparr> ep_data := Pooled buf \<rparr>) = Pooled buf" by simp
    from sink_takes [OF s(2) this, of snk] obtain snk' st2 where
      k: "sink (EncodedPacket (packet\<lparr> ep_data := Pooled buf \<rparr>)) st1 snk = Some (Inr (), snk', st2)" "held st2 []"
      "kept snk' = kept snk @ [entry packet d]" by (auto simp: entry_data)
    have "payload_data st1 (EncodedPacket (packet\<lparr> ep_data := Pooled buf \<rparr>)) = Some d"
      using held_reads [OF s(2)] by (simp add: payload_data_def)
    with s k Pair Offers show ?thesis by (auto simp: stages_turn_def)
  next
    case (Ends sel)
    from source_ends [OF Pair [unfolded Ends]] have "source src st = Some (sel, src', st)" "ends_loop sel"
      by simp_all
    then show ?thesis using Pair Ends
      by (cases sel rule: ends_loop.cases) (auto simp: stages_turn_def)
  qed
qed

lemma path_run:
  assumes "held st []"
  shows "\<exists>effects snk' st'. run_stages n source sink p metrics (src, snk, st) =
      Some (map_option (stop_exit p) (fst (snd (offered n src))), effects, snd (snd (offered n src)), snk', st') \<and>
    held st' [] \<and> kept snk' = kept snk @ map (\<lambda>(packet, d). entry packet d) (fst (offered n src))"
  using assms
proof (induction n arbitrary: src snk st)
  case (Suc n)
  show ?case
  proof (cases "offer src")
    case (Pair x src')
    show ?thesis
    proof (cases x)
      case (Offers packet d)
      from path_turn [OF Suc.prems, of src snk] Pair Offers obtain buf snk1 st1 where
        t: "stages_turn source sink (src, snk, st) =
          Some (answered (SourceNext (Inr (EncodedPacket (packet\<lparr> ep_data := Pooled buf \<rparr>)))) (Some (length d)) (Inr ()),
            src', snk1, st1)" "held st1 []" "kept snk1 = kept snk @ [entry packet d]"
        by auto
      obtain es where l: "loop_turn p metrics
          (answered (SourceNext (Inr (EncodedPacket (packet\<lparr> ep_data := Pooled buf \<rparr>)))) (Some (length d)) (Inr ())) =
          (None, es)"
        using loop_turn_packet by (metis prod.collapse)
      from Suc.IH [OF t(2), of src' snk1] show ?thesis
        using t l Pair Offers by (auto simp: case_prod_beta)
    next
      case (Ends sel)
      from source_ends [OF Pair [unfolded Ends]] have "ends_loop sel" by simp
      then obtain es where "loop_turn p metrics (answered sel None (Inr ())) = (Some (stop_exit p sel), es)"
        using loop_turn_stop by (metis prod.collapse)
      with path_turn [OF Suc.prems, of src snk] Pair Ends Suc.prems show ?thesis by auto
    qed
  qed
qed simp

end

section \<open>The sources\<close>

definition mock_header :: encoded_packet where
  "mock_header = \<lparr> ep_codec = ''h264'', ep_timestamp = None, ep_duration = None, ep_is_keyframe = False,
     ep_data = Owned [] \<rparr>"

fun mock_offer :: "(duration \<Rightarrow> bool) \<Rightarrow> duration \<Rightarrow> mock_action list \<Rightarrow> offer \<times> mock_action list" where
  "mock_offer in_time slept [] =
     (Ends (SourceNext (Inl (Source ''mock source exhausted its scripted actions''))), [])"
| "mock_offer in_time slept (MockPacket d # actions) = (Offers mock_header d, actions)"
| "mock_offer in_time slept (MockSleep d # actions) =
     (if in_time (slept + d) then mock_offer in_time (slept + d) actions else (Ends WatchdogElapsed, actions))"
| "mock_offer in_time slept (MockStall # actions) = (Ends WatchdogElapsed, actions)"
| "mock_offer in_time slept (MockFail m # actions) = (Ends (SourceNext (Inl (Recoverable m))), actions)"
| "mock_offer in_time slept (MockEndOfStream # actions) = (Ends (SourceNext (Inr EndOfStream)), actions)"

lemma mock_offer_length:
  "mock_offer in_time slept actions = (x, actions') \<Longrightarrow>
     length actions' \<le> length actions \<and> (\<forall>packet d. x = Offers packet d \<longrightarrow> length actions' < length actions)"
  by (induction in_time slept actions rule: mock_offer.induct) (fastforce split: if_splits)+

lemma mock_next_ends:
  "mock_offer in_time slept actions = (Ends sel, actions') \<Longrightarrow>
     mock_next in_time slept actions st = Some (sel, actions', st) \<and> ends_loop sel"
  by (induction in_time slept actions rule: mock_offer.induct) (auto split: if_splits)

lemma mock_next_offers:
  "mock_offer in_time slept actions = (Offers packet d, actions') \<Longrightarrow> held st rs \<Longrightarrow>
     \<exists>buf st'. mock_next in_time slept actions st =
         Some (SourceNext (Inr (EncodedPacket (packet\<lparr> ep_data := Pooled buf \<rparr>))), actions', st') \<and>
       held st' ((buf, d) # rs)"
proof (induction in_time slept actions rule: mock_offer.induct)
  case (2 in_time slept d actions)
  with held_publish [OF 2(2)] show ?case by (fastforce simp: mock_encoded_def mock_header_def)
qed (auto split: if_splits)

interpretation mock_source: media_source "mock_next in_time 0" "mock_offer in_time 0" length for in_time
proof
  fix src packet d src' rs and st :: store
  assume o: "mock_offer in_time 0 src = (Offers packet d, src')"
  then show "length src' < length src" using mock_offer_length by blast
  assume "held st rs"
  with o show "\<exists>buf st'. mock_next in_time 0 src st =
      Some (SourceNext (Inr (EncodedPacket (packet\<lparr> ep_data := Pooled buf \<rparr>))), src', st') \<and>
      held st' ((buf, d) # rs)"
    by (rule mock_next_offers)
next
  fix src sel src' and st :: store
  assume "mock_offer in_time 0 src = (Ends sel, src')"
  then show "mock_next in_time 0 src st = Some (sel, src', st) \<and> ends_loop sel" by (rule mock_next_ends)
qed

definition message_header :: "worker_packet \<Rightarrow> encoded_packet" where
  "message_header p = \<lparr> ep_codec = wp_codec p, ep_timestamp = wp_timestamp p, ep_duration = wp_duration p,
     ep_is_keyframe = wp_is_keyframe p, ep_data = Owned [] \<rparr>"

fun ffmpeg_offer :: "arrival list \<Rightarrow> offer \<times> arrival list" where
  "ffmpeg_offer [] = (Ends (SourceNext (Inr EndOfStream)), [])"
| "ffmpeg_offer (Late # arrivals) = (Ends WatchdogElapsed, arrivals)"
| "ffmpeg_offer (Arrives (PacketMessage p) # arrivals) = (Offers (message_header p) (wp_data p), arrivals)"
| "ffmpeg_offer (Arrives EndMessage # arrivals) = (Ends (SourceNext (Inr EndOfStream)), arrivals)"
| "ffmpeg_offer (Arrives (RecoverableMessage m) # arrivals) = (Ends (SourceNext (Inl (Recoverable m))), arrivals)"
| "ffmpeg_offer (Arrives (ErrorMessage m) # arrivals) = (Ends (SourceNext (Inl (Source m))), arrivals)"

interpretation ffmpeg_source: media_source ffmpeg_next ffmpeg_offer length
proof
  fix src packet d src' rs and st :: store
  assume o: "ffmpeg_offer src = (Offers packet d, src')"
  then obtain p where p: "src = Arrives (PacketMessage p) # src'" "packet = message_header p" "d = wp_data p"
    by (cases src rule: ffmpeg_offer.cases) auto
  then show "length src' < length src" by simp
  assume "held st rs"
  from held_publish [OF this, of d] p
  show "\<exists>buf st'. ffmpeg_next src st = Some (SourceNext (Inr (EncodedPacket (packet\<lparr> ep_data := Pooled buf \<rparr>))), src', st') \<and>
      held st' ((buf, d) # rs)"
    by (fastforce simp: message_header_def)
next
  fix src sel src' and st :: store
  assume "ffmpeg_offer src = (Ends sel, src')"
  then show "ffmpeg_next src st = Some (sel, src', st) \<and> ends_loop sel"
    by (cases src rule: ffmpeg_offer.cases) auto
qed

section \<open>The sinks\<close>

interpretation mock_sink: media_sink "mock_consume elsewhere" mr_payloads "\<lambda>packet d. d" for elsewhere
proof
  fix st rs buf d and packet :: encoded_packet and snk :: mock_recorder
  assume h: "held st ((buf, d) # rs)" and e: "ep_data packet = Pooled buf"
  from held_drop [OF h] obtain st' where dr: "drop_pooled buf st = Some st'" "held st' rs" by blast
  have r: "as_slice buf st = Some d" by (rule held_reads [OF h])
  then have "pb_slot_index buf < length (slots st)" by (auto simp: as_slice_def Let_def split: if_splits)
  with r dr e show "\<exists>snk' st'. mock_consume elsewhere (EncodedPacket packet) st snk = Some (Inr (), snk', st') \<and>
      held st' rs \<and> mr_payloads snk' = mr_payloads snk @ [d]"
    by (simp add: mock_consume_def buffer_ptr_def payload_data_def drop_payload_def)
qed simp

definition recorded_as :: "encoded_packet \<Rightarrow> u8 list \<Rightarrow> recorded_packet" where
  "recorded_as packet d = \<lparr> rc_codec = ep_codec packet, rc_bytes = length d,
     rc_is_keyframe = ep_is_keyframe packet, rc_timestamp = ep_timestamp packet \<rparr>"

lemma held_length:
  assumes "held st ((buf, d) # rs)"
  shows "storage_len st (Pooled buf) = Some (length d)"
proof -
  from assms obtain own where "\<forall>i. slot_ok_in own st [] ((buf, d) # rs) i"
    by (auto simp: held_def pool_inv_def simp del: readers_of_simps)
  from reader_slot [OF this, of buf d] show ?thesis by fastforce
qed

interpretation recording_sink: media_sink recording_consume "\<lambda>packets. packets" recorded_as
proof
  fix st rs buf d and packet :: encoded_packet and snk :: "recorded_packet list"
  assume h: "held st ((buf, d) # rs)" and e: "ep_data packet = Pooled buf"
  from held_drop [OF h] obtain st' where dr: "drop_pooled buf st = Some st'" "held st' rs" by blast
  with e held_length [OF h]
  show "\<exists>snk' st'. recording_consume (EncodedPacket packet) st snk = Some (Inr (), snk', st') \<and>
      held st' rs \<and> snk' = snk @ [recorded_as packet d]"
    by (simp add: recording_consume_def drop_payload_def recorded_as_def del: storage_len.simps)
qed (simp add: recorded_as_def)

end
