(* ===== verification/Caml_Path_Correct.thy ===== *)
theory Caml_Path_Correct
  imports Caml_Stages_Correct Caml_Runtime_Correct
begin

text \<open>
  Pipelines end to end, from the source to the sink through the pool: what is delivered, where the
  bytes lie in the pool on the way, and what restarts lose.
\<close>

section \<open>Pipelines end to end\<close>

interpretation mock_path: media_path "mock_next in_time 0" "mock_offer in_time 0" length
    "mock_consume elsewhere" mr_payloads "\<lambda>packet d. d" for in_time elsewhere ..

interpretation recording_path: media_path ffmpeg_next ffmpeg_offer length
    recording_consume "\<lambda>packets. packets" recorded_as ..

text \<open>What a script says: the packets before the loop ends, what ends it, and what is left.\<close>

fun mock_script ::
  "(duration \<Rightarrow> bool) \<Rightarrow> duration \<Rightarrow> mock_action list \<Rightarrow> u8 list list \<times> select_outcome \<times> mock_action list" where
  "mock_script in_time slept [] =
     ([], SourceNext (Inl (Source ''mock source exhausted its scripted actions'')), [])"
| "mock_script in_time slept (MockPacket d # actions) =
     (let (ds, r) = mock_script in_time 0 actions in (d # ds, r))"
| "mock_script in_time slept (MockSleep d # actions) =
     (if in_time (slept + d) then mock_script in_time (slept + d) actions else ([], WatchdogElapsed, actions))"
| "mock_script in_time slept (MockStall # actions) = ([], WatchdogElapsed, actions)"
| "mock_script in_time slept (MockFail m # actions) = ([], SourceNext (Inl (Recoverable m)), actions)"
| "mock_script in_time slept (MockEndOfStream # actions) = ([], SourceNext (Inr EndOfStream), actions)"

lemma mock_script_offer:
  "mock_script in_time slept actions =
     (case mock_offer in_time slept actions of
        (Ends sel, rest) \<Rightarrow> ([], sel, rest)
      | (Offers packet d, rest) \<Rightarrow> (let (ds, r) = mock_script in_time 0 rest in (d # ds, r)))"
  by (induction in_time slept actions rule: mock_offer.induct) auto

lemma mock_offered:
  "length actions < n \<Longrightarrow>
     map snd (fst (mock_source.offered in_time n actions)) = fst (mock_script in_time 0 actions) \<and>
     snd (mock_source.offered in_time n actions) =
       map_prod Some id (snd (mock_script in_time 0 actions))"
proof (induction n arbitrary: actions)
  case (Suc n)
  show ?case
  proof (cases "mock_offer in_time 0 actions")
    case (Pair x rest)
    show ?thesis
    proof (cases x)
      case (Offers packet d)
      with Pair have "length rest < n" using mock_offer_length [OF Pair] Suc.prems by auto
      from Suc.IH [OF this] Pair Offers show ?thesis
        by (subst (1 2) mock_script_offer) (simp add: case_prod_beta id_def)
    qed (subst (1 2) mock_script_offer, use Pair in simp)
  qed
qed simp

lemma mock_run:
  assumes "mock_script in_time 0 actions = (packets, sel, rest)" "length actions < n"
  shows "\<exists>effects recorder' st'.
    run_stages n (mock_next in_time 0) (mock_consume elsewhere) p metrics (actions, recorder, pipeline_pool p) =
      Some (Some (stop_exit p sel), effects, rest, recorder', st') \<and>
    mr_payloads recorder' = mr_payloads recorder @ packets \<and> in_use (stats st') = 0"
proof -
  from mock_path.path_run [OF held_pipeline_pool [of p], where in_time = in_time and n = n and src = actions
      and elsewhere = elsewhere and p = p and metrics = metrics and snk = recorder]
  obtain effects recorder' st' where
    r: "run_stages n (mock_next in_time 0) (mock_consume elsewhere) p metrics (actions, recorder, pipeline_pool p) =
      Some (map_option (stop_exit p) (fst (snd (mock_source.offered in_time n actions))), effects,
        snd (snd (mock_source.offered in_time n actions)), recorder', st')"
    "held st' []" "mr_payloads recorder' = mr_payloads recorder @ map snd (fst (mock_source.offered in_time n actions))"
    by (auto simp: case_prod_unfold)
  with mock_offered [OF assms(2), of in_time] assms(1) held_none [OF r(2)] show ?thesis by simp
qed

text \<open>
  C13: a pipeline from the mock source to the mock sink delivers exactly the packets of its script, byte
  by byte and in order, up to the first action that ends the run, exits as that action says, leaves
  the rest of the script to the next run and every buffer in the pool, and never panics; whatever
  the watchdog does.
\<close>

theorem mock_pipeline_exact:
  assumes "mock_script in_time 0 actions = (packets, sel, rest)" "length actions < n"
  shows "\<exists>effects recorder' st'.
    run_stages n (mock_next in_time 0) (mock_consume elsewhere) p metrics (actions, recorder, pipeline_pool p) =
      Some (Some (stop_exit p sel), effects, rest, recorder', st') \<and>
    mr_payloads recorder' = mr_payloads recorder @ packets \<and> in_use (stats st') = 0"
  by (rule mock_run [OF assms])

theorem mock_pipeline_exact_witness:
  "\<exists>effects recorder' st'.
    run_stages 6 (mock_next (\<lambda>d. d \<le> 10) 0) (mock_consume (\<lambda>_. 0)) sentinel True
        ([MockPacket [1, 2], MockSleep 5, MockPacket [3], MockFail ''lost'', MockPacket [4]],
         \<lparr> mr_payloads = [], mr_addresses = [] \<rparr>, pipeline_pool sentinel) =
      Some (Some (ExitRecoverable ''recoverable runtime error: lost''), effects, [MockPacket [4]], recorder', st') \<and>
    mr_payloads recorder' = [[1, 2], [3]] \<and> in_use (stats st') = 0"
proof -
  have "mock_script (\<lambda>d. d \<le> 10) 0 [MockPacket [1, 2], MockSleep 5, MockPacket [3], MockFail ''lost'', MockPacket [4]] =
      ([[1, 2], [3]], SourceNext (Inl (Recoverable ''lost'')), [MockPacket [4]])" by simp
  from mock_pipeline_exact [OF this, of 6 "\<lambda>_. 0" sentinel True "\<lparr> mr_payloads = [], mr_addresses = [] \<rparr>"]
  show ?thesis by (simp add: pipeline_exit_from_error_def)
qed

text \<open>What arrives from a worker before the loop ends, what ends it, and what is left.\<close>

fun arrived :: "arrival list \<Rightarrow> worker_packet list \<times> select_outcome \<times> arrival list" where
  "arrived [] = ([], SourceNext (Inr EndOfStream), [])"
| "arrived (Late # arrivals) = ([], WatchdogElapsed, arrivals)"
| "arrived (Arrives (PacketMessage p) # arrivals) = (let (ps, r) = arrived arrivals in (p # ps, r))"
| "arrived (Arrives EndMessage # arrivals) = ([], SourceNext (Inr EndOfStream), arrivals)"
| "arrived (Arrives (RecoverableMessage m) # arrivals) = ([], SourceNext (Inl (Recoverable m)), arrivals)"
| "arrived (Arrives (ErrorMessage m) # arrivals) = ([], SourceNext (Inl (Source m)), arrivals)"

definition recorded_message :: "worker_packet \<Rightarrow> recorded_packet" where
  "recorded_message p = \<lparr> rc_codec = wp_codec p, rc_bytes = length (wp_data p),
     rc_is_keyframe = wp_is_keyframe p, rc_timestamp = wp_timestamp p \<rparr>"

lemma ffmpeg_offered:
  "length arrivals < n \<Longrightarrow>
     map (\<lambda>(packet, d). recorded_as packet d) (fst (ffmpeg_source.offered n arrivals)) =
       map recorded_message (fst (arrived arrivals)) \<and>
     snd (ffmpeg_source.offered n arrivals) = map_prod Some id (snd (arrived arrivals))"
proof (induction n arbitrary: arrivals)
  case (Suc n)
  then show ?case
    by (cases arrivals rule: arrived.cases)
      (auto simp: case_prod_beta recorded_as_def recorded_message_def message_header_def)
qed simp

text \<open>
  A pipeline from an FFmpeg worker to the recording sink records exactly one line per packet the
  worker sent before the run ended, in order, with its codec, size, key frame flag and time stamp;
  the run ends as the first other message says, or with the watchdog, or when the worker is gone;
  every buffer is back in the pool and nothing panics.
\<close>

theorem ffmpeg_recording_exact:
  assumes "arrived arrivals = (messages, sel, rest)" "length arrivals < n"
  shows "\<exists>effects st'.
    run_stages n ffmpeg_next recording_consume p metrics (arrivals, packets, pipeline_pool p) =
      Some (Some (stop_exit p sel), effects, rest, packets @ map recorded_message messages, st') \<and>
    in_use (stats st') = 0"
proof -
  from recording_path.path_run [OF held_pipeline_pool [of p], where n = n and src = arrivals and p = p
      and metrics = metrics and snk = packets]
  obtain effects st' where
    "run_stages n ffmpeg_next recording_consume p metrics (arrivals, packets, pipeline_pool p) =
      Some (map_option (stop_exit p) (fst (snd (ffmpeg_source.offered n arrivals))), effects,
        snd (snd (ffmpeg_source.offered n arrivals)),
        packets @ map (\<lambda>(packet, d). recorded_as packet d) (fst (ffmpeg_source.offered n arrivals)), st')"
    "held st' []"
    by auto
  with ffmpeg_offered [OF assms(2)] assms(1) held_none show ?thesis by simp
qed

text \<open>The five packets of the scripted source.\<close>

theorem ffmpeg_recording_exact_witness:
  "\<exists>effects st'.
    run_stages 7 ffmpeg_next recording_consume sentinel True (map Arrives scripted_messages, [], pipeline_pool sentinel) =
      Some (Some ExitEndOfStream, effects, [], map (\<lambda>i. recorded_message (scripted_packet i)) [0..<5], st') \<and>
    in_use (stats st') = 0"
proof -
  have "arrived (map Arrives scripted_messages) = (map scripted_packet [0..<5], SourceNext (Inr EndOfStream), [])"
    by (simp add: scripted_messages_def numeral_eq_Suc)
  from ffmpeg_recording_exact [OF this, of 7 sentinel True "[]"] show ?thesis
    by (simp add: scripted_messages_def comp_def)
qed

section \<open>The hot path reuses a buffer\<close>

text \<open>A buffer with a vector lies on top of the free list.\<close>

definition parked :: "nat \<Rightarrow> vec \<Rightarrow> store \<Rightarrow> bool" where
  "parked idx v st \<longleftrightarrow> (\<exists>rest. free st = idx # rest) \<and> idx < length (slots st) \<and>
     slot_bytes (slots st ! idx) = Some v \<and> 0 < v_cap v"

lemma parked_preallocate_loop:
  assumes "0 < buffer_size st"
  shows "\<exists>idx v. parked idx v (preallocate_loop (Suc n) st) \<and> v_cap v = buffer_size st"
  using assms
proof (induction n arbitrary: st)
  case 0
  then show ?case
    by (auto simp: parked_def new_slot_def vec_alloc_def nth_append)
next
  case (Suc n)
  obtain v st1 where v: "vec_alloc (buffer_size st) [] st = (v, st1)" by fastforce
  let ?st2 = "set_free (length (slots st) # free st1) (set_slots (slots st1 @ [new_slot (Some v)]) st1)"
  have b: "buffer_size ?st2 = buffer_size st"
    using v by (auto simp: vec_alloc_def split: if_splits)
  have "preallocate_loop (Suc (Suc n)) st = preallocate_loop (Suc n) ?st2"
    by (subst preallocate_loop.simps) (simp only: v Let_def prod.case)
  with Suc.IH [of ?st2] Suc.prems b show ?case by simp
qed

lemma parked_pipeline_pool:
  assumes "rt_buffer_count (cpl_runtime p) \<noteq> 0"
  shows "\<exists>idx v. parked idx v (pipeline_pool p) \<and> unat (rt_buffer_size (cpl_runtime p)) \<le> v_cap v"
proof -
  obtain n where n: "unat (rt_buffer_count (cpl_runtime p)) = Suc n"
    using assms by (metis unat_eq_zero not0_implies_Suc)
  let ?st = "pool_new (unat (rt_buffer_size (cpl_runtime p)))"
  have "0 < buffer_size ?st" "unat (rt_buffer_size (cpl_runtime p)) \<le> buffer_size ?st"
    by (simp_all add: pool_new_def)
  moreover from parked_preallocate_loop [OF this(1), of n] obtain idx v where
    "parked idx v (preallocate_loop (Suc n) ?st)" "v_cap v = buffer_size ?st" by blast
  ultimately show ?thesis
    by (intro exI [of _ idx] exI [of _ v]) (simp add: pipeline_pool_def preallocate_def n parked_def
        del: preallocate_loop.simps)
qed

text \<open>A payload that fits is published in the parked buffer, and dropping it parks it again.\<close>

lemma parked_publish:
  assumes "parked idx v st" "length d \<le> v_cap v"
  obtains st1 st2 where "publish_payload d st = Some (\<lparr> pb_slot_index = idx \<rparr>, st1)"
    "slot_ptr (slots st1 ! idx) = v_ptr v" "drop_pooled \<lparr> pb_slot_index = idx \<rparr> st1 = Some st2"
    "parked idx v st2" "next_addr st2 = next_addr st"
proof -
  from assms(1) obtain rest where i: "free st = idx # rest" "idx < length (slots st)"
    "slot_bytes (slots st ! idx) = Some v" "0 < v_cap v" by (auto simp: parked_def)
  let ?b = "\<lparr> mb_bytes = v, mb_slot_index = idx \<rparr>"
  let ?s1 = "vec_write v [] (set_free rest
      (set_slots ((slots st)[idx := (slots st ! idx)\<lparr> slot_bytes := None \<rparr>]) st))"
  have a: "acquire st = Some (?b, ?s1)" using i by (simp add: acquire_def)
  have "vec_data (heap ?s1) v = []" using i(4) by (simp add: vec_data_def vec_write_def)
  then have e: "extend_from_slice d ?b ?s1 = (?b, vec_write v d ?s1)"
    using assms(2) by (simp add: extend_from_slice_def vec_extend_def Let_def)
  have f: "\<exists>s3. freeze ?b (vec_write v d ?s1) = Some (\<lparr> pb_slot_index = idx \<rparr>, s3) \<and>
      slots s3 ! idx = \<lparr> slot_bytes = Some v, slot_ptr = v_ptr v, slot_len = length d, slot_refs = 1 \<rparr> \<and>
      idx < length (slots s3) \<and> free s3 = rest \<and> next_addr s3 = next_addr st"
    using i by (simp add: freeze_def drop_stored_def vec_data_def vec_write_def)
  then obtain s3 where s3: "freeze ?b (vec_write v d ?s1) = Some (\<lparr> pb_slot_index = idx \<rparr>, s3)"
    "slots s3 ! idx = \<lparr> slot_bytes = Some v, slot_ptr = v_ptr v, slot_len = length d, slot_refs = 1 \<rparr>"
    "idx < length (slots s3)" "free s3 = rest" "next_addr s3 = next_addr st" by blast
  show ?thesis
  proof (rule that)
    show "publish_payload d st = Some (\<lparr> pb_slot_index = idx \<rparr>, s3)"
      using a e s3(1) by (simp add: publish_payload_def)
    show "slot_ptr (slots s3 ! idx) = v_ptr v" using s3(2) by simp
    let ?s4 = "set_free (idx # rest) (set_slots ((slots s3)[idx :=
        \<lparr> slot_bytes = Some v, slot_ptr = 0, slot_len = 0, slot_refs = 0 \<rparr>]) s3)"
    show "drop_pooled \<lparr> pb_slot_index = idx \<rparr> s3 = Some ?s4" using s3 by (simp add: drop_pooled_def Let_def)
    show "parked idx v ?s4" using s3 i(4) by (simp add: parked_def)
    show "next_addr ?s4 = next_addr st" using s3(5) by simp
  qed
qed

lemma mock_next_packet:
  "mock_offer in_time slept actions = (Offers packet d, rest) \<Longrightarrow>
     mock_next in_time slept actions st =
       map_option (\<lambda>(buf, st'). (SourceNext (Inr (EncodedPacket (mock_encoded buf))), rest, st'))
         (publish_payload d st)"
  by (induction in_time slept actions rule: mock_offer.induct) (auto split: if_splits)

lemma hot_turn:
  assumes "mock_offer in_time 0 actions = (Offers packet d, rest)" "parked idx v st" "held st []"
    and "length d \<le> v_cap v"
  obtains buf recorder' st' where "stages_turn (mock_next in_time 0) (mock_consume elsewhere) (actions, recorder, st) =
      Some (answered (SourceNext (Inr (EncodedPacket (mock_encoded buf)))) (Some (length d)) (Inr ()), rest, recorder', st')"
    "parked idx v st'" "held st' []" "next_addr st' = next_addr st"
    "mr_addresses recorder' = mr_addresses recorder @ [v_ptr v]"
proof -
  let ?buf = "\<lparr> pb_slot_index = idx \<rparr>"
  obtain st1 st2 where p: "publish_payload d st = Some (?buf, st1)" "slot_ptr (slots st1 ! idx) = v_ptr v"
    "drop_pooled ?buf st1 = Some st2" "parked idx v st2" "next_addr st2 = next_addr st"
    by (rule parked_publish [OF assms(2,4)])
  from held_publish [OF assms(3), of d] p(1) have h: "held st1 [(?buf, d)]" by auto
  with held_drop [OF h] p(3) have h2: "held st2 []" by auto
  have r: "as_slice ?buf st1 = Some d" by (rule held_reads [OF h])
  then have "idx < length (slots st1)" by (auto simp: as_slice_def Let_def split: if_splits)
  with r p mock_next_packet [OF assms(1), of st]
  have "stages_turn (mock_next in_time 0) (mock_consume elsewhere) (actions, recorder, st) =
      Some (answered (SourceNext (Inr (EncodedPacket (mock_encoded ?buf)))) (Some (length d)) (Inr ()), rest,
        recorder\<lparr> mr_addresses := mr_addresses recorder @ [v_ptr v], mr_payloads := mr_payloads recorder @ [d] \<rparr>, st2)"
    by (simp add: stages_turn_def mock_consume_def buffer_ptr_def payload_data_def drop_payload_def mock_encoded_def)
  from that [OF this p(4) h2 p(5)] show ?thesis by simp
qed

lemma hot_run:
  assumes "parked idx v st" "held st []" "length actions < n"
    and "\<forall>d \<in> set (fst (mock_script in_time 0 actions)). length d \<le> v_cap v"
  shows "\<exists>effects recorder' st'.
    run_stages n (mock_next in_time 0) (mock_consume elsewhere) p metrics (actions, recorder, st) =
      Some (Some (stop_exit p (fst (snd (mock_script in_time 0 actions)))), effects,
        snd (snd (mock_script in_time 0 actions)), recorder', st') \<and>
    next_addr st' = next_addr st \<and> mr_addresses recorder' =
      mr_addresses recorder @ replicate (length (fst (mock_script in_time 0 actions))) (v_ptr v)"
  using assms
proof (induction n arbitrary: actions recorder st)
  case (Suc n)
  show ?case
  proof (cases "mock_offer in_time 0 actions")
    case (Pair x rest)
    show ?thesis
    proof (cases x)
      case (Offers packet d)
      with Pair have o: "mock_offer in_time 0 actions = (Offers packet d, rest)" by simp
      have m: "mock_script in_time 0 actions =
          (d # fst (mock_script in_time 0 rest), snd (mock_script in_time 0 rest))"
        by (subst mock_script_offer) (simp add: o case_prod_beta)
      with Suc.prems(4) have "length d \<le> v_cap v" by simp
      with Suc.prems obtain buf recorder1 st1 where t:
        "stages_turn (mock_next in_time 0) (mock_consume elsewhere) (actions, recorder, st) =
          Some (answered (SourceNext (Inr (EncodedPacket (mock_encoded buf)))) (Some (length d)) (Inr ()), rest, recorder1, st1)"
        "parked idx v st1" "held st1 []" "next_addr st1 = next_addr st"
        "mr_addresses recorder1 = mr_addresses recorder @ [v_ptr v]"
        using hot_turn [OF o, of idx v st] by metis
      obtain es where l: "loop_turn p metrics
          (answered (SourceNext (Inr (EncodedPacket (mock_encoded buf)))) (Some (length d)) (Inr ())) = (None, es)"
        using loop_turn_packet by (metis prod.collapse)
      have "length rest < n" using mock_offer_length [OF o] Suc.prems(3) by auto
      with Suc.IH [OF t(2,3), of rest recorder1] Suc.prems(4) m obtain effects recorder' st' where
        "run_stages n (mock_next in_time 0) (mock_consume elsewhere) p metrics (rest, recorder1, st1) =
          Some (Some (stop_exit p (fst (snd (mock_script in_time 0 rest)))), effects,
            snd (snd (mock_script in_time 0 rest)), recorder', st')"
        "next_addr st' = next_addr st1" "mr_addresses recorder' =
          mr_addresses recorder1 @ replicate (length (fst (mock_script in_time 0 rest))) (v_ptr v)"
        by auto
      with t l m show ?thesis by simp
    next
      case (Ends sel)
      with Pair have o: "mock_offer in_time 0 actions = (Ends sel, rest)" by simp
      then have m: "mock_script in_time 0 actions = ([], sel, rest)"
        by (subst mock_script_offer) simp
      from mock_next_ends [OF o] have "ends_loop sel" by simp
      then obtain es where l: "loop_turn p metrics (answered sel None (Inr ())) = (Some (stop_exit p sel), es)"
        using loop_turn_stop by (metis prod.collapse)
      from mock_path.path_turn [OF Suc.prems(2), where in_time = in_time and src = actions
          and snk = recorder and elsewhere = elsewhere] o l m
      show ?thesis by simp
    qed
  qed
qed simp

text \<open>
  C14: the hot path goes through one buffer of the pool: if a pipeline has a preallocated buffer and no
  packet of the mock source is larger than the planned buffer size, then any number of packets reaches the
  mock sink at the same address, and the pool allocates no memory for them. What the mock adapters allocate
  besides, the text of a codec and the copies that the recorder keeps, is not the pool's and is not counted.
\<close>

theorem hot_path_reuses_one_buffer:
  assumes "mock_script in_time 0 actions = (packets, sel, rest)" "length actions < n"
    and "\<forall>d \<in> set packets. length d \<le> unat (rt_buffer_size (cpl_runtime p))"
    and "rt_buffer_count (cpl_runtime p) \<noteq> 0"
  shows "\<exists>effects recorder' st' addr.
    run_stages n (mock_next in_time 0) (mock_consume elsewhere) p metrics (actions, recorder, pipeline_pool p) =
      Some (Some (stop_exit p sel), effects, rest, recorder', st') \<and>
    next_addr st' = next_addr (pipeline_pool p) \<and>
    mr_addresses recorder' = mr_addresses recorder @ replicate (length packets) addr"
proof -
  from parked_pipeline_pool [OF assms(4)] obtain idx v where
    v: "parked idx v (pipeline_pool p)" "unat (rt_buffer_size (cpl_runtime p)) \<le> v_cap v" by blast
  then have "\<forall>d \<in> set (fst (mock_script in_time 0 actions)). length d \<le> v_cap v"
    using assms(1,3) by auto
  from hot_run [OF v(1) held_pipeline_pool assms(2) this, of elsewhere p metrics recorder] assms(1)
  show ?thesis by simp blast
qed

definition hot_pipeline :: compiled_pipeline where
  "hot_pipeline = sentinel\<lparr> cpl_runtime := (cpl_runtime sentinel)\<lparr> rt_buffer_size := 4, rt_buffer_count := 1 \<rparr> \<rparr>"

lemma hot_pipeline_runtime:
  "rt_buffer_size (cpl_runtime hot_pipeline) = 4" "rt_buffer_count (cpl_runtime hot_pipeline) = 1"
  by (simp_all add: hot_pipeline_def)

lemma replicate_2: "replicate (Suc (Suc 0)) x = [x, x]"
  by simp

theorem hot_path_reuses_one_buffer_witness:
  "\<exists>effects recorder' st' addr.
    run_stages 4 (mock_next (\<lambda>_. True) 0) (mock_consume (\<lambda>_. 0)) hot_pipeline False
        ([MockPacket [1, 2, 3, 4], MockPacket [5], MockEndOfStream], \<lparr> mr_payloads = [], mr_addresses = [] \<rparr>,
         pipeline_pool hot_pipeline) =
      Some (Some ExitEndOfStream, effects, [], recorder', st') \<and>
    next_addr st' = next_addr (pipeline_pool hot_pipeline) \<and> mr_addresses recorder' = [addr, addr]"
proof -
  have "mock_script (\<lambda>_. True) 0 [MockPacket [1, 2, 3, 4], MockPacket [5], MockEndOfStream] =
      ([[1, 2, 3, 4], [5]], SourceNext (Inr EndOfStream), [])" by simp
  from hot_path_reuses_one_buffer [OF this, of 4 hot_pipeline "\<lambda>_. 0" False "\<lparr> mr_payloads = [], mr_addresses = [] \<rparr>"]
  show ?thesis by (simp add: hot_pipeline_runtime replicate_2 del: run_stages.simps)
qed

section \<open>Restarts\<close>

text \<open>A supervisor that sees recoverable runs and then the end of the stream.\<close>

lemma supervise_recovers:
  assumes "cpl_recovery p = recovery_policy_of cls" "elapsed < reset_after (cpl_recovery p)"
    and "unat attempts + length messages \<le> restart_limit p"
    and "supervise_pipeline_task p metrics attempts
      (map (\<lambda>m. run_cycle elapsed (ExitRecoverable m)) messages @ [run_cycle elapsed ExitEndOfStream]) h = (e, h')"
  shows "e = Finished \<and> statuses h' (cpl_id p) = Some Stopped \<and> length (sleeps h') = length (sleeps h) + length messages"
  using assms(3,4)
proof (induction messages arbitrary: attempts h)
  case Nil
  then show ?case by (auto simp: run_cycle_def Let_def)
next
  case (Cons m messages)
  let ?c = "run_cycle elapsed (ExitRecoverable m)"
  have same: "counted p ?c attempts = attempts" using assms(2) by (simp add: counted_def run_cycle_def)
  have c: "\<not> cy_cancelled ?c" "cy_build ?c = Some (Inr ())" "cy_exit ?c = Some (ExitRecoverable m)" "\<not> cy_cancelled_in_backoff ?c"
    by (simp_all add: run_cycle_def)
  have r: "counted p ?c attempts < max_restarts (cpl_recovery p)"
    using Cons.prems(1) by (simp add: same word_less_nat_alt)
  define n where "n = attempts + 1"
  define h2 where "h2 = note_restart p metrics n m (announce_running p h)"
  define h3 where "h3 = h2\<lparr> sleeps := sleeps h2 @ [wait (cpl_recovery p) (unat attempts)] \<rparr>"
  have n: "unat n = Suc (unat attempts)" "Suc (unat attempts) \<le> restart_limit p"
    using unat_next [OF r] by (simp_all add: n_def same)
  then have b: "backoff (cpl_recovery p) n = Some (wait (cpl_recovery p) (unat attempts))"
    using compiled_wait [of n cls] assms(1) by simp
  note sup = supervise_restart [OF c(1-3) r, of metrics
      "map (\<lambda>m. run_cycle elapsed (ExitRecoverable m)) messages @ [run_cycle elapsed ExitEndOfStream]" h,
      unfolded same, folded n_def, unfolded Let_def, folded h2_def]
  have "supervise_pipeline_task p metrics n
      (map (\<lambda>m. run_cycle elapsed (ExitRecoverable m)) messages @ [run_cycle elapsed ExitEndOfStream]) h3 = (e, h')"
    using sup b c(4) Cons.prems(2) by (simp add: h3_def)
  from Cons.IH [OF _ this] n Cons.prems(1) show ?case by (simp add: h3_def h2_def)
qed

text \<open>The packets of a script, and how often it interrupts the run that can be restarted.\<close>

fun scripted_packets :: "mock_action list \<Rightarrow> u8 list list" where
  "scripted_packets [] = []"
| "scripted_packets (MockPacket d # actions) = d # scripted_packets actions"
| "scripted_packets (MockSleep d # actions) = scripted_packets actions"
| "scripted_packets (MockStall # actions) = scripted_packets actions"
| "scripted_packets (MockFail m # actions) = scripted_packets actions"
| "scripted_packets (MockEndOfStream # actions) = scripted_packets actions"

fun interruptions :: "mock_action list \<Rightarrow> nat" where
  "interruptions [] = 0"
| "interruptions (MockStall # actions) = Suc (interruptions actions)"
| "interruptions (MockFail m # actions) = Suc (interruptions actions)"
| "interruptions (_ # actions) = interruptions actions"

lemma mock_script_body:
  assumes "MockEndOfStream \<notin> set body"
  shows "case mock_script (\<lambda>_. True) slept (body @ MockEndOfStream # after) of (ds, sel, rest) \<Rightarrow>
    if interruptions body = 0 then ds = scripted_packets body \<and> sel = SourceNext (Inr EndOfStream) \<and> rest = after
    else \<exists>body'. rest = body' @ MockEndOfStream # after \<and> MockEndOfStream \<notin> set body' \<and>
      scripted_packets body = ds @ scripted_packets body' \<and> interruptions body = Suc (interruptions body') \<and>
      length body' < length body \<and> (\<exists>m. stop_exit p sel = ExitRecoverable m)"
  using assms
proof (induction body arbitrary: slept rule: scripted_packets.induct)
  case (2 d actions)
  then have "MockEndOfStream \<notin> set actions" by simp
  from 2(1) [OF this, of 0] show ?case
    by (cases "mock_script (\<lambda>_. True) 0 (actions @ MockEndOfStream # after)") (auto split: if_splits)
next
  case (3 d actions)
  then have "MockEndOfStream \<notin> set actions" by simp
  from 3(1) [OF this, of "slept + d"] show ?case
    by (cases "mock_script (\<lambda>_. True) (slept + d) (actions @ MockEndOfStream # after)") (auto split: if_splits)
qed (auto simp: pipeline_exit_from_error_def)

lemma mock_runs:
  assumes "MockEndOfStream \<notin> set body" "interruptions body < k"
    and "length (body @ MockEndOfStream # after) < n"
  shows "\<exists>messages recorder'.
    stages_runs k n (mock_next (\<lambda>_. True) 0) (mock_consume elsewhere) p metrics elapsed
        (body @ MockEndOfStream # after, recorder) =
      Some (map (\<lambda>m. run_cycle elapsed (ExitRecoverable m)) messages @ [run_cycle elapsed ExitEndOfStream],
        after, recorder') \<and>
    length messages = interruptions body \<and>
    mr_payloads recorder' = mr_payloads recorder @ scripted_packets body"
  using assms
proof (induction k arbitrary: body recorder)
  case (Suc k)
  let ?src = "body @ MockEndOfStream # after"
  obtain ds sel rest where m: "mock_script (\<lambda>_. True) 0 ?src = (ds, sel, rest)"
    by (cases "mock_script (\<lambda>_. True) 0 ?src") auto
  from mock_run [OF m Suc.prems(3), of elsewhere p metrics recorder] obtain effects recorder1 st where
    r: "run_stages n (mock_next (\<lambda>_. True) 0) (mock_consume elsewhere) p metrics (?src, recorder, pipeline_pool p) =
      Some (Some (stop_exit p sel), effects, rest, recorder1, st)"
    "mr_payloads recorder1 = mr_payloads recorder @ ds" by blast
  note body = mock_script_body [OF Suc.prems(1), where slept = 0 and after = after and p = p, unfolded m prod.case]
  show ?case
  proof (cases "interruptions body = 0")
    case True
    with body r show ?thesis by (intro exI [of _ "[]"] exI [of _ recorder1]) simp
  next
    case False
    with body obtain body' msg where b: "rest = body' @ MockEndOfStream # after" "MockEndOfStream \<notin> set body'"
      "scripted_packets body = ds @ scripted_packets body'" "interruptions body = Suc (interruptions body')"
      "length body' < length body" "stop_exit p sel = ExitRecoverable msg" by auto
    from Suc.IH [OF b(2), of recorder1] Suc.prems(2,3) b(4,5) obtain messages recorder' where
      "stages_runs k n (mock_next (\<lambda>_. True) 0) (mock_consume elsewhere) p metrics elapsed
          (body' @ MockEndOfStream # after, recorder1) =
        Some (map (\<lambda>m. run_cycle elapsed (ExitRecoverable m)) messages @ [run_cycle elapsed ExitEndOfStream],
          after, recorder')"
      "length messages = interruptions body'"
      "mr_payloads recorder' = mr_payloads recorder1 @ scripted_packets body'"
      by auto
    with r b show ?thesis by (intro exI [of _ "msg # messages"] exI [of _ recorder']) simp
  qed
qed simp

text \<open>
  C15: a restart loses and repeats nothing: a compiled pipeline whose scripted source, with every sleep
  short enough for the watchdog, is interrupted no more often than the policy restarts it delivers every packet before the end of the stream exactly once
  and in order, over all its runs, waits once per interruption, and ends with the status stopped.
\<close>

theorem restarts_lose_nothing:
  assumes "cpl_recovery p = recovery_policy_of cls" "elapsed < reset_after (cpl_recovery p)"
    and "MockEndOfStream \<notin> set body" "interruptions body \<le> restart_limit p"
    and "length (body @ MockEndOfStream # after) < n" "interruptions body < k"
  shows "\<exists>cycles recorder' h'.
    stages_runs k n (mock_next (\<lambda>_. True) 0) (mock_consume elsewhere) p metrics elapsed
        (body @ MockEndOfStream # after, recorder) = Some (cycles, after, recorder') \<and>
    mr_payloads recorder' = mr_payloads recorder @ scripted_packets body \<and>
    supervise_pipeline_task p metrics 0 cycles h = (Finished, h') \<and>
    statuses h' (cpl_id p) = Some Stopped \<and> length (sleeps h') = length (sleeps h) + interruptions body"
proof -
  from mock_runs [OF assms(3,6,5), of elsewhere p metrics elapsed recorder] obtain messages recorder' where
    r: "stages_runs k n (mock_next (\<lambda>_. True) 0) (mock_consume elsewhere) p metrics elapsed
        (body @ MockEndOfStream # after, recorder) =
      Some (map (\<lambda>m. run_cycle elapsed (ExitRecoverable m)) messages @ [run_cycle elapsed ExitEndOfStream],
        after, recorder')"
    "length messages = interruptions body" "mr_payloads recorder' = mr_payloads recorder @ scripted_packets body"
    by blast
  obtain e h' where s: "supervise_pipeline_task p metrics 0
      (map (\<lambda>m. run_cycle elapsed (ExitRecoverable m)) messages @ [run_cycle elapsed ExitEndOfStream]) h = (e, h')"
    by fastforce
  from supervise_recovers [OF assms(1,2) _ s] assms(4) r s show ?thesis by auto
qed

theorem restarts_lose_nothing_witness:
  "\<exists>cycles recorder' h'.
    stages_runs 2 7 (mock_next (\<lambda>_. True) 0) (mock_consume (\<lambda>_. 0)) example_pipeline False 0
        ([MockPacket [1], MockFail ''lost'', MockSleep 5, MockPacket [2], MockEndOfStream],
         \<lparr> mr_payloads = [], mr_addresses = [] \<rparr>) = Some (cycles, [], recorder') \<and>
    mr_payloads recorder' = [[1], [2]] \<and>
    supervise_pipeline_task example_pipeline False 0 cycles example_inner = (Finished, h') \<and>
    statuses h' ''__sentinel__'' = Some Stopped \<and> length (sleeps h') = 1"
  using restarts_lose_nothing [of example_pipeline RecoverNetwork 0
      "[MockPacket [1], MockFail ''lost'', MockSleep 5, MockPacket [2]]" "[]" 7 2 "\<lambda>_. 0" False
      "\<lparr> mr_payloads = [], mr_addresses = [] \<rparr>" example_inner]
  by (simp add: from_secs_def del: stages_runs.simps supervise_pipeline_task.simps)

end
