(* ===== verification/Caml_Live.thy ===== *)
theory Caml_Live
  imports Caml_Stages Caml_Track
begin

text \<open>
  A pipeline with a WebRTC output while it runs: the pipeline loop of
  \<^verbatim>\<open>crates/caml-core/src/runtime.rs\<close> takes payloads from its source and awaits \<open>consume\<close> of the WebRTC
  sink (\<^verbatim>\<open>crates/caml-webrtc/src/lib.rs\<close>), while the sender task of the sink works on the packets in
  the queue. Both share the buffer pool of the run: a packet owns a handle to its buffer, which it takes
  along into the queue and to the sender, and which goes back to the pool when the packet is dropped.
  Where a packet is dropped follows from who owns it: an error or a refusal drops the packet at hand, an
  eviction the packet that left the queue, and the sender drops a packet when it is done with it.
\<close>

section \<open>Who drops a packet\<close>

definition consume_drops :: "media_payload \<Rightarrow> webrtc_world \<Rightarrow> media_storage list" where
  "consume_drops payload w =
     (case payload of
        EncodedPacket packet \<Rightarrow>
          (case shared_error (shared w) of Inl _ \<Rightarrow> [ep_data packet] | Inr _ \<Rightarrow> [])
      | DecodedFrame frame \<Rightarrow> [df_data frame]
      | EndOfStream \<Rightarrow> [])"

definition check_drops :: "encoded_packet \<Rightarrow> webrtc_world \<Rightarrow> media_storage list" where
  "check_drops packet w = (case shared_error (shared w) of Inl _ \<Rightarrow> [ep_data packet] | Inr _ \<Rightarrow> [])"

definition enqueue_drops :: "webrtc_sink \<Rightarrow> encoded_packet \<Rightarrow> webrtc_shared \<Rightarrow> media_storage list" where
  "enqueue_drops sink packet s =
     (case fst (enqueue_section sink packet s) of
        Enqueued \<Rightarrow> []
      | Evicted dropped \<Rightarrow> (case dropped of None \<Rightarrow> [] | Some d \<Rightarrow> [ep_data d])
      | Refused \<Rightarrow> [ep_data packet]
      | WaitForCapacity \<Rightarrow> []
      | EnqueueClosed _ \<Rightarrow> [ep_data packet])"

fun drop_storages :: "media_storage list \<Rightarrow> store \<Rightarrow> store option" where
  "drop_storages [] st = Some st"
| "drop_storages (storage # rest) st = Option.bind (drop_storage storage st) (drop_storages rest)"

section \<open>The running pipeline\<close>

text \<open>
  \<open>lv_exit\<close> is how the pipeline loop has ended; the sender goes on. \<open>lv_panicked\<close> says that some operation
  has panicked. \<open>lv_taken\<close> is a ghost: the packets that the loop handed to the sink, with their bytes.
\<close>

record ('src, 'p, 'w) live =
  lv_source :: 'src
  lv_pool :: store
  lv_sink :: "('p, 'w) track_world"
  lv_exit :: "pipeline_loop_exit option"
  lv_panicked :: bool
  lv_taken :: "(encoded_packet \<times> u8 list) list"

definition lv_world :: "('src, 'p, 'w) live \<Rightarrow> webrtc_world" where
  "lv_world s = sink_world (lv_sink s)"

definition panic :: "('src, 'p, 'w) live \<Rightarrow> ('src, 'p, 'w) live" where
  "panic s = s\<lparr> lv_panicked := True \<rparr>"

text \<open>The sink goes on, and what it has dropped returns its buffer.\<close>

definition advance ::
  "webrtc_world \<Rightarrow> media_storage list \<Rightarrow> ('src, 'p, 'w) live \<Rightarrow> ('src, 'p, 'w) live" where
  "advance w dropped s =
     (case drop_storages dropped (lv_pool s) of
        None \<Rightarrow> panic s
      | Some pool \<Rightarrow> s\<lparr> lv_pool := pool, lv_sink := (lv_sink s)\<lparr> sink_world := w \<rparr> \<rparr>)"

text \<open>The loop asks the source, and hands its payload to the sink unless the run is over.\<close>

definition take_step ::
  "'src media_source \<Rightarrow> webrtc_sink \<Rightarrow> compiled_pipeline \<Rightarrow> bool \<Rightarrow> ('src, 'p, 'w) live \<Rightarrow> ('src, 'p, 'w) live" where
  "take_step source sink p metrics s =
     (case source (lv_source s) (lv_pool s) of
        None \<Rightarrow> panic s
      | Some (sel, src, pool) \<Rightarrow>
          (let s1 = s\<lparr> lv_source := src, lv_pool := pool \<rparr>;
               over = s1\<lparr> lv_exit := fst (loop_turn p metrics (answered sel None (Inr ()))) \<rparr> in
           case sel of
             SourceNext (Inr payload) \<Rightarrow>
               if payload = EndOfStream then over
               else (case payload_data pool payload of
                   None \<Rightarrow> panic s
                 | Some bytes \<Rightarrow>
                     advance (consume_step sink metrics payload (lv_world s)) (consume_drops payload (lv_world s))
                       (s1\<lparr> lv_taken := lv_taken s @
                          (case payload of EncodedPacket packet \<Rightarrow> [(packet, bytes)] | _ \<Rightarrow> []) \<rparr>))
           | _ \<Rightarrow> over))"

text \<open>
  The sender reads the bytes of its packet, sends them, and drops the packet. The copy of them that it hands to the
  packetizer (\<open>Bytes::copy_from_slice\<close>) lies outside the pool and is a value.
\<close>

definition process_step ::
  "('p \<Rightarrow> u8 list \<Rightarrow> u32 \<Rightarrow> (str + 'r list) \<times> 'p) \<Rightarrow> ('w \<Rightarrow> 'r \<Rightarrow> (runtime_error + unit) \<times> 'w)
     \<Rightarrow> webrtc_sender_config \<Rightarrow> encoded_packet \<Rightarrow> ('src, 'p, 'w) live \<Rightarrow> ('src, 'p, 'w) live" where
  "process_step packetize put config packet s =
     (case storage_slice (lv_pool s) (ep_data packet) of
        None \<Rightarrow> panic s
      | Some bytes \<Rightarrow>
          (let (r, p, x) = process_packet packetize put config packet bytes
                 (packetizer (lv_sink s)) (track (lv_sink s));
               w = lv_world s
           in advance (case r of
                Inr _ \<Rightarrow> w\<lparr> sender := Dequeuing, processed := processed w @ [packet] \<rparr>
              | Inl error \<Rightarrow> w\<lparr> sender := Failing packet error \<rparr>)
                [ep_data packet] (s\<lparr> lv_sink := (lv_sink s)\<lparr> packetizer := p, track := x \<rparr> \<rparr>)))"

definition returned_ok :: "webrtc_world \<Rightarrow> bool" where
  "returned_ok w \<longleftrightarrow> results w = [] \<or> last (results w) = Inr ()"

inductive live_step ::
  "'src media_source \<Rightarrow> ('p \<Rightarrow> u8 list \<Rightarrow> u32 \<Rightarrow> (str + 'r list) \<times> 'p)
     \<Rightarrow> ('w \<Rightarrow> 'r \<Rightarrow> (runtime_error + unit) \<times> 'w) \<Rightarrow> webrtc_sink \<Rightarrow> webrtc_sender_config
     \<Rightarrow> compiled_pipeline \<Rightarrow> bool \<Rightarrow> ('src, 'p, 'w) live \<Rightarrow> ('src, 'p, 'w) live \<Rightarrow> bool"
  for source packetize put sink config p metrics where
  Takes: "\<not> lv_panicked s \<Longrightarrow> lv_exit s = None \<Longrightarrow> producer (lv_world s) = Idle \<Longrightarrow> returned_ok (lv_world s) \<Longrightarrow>
    live_step source packetize put sink config p metrics s (take_step source sink p metrics s)"
| Cancels: "\<not> lv_panicked s \<Longrightarrow> lv_exit s = None \<Longrightarrow> producer (lv_world s) = Idle \<Longrightarrow> returned_ok (lv_world s) \<Longrightarrow>
    live_step source packetize put sink config p metrics s (s\<lparr> lv_exit := Some ExitCancelled \<rparr>)"
| Returns: "\<not> lv_panicked s \<Longrightarrow> lv_exit s = None \<Longrightarrow> producer (lv_world s) = Idle \<Longrightarrow>
    results (lv_world s) = rs @ [Inl error] \<Longrightarrow>
    live_step source packetize put sink config p metrics s (s\<lparr> lv_exit := Some (pipeline_exit_from_error error) \<rparr>)"
| Checks: "\<not> lv_panicked s \<Longrightarrow> producer (lv_world s) = Checking packet \<Longrightarrow>
    live_step source packetize put sink config p metrics s
      (advance (check_step packet (lv_world s)) (check_drops packet (lv_world s)) s)"
| Enqueues: "\<not> lv_panicked s \<Longrightarrow> producer (lv_world s) = Enqueuing packet \<Longrightarrow>
    live_step source packetize put sink config p metrics s
      (advance (enqueue_step sink packet (lv_world s)) (enqueue_drops sink packet (shared (lv_world s))) s)"
| Wakes: "\<not> lv_panicked s \<Longrightarrow> producer (lv_world s) = Waiting packet \<Longrightarrow>
    live_step source packetize put sink config p metrics s
      (advance ((lv_world s)\<lparr> producer := Checking packet \<rparr>) [] s)"
| Dequeues: "\<not> lv_panicked s \<Longrightarrow> sender (lv_world s) = Dequeuing \<Longrightarrow>
    live_step source packetize put sink config p metrics s (advance (dequeue_step (lv_world s)) [] s)"
| WakesSender: "\<not> lv_panicked s \<Longrightarrow> sender (lv_world s) = SenderWaiting \<Longrightarrow>
    live_step source packetize put sink config p metrics s
      (advance ((lv_world s)\<lparr> sender := Dequeuing \<rparr>) [] s)"
| Processes: "\<not> lv_panicked s \<Longrightarrow> sender (lv_world s) = Processing packet \<Longrightarrow>
    live_step source packetize put sink config p metrics s (process_step packetize put config packet s)"
| Errs: "\<not> lv_panicked s \<Longrightarrow> sender (lv_world s) = Failing packet error \<Longrightarrow>
    live_step source packetize put sink config p metrics s
      (advance ((lv_world s)\<lparr> sender := SenderDone, shared := set_sender_error error (shared (lv_world s)),
         failed := failed (lv_world s) @ [packet] \<rparr>) [] s)"

text \<open>
  The end of a run: \<open>run_pipeline_once\<close> drops its stages. The drop of the sink aborts the sender task, and the
  packet that it works on and those in the queue are dropped with it.
\<close>

fun reading :: "sender \<Rightarrow> encoded_packet list" where
  "reading (Processing packet) = [packet]"
| "reading _ = []"

definition drop_stages :: "('src, 'p, 'w) live \<Rightarrow> store option" where
  "drop_stages s =
     (let w = lv_world s in drop_storages (map ep_data (reading (sender w) @ w_queue (shared w))) (lv_pool s))"

definition live_initial :: "'src \<Rightarrow> compiled_pipeline \<Rightarrow> 'p \<Rightarrow> 'w \<Rightarrow> ('src, 'p, 'w) live" where
  "live_initial src p packetizer0 track0 =
     \<lparr> lv_source = src, lv_pool = pipeline_pool p, lv_sink = track_initial packetizer0 track0,
       lv_exit = None, lv_panicked = False, lv_taken = [] \<rparr>"

end
