(* ===== verification/Caml_Live_Correct.thy ===== *)
theory Caml_Live_Correct
  imports Caml_Live Caml_Stages_Correct Caml_Track_Correct
begin

text \<open>
  A running pipeline with a WebRTC output: the invariant that its steps keep. No operation panics, every
  packet that is alive holds a buffer with its bytes, and what the sender has sent, what is alive and what
  was dropped make up what the loop has taken from its source.
\<close>

section \<open>Handles in any order\<close>

lemma held_drop_at:
  assumes "held st (rs @ (r, d) # rs')"
  shows "\<exists>st'. drop_pooled r st = Some st' \<and> held st' (rs @ rs')"
proof -
  let ?w = "\<lparr> w_store = st, writers = [], readers = rs @ (r, d) # rs' \<rparr>"
  from assms have i: "pool_inv ?w" "no_leak ?w" by (simp_all add: held_def)
  then obtain own where "\<forall>i. slot_ok_in own st [] (rs @ (r, d) # rs') i"
    by (auto simp: pool_inv_def simp del: readers_of_simps)
  from reader_slot [OF this, of r d] have "pb_slot_index r < length (slots st)" by fastforce
  then have "drop_pooled r st \<noteq> None" by (simp add: drop_pooled_def Let_def)
  then obtain st' where dr: "drop_pooled r st = Some st'" by blast
  have s: "pool_step ?w \<lparr> w_store = st', writers = [], readers = rs @ rs' \<rparr>"
    using DropReader [of ?w rs r d rs' st'] dr by simp
  with i dr pool_step_inv [OF s] careful_no_leak [OF s] show ?thesis by (auto simp: held_def)
qed

lemma held_look:
  assumes "held st rs" "(r, d) \<in> set rs"
  shows "as_slice r st = Some d"
  using assms fp.look_law [of "\<lparr> w_store = st, writers = [], readers = rs \<rparr>" r d]
  by (simp add: held_def)

lemma held_in_use:
  assumes "held st rs"
  shows "in_use (stats st) \<le> length rs" "length (slots st) = available (stats st) + in_use (stats st)"
proof -
  let ?w = "\<lparr> w_store = st, writers = [], readers = rs \<rparr>"
  have inv: "pool_inv ?w" "no_leak ?w" using assms by (simp_all add: held_def)
  have "in_use (stats st) = card (set (reader_slots ?w))" using no_leak_in_use [OF inv] by simp
  also have "\<dots> \<le> length rs" by (rule order_trans [OF card_length]) simp
  finally show "in_use (stats st) \<le> length rs" .
  have "length (free st) = card (set (free st))"
    using pool_inv_partition(1) [OF inv(1)] by (simp add: distinct_card)
  also have "\<dots> \<le> card {..<length (slots st)}"
    using pool_inv_partition(6) [OF inv(1)] by (intro card_mono) auto
  finally show "length (slots st) = available (stats st) + in_use (stats st)"
    using inv(1) by (simp add: stats_def pool_inv_def store_ok_def)
qed

section \<open>The packets that are alive\<close>

definition buffer :: "encoded_packet \<Rightarrow> pooled_buffer" where
  "buffer k = (case ep_data k of Pooled r \<Rightarrow> r | _ \<Rightarrow> \<lparr> pb_slot_index = 0 \<rparr>)"

definition pooled :: "encoded_packet \<Rightarrow> bool" where
  "pooled k \<longleftrightarrow> ep_data k = Pooled (buffer k)"

lemma buffer_Pooled [simp]: "buffer (k\<lparr> ep_data := Pooled r \<rparr>) = r" "pooled (k\<lparr> ep_data := Pooled r \<rparr>)"
  by (simp_all add: buffer_def pooled_def)

text \<open>The packets that own a buffer, oldest first.\<close>

fun at_hand :: "producer \<Rightarrow> encoded_packet list" where
  "at_hand (Checking packet) = [packet]"
| "at_hand (Enqueuing packet) = [packet]"
| "at_hand (Waiting packet) = [packet]"
| "at_hand _ = []"

definition carried :: "webrtc_world \<Rightarrow> encoded_packet list" where
  "carried w = reading (sender w) @ w_queue (shared w) @ at_hand (producer w)"

text \<open>A pool whose read handles are those of the live packets \<open>ls\<close>, each with its bytes.\<close>

definition borne :: "store \<Rightarrow> (encoded_packet \<times> u8 list) list \<Rightarrow> bool" where
  "borne st ls \<longleftrightarrow> list_all (\<lambda>(k, d). pooled k) ls \<and> held st (map (\<lambda>(k, d). (buffer k, d)) (rev ls))"

lemma borne_drop:
  assumes "borne st (us @ (k, d) # vs)"
  shows "\<exists>st'. drop_storages [ep_data k] st = Some st' \<and> borne st' (us @ vs)"
proof -
  have k: "ep_data k = Pooled (buffer k)" using assms by (simp add: borne_def pooled_def)
  have "held st (map (\<lambda>(k, d). (buffer k, d)) (rev vs) @ (buffer k, d) # map (\<lambda>(k, d). (buffer k, d)) (rev us))"
    using assms by (simp add: borne_def)
  from held_drop_at [OF this] obtain st' where "drop_pooled (buffer k) st = Some st'"
    "held st' (map (\<lambda>(k, d). (buffer k, d)) (rev vs) @ map (\<lambda>(k, d). (buffer k, d)) (rev us))" by blast
  with assms k show ?thesis by (intro exI [of _ st']) (simp add: borne_def)
qed

lemma borne_look:
  assumes "borne st ls" "(k, d) \<in> set ls"
  shows "storage_slice st (ep_data k) = Some d"
proof -
  have "ep_data k = Pooled (buffer k)" using assms by (auto simp: borne_def list_all_iff pooled_def)
  moreover have "(buffer k, d) \<in> set (map (\<lambda>(k, d). (buffer k, d)) (rev ls))"
    using assms(2) by force
  then have "as_slice (buffer k) st = Some d"
    using held_look assms(1) unfolding borne_def by blast
  ultimately show ?thesis by simp
qed

lemma borne_publish:
  assumes "held st' ((r, d) # map (\<lambda>(k, d). (buffer k, d)) (rev ls))" "list_all (\<lambda>(k, d). pooled k) ls"
  shows "borne st' (ls @ [(k\<lparr> ep_data := Pooled r \<rparr>, d)])"
  using assms by (simp add: borne_def)

section \<open>The invariant\<close>

lemma reading_failing: "sender w = Processing k \<or> sender w = Failing k e \<Longrightarrow> control_inv w \<Longrightarrow>
    failed w = [] \<and> w_error (shared w) = None"
  by (auto simp: control_inv_def)

text \<open>
  \<open>sent\<close> is what the sender has worked on, \<open>ls\<close> what is alive; together they are what the loop has
  taken, but for what was evicted, refused or dropped after an error.
\<close>

definition split_ok ::
  "webrtc_sink \<Rightarrow> (encoded_packet \<times> u8 list) list \<Rightarrow> (encoded_packet \<times> u8 list) list \<Rightarrow> runtime_error option \<Rightarrow> bool" where
  "split_ok sink parts taken error \<longleftrightarrow> subseq parts taken \<and>
     (ws_drop_policy sink = RouterBlock \<longrightarrow> prefix parts taken \<and> (error = None \<longrightarrow> parts = taken))"

definition live_inv ::
  "('p \<Rightarrow> u8 list \<Rightarrow> u32 \<Rightarrow> (str + 'r list) \<times> 'p) \<Rightarrow> ('w \<Rightarrow> 'r \<Rightarrow> (runtime_error + unit) \<times> 'w)
     \<Rightarrow> webrtc_sink \<Rightarrow> webrtc_sender_config \<Rightarrow> 'p \<Rightarrow> 'w \<Rightarrow> ('src, 'p, 'w) live
     \<Rightarrow> (encoded_packet \<times> u8 list) list \<Rightarrow> (encoded_packet \<times> u8 list) list \<Rightarrow> bool" where
  "live_inv packetize put sink config p0 x0 s sent ls \<longleftrightarrow>
     (let w = lv_world s in
      \<not> lv_panicked s \<and> webrtc_reachable sink w \<and> carried w = map fst ls \<and> borne (lv_pool s) ls \<and>
      sender_loop packetize put config sent p0 x0 = (pending_error w, packetizer (lv_sink s), track (lv_sink s)) \<and>
      split_ok sink (sent @ ls) (lv_taken s) (w_error (shared w)))"

lemma split_okE:
  assumes "split_ok sink (us @ x # vs) taken error" "ws_drop_policy sink \<noteq> RouterBlock \<or> vs = [] \<and> error \<noteq> None"
  shows "split_ok sink (us @ vs) taken error"
proof -
  have "subseq (us @ vs) (us @ x # vs)" by (intro list_emb_append_mono) auto
  moreover have "prefix us taken" if "prefix (us @ [x]) taken" using that by (rule append_prefixD)
  ultimately show ?thesis using assms unfolding split_ok_def
    by (auto intro: subseq_order.order_trans)
qed

lemma split_ok_take:
  assumes "split_ok sink parts taken error" "ws_drop_policy sink = RouterBlock \<longrightarrow> error = None"
  shows "split_ok sink (parts @ [x]) (taken @ [x]) error"
  using assms unfolding split_ok_def by (auto intro: list_emb_append_mono)

lemma split_ok_skip:
  assumes "split_ok sink parts taken error" "ws_drop_policy sink = RouterBlock \<longrightarrow> error \<noteq> None"
  shows "split_ok sink parts (taken @ [x]) error"
  using assms prefix_imp_subseq [of taken "taken @ [x]"]
  unfolding split_ok_def by (auto intro: subseq_order.order_trans prefix_prefix)

section \<open>The steps\<close>

lemma advance_ok:
  assumes "drop_storages ss (lv_pool s) = Some st"
  shows "advance w ss s = s\<lparr> lv_pool := st, lv_sink := (lv_sink s)\<lparr> sink_world := w \<rparr> \<rparr>"
  using assms by (simp add: advance_def)

text \<open>
  A step of the sink alone: what it does to the packets is either nothing, or one of them is dropped.
\<close>

lemma live_inv_keep:
  assumes "live_inv packetize put sink config p0 x0 s sent ls" "webrtc_reachable sink w"
    and "carried w = carried (lv_world s)" "pending_error w = pending_error (lv_world s)"
    and "w_error (shared w) = None \<Longrightarrow> w_error (shared (lv_world s)) = None"
  shows "live_inv packetize put sink config p0 x0 (advance w [] s) sent ls"
  using assms by (auto simp: live_inv_def lv_world_def advance_ok Let_def split_ok_def)

lemma live_inv_drop:
  assumes "live_inv packetize put sink config p0 x0 s sent (us @ (k, d) # vs)" "webrtc_reachable sink w"
    and "carried w = map fst (us @ vs)" "pending_error w = pending_error (lv_world s)"
    and "w_error (shared w) = w_error (shared (lv_world s))"
    and "ws_drop_policy sink \<noteq> RouterBlock \<or> vs = [] \<and> w_error (shared w) \<noteq> None"
  shows "live_inv packetize put sink config p0 x0 (advance w [ep_data k] s) sent (us @ vs)"
proof -
  have inv: "\<not> lv_panicked s" "borne (lv_pool s) (us @ (k, d) # vs)"
    "sender_loop packetize put config sent p0 x0 =
       (pending_error w, packetizer (lv_sink s), track (lv_sink s))"
    "split_ok sink ((sent @ us) @ (k, d) # vs) (lv_taken s) (w_error (shared w))"
    using assms(1,4,5) by (simp_all add: live_inv_def Let_def)
  from borne_drop [OF inv(2)] obtain st where st: "drop_storages [ep_data k] (lv_pool s) = Some st"
    "borne st (us @ vs)" by blast
  from split_okE [OF inv(4)] assms(6) have "split_ok sink ((sent @ us) @ vs) (lv_taken s) (w_error (shared w))"
    by blast
  with assms(2,3) inv(1,3) st show ?thesis
    by (simp add: live_inv_def lv_world_def advance_ok [OF st(1)])
qed

lemma live_inv_world:
  assumes "live_inv packetize put sink config p0 x0 s sent ls" "ws_queue_limit sink \<noteq> 0"
  shows "webrtc_reachable sink (lv_world s)" "control_inv (lv_world s)" "queue_inv sink (lv_world s)"
    "carried (lv_world s) = map fst ls"
  using assms webrtc_reachable_inv [of sink "lv_world s"] by (simp_all add: live_inv_def Let_def)

lemma webrtc_reachable_step:
  "webrtc_reachable sink w \<Longrightarrow> webrtc_step sink w w' \<Longrightarrow> webrtc_reachable sink w'"
  unfolding webrtc_reachable_def by (rule rtranclp.rtrancl_into_rtrancl)

lemma map_fst_middle:
  assumes "map fst ls = ks @ k # ms"
  obtains us d vs where "ls = us @ (k, d) # vs" "map fst us = ks" "map fst vs = ms"
proof -
  from assms obtain us ws where "ls = us @ ws" "map fst us = ks" "map fst ws = k # ms"
    unfolding map_eq_append_conv by auto
  moreover then obtain x vs where "ws = x # vs" "fst x = k" "map fst vs = ms" by (cases ws) auto
  ultimately show ?thesis by (intro that [of us "snd x" vs]) auto
qed

lemma map_fst_snoc:
  assumes "map fst ls = ks @ [k]"
  obtains us d where "ls = us @ [(k, d)]" "map fst us = ks"
proof -
  from map_fst_middle [OF assms] obtain us d vs where "ls = us @ (k, d) # vs" "map fst us = ks" "map fst vs = []" .
  then show ?thesis using that [of us d] by simp
qed

lemma progress_same:
  "progress w' = progress w \<Longrightarrow> pending_error w' = pending_error w \<and> w_error (shared w') = w_error (shared w) \<and>
     sender w' = sender w"
  using progress_tried [of w' w] by (simp add: progress_def)

lemma live_check:
  assumes inv: "live_inv packetize put sink config p0 x0 s sent ls" "ws_queue_limit sink \<noteq> 0"
    and k: "producer (lv_world s) = Checking packet"
  shows "\<exists>ls'. live_inv packetize put sink config p0 x0
    (advance (check_step packet (lv_world s)) (check_drops packet (lv_world s)) s) sent ls'"
proof -
  let ?w = "check_step packet (lv_world s)"
  note w = live_inv_world [OF inv]
  have r: "webrtc_reachable sink ?w" by (rule webrtc_reachable_step [OF w(1) Check [OF k]])
  note p = progress_same [OF progress_check, of packet "lv_world s"]
  show ?thesis
  proof (cases "shared_error (shared (lv_world s))")
    case (Inr u)
    then have "carried ?w = carried (lv_world s)" by (simp add: check_step_def carried_def k)
    with live_inv_keep [OF inv(1) r] p Inr show ?thesis by (auto simp: check_drops_def)
  next
    case (Inl error)
    have "map fst ls = (reading (sender (lv_world s)) @ w_queue (shared (lv_world s))) @ [packet]"
      using w(4) by (simp add: carried_def k)
    then obtain us d where us: "ls = us @ [(packet, d)]"
      "map fst us = reading (sender (lv_world s)) @ w_queue (shared (lv_world s))" by (rule map_fst_snoc)
    have "carried ?w = map fst (us @ [])"
      using Inl us(2) by (simp add: check_step_def carried_def reply_def)
    moreover have "w_error (shared ?w) \<noteq> None" using Inl p by (auto simp: shared_error_def split: option.splits)
    ultimately show ?thesis
      using live_inv_drop [OF inv(1) [unfolded us(1)] r] p Inl by (auto simp: check_drops_def)
  qed
qed

lemma live_enqueue:
  assumes inv: "live_inv packetize put sink config p0 x0 s sent ls" "ws_queue_limit sink \<noteq> 0"
    and k: "producer (lv_world s) = Enqueuing packet"
  shows "\<exists>ls'. live_inv packetize put sink config p0 x0
    (advance (enqueue_step sink packet (lv_world s)) (enqueue_drops sink packet (shared (lv_world s))) s) sent ls'"
proof -
  let ?v = "lv_world s" and ?w = "enqueue_step sink packet (lv_world s)"
  note w = live_inv_world [OF inv]
  have r: "webrtc_reachable sink ?w" by (rule webrtc_reachable_step [OF w(1) Enqueue [OF k]])
  note p = progress_same [OF progress_enqueue, of sink packet ?v]
  have "map fst ls = (reading (sender ?v) @ w_queue (shared ?v)) @ [packet]"
    using w(4) by (simp add: carried_def k)
  then obtain us d where us: "ls = us @ [(packet, d)]" "map fst us = reading (sender ?v) @ w_queue (shared ?v)"
    by (rule map_fst_snoc)
  have keep: "\<exists>ls'. live_inv packetize put sink config p0 x0 (advance ?w [] s) sent ls'" if "carried ?w = carried ?v"
    using live_inv_keep [OF inv(1) r that] p by auto
  show ?thesis
  proof (cases rule: enqueue_section_cases [where s = "shared ?v" and sink = sink and p = packet])
    case (closed e)
    then show ?thesis using w(2) k by (simp add: control_inv_def)
  next
    case room
    then show ?thesis using keep k by (simp add: enqueue_step_def reply_def carried_def enqueue_drops_def)
  next
    case block
    then show ?thesis using keep k by (simp add: enqueue_step_def carried_def enqueue_drops_def)
  next
    case newest
    then have "carried ?w = map fst (us @ [])" "ws_drop_policy sink \<noteq> RouterBlock"
      using us(2) by (auto simp: enqueue_step_def reply_def carried_def enqueue_section_def split: if_splits)
    with live_inv_drop [OF inv(1) [unfolded us(1)] r] p newest show ?thesis by (auto simp: enqueue_drops_def)
  next
    case (oldest x q)
    have "w_queue (shared ?v) \<noteq> []" using oldest(3) inv(2) by (auto simp: unat_eq_0)
    from delta_first.evict_split [OF this] oldest(4) obtain a e b where
      q: "w_queue (shared ?v) = a @ e # b" "x = Some e" "q = a @ b" by auto
    from us(2) have "map fst ls = (reading (sender ?v) @ a) @ e # (b @ [packet])" by (simp add: us(1) q(1))
    then obtain ls1 d' ls2 where l: "ls = ls1 @ (e, d') # ls2" "map fst ls1 = reading (sender ?v) @ a"
      "map fst ls2 = b @ [packet]" by (rule map_fst_middle)
    have "carried ?w = map fst (ls1 @ ls2)"
      using oldest l(2,3) q(3) by (simp add: enqueue_step_def reply_def carried_def)
    with live_inv_drop [OF inv(1) [unfolded l(1)] r] p oldest q(2) show ?thesis by (auto simp: enqueue_drops_def)
  qed
qed

lemma live_dequeue:
  assumes inv: "live_inv packetize put sink config p0 x0 s sent ls" "ws_queue_limit sink \<noteq> 0"
    and k: "sender (lv_world s) = Dequeuing"
  shows "live_inv packetize put sink config p0 x0 (advance (dequeue_step (lv_world s)) [] s) sent ls"
proof (rule live_inv_keep [OF inv(1)])
  show "webrtc_reachable sink (dequeue_step (lv_world s))"
    by (rule webrtc_reachable_step [OF live_inv_world(1) [OF inv] Dequeue [OF k]])
qed (use k in \<open>auto simp: dequeue_step_def dequeue_section_def carried_def split: list.splits if_splits\<close>)

lemma live_err:
  assumes inv: "live_inv packetize put sink config p0 x0 s sent ls" "ws_queue_limit sink \<noteq> 0"
    and k: "sender (lv_world s) = Failing packet error"
  shows "live_inv packetize put sink config p0 x0
    (advance ((lv_world s)\<lparr> sender := SenderDone, shared := set_sender_error error (shared (lv_world s)),
       failed := failed (lv_world s) @ [packet] \<rparr>) [] s) sent ls"
proof (rule live_inv_keep [OF inv(1)])
  show "webrtc_reachable sink ((lv_world s)\<lparr> sender := SenderDone, shared := set_sender_error error (shared (lv_world s)),
       failed := failed (lv_world s) @ [packet] \<rparr>)"
    by (rule webrtc_reachable_step [OF live_inv_world(1) [OF inv] SetError [OF k]])
qed (use k reading_failing [OF disjI2 [OF k] live_inv_world(2) [OF inv]] in
    \<open>auto simp: carried_def set_sender_error_def\<close>)

lemma live_process:
  assumes inv: "live_inv packetize put sink config p0 x0 s sent ls" "ws_queue_limit sink \<noteq> 0"
    and k: "sender (lv_world s) = Processing packet"
  shows "\<exists>sent' ls'. live_inv packetize put sink config p0 x0 (process_step packetize put config packet s) sent' ls'"
proof -
  let ?v = "lv_world s"
  note w = live_inv_world [OF inv]
  note none = reading_failing [OF disjI1 [OF k] w(2)]
  obtain d ls' where ls: "ls = (packet, d) # ls'" using w(4) by (cases ls) (auto simp: carried_def k)
  have i: "\<not> lv_panicked s" "borne (lv_pool s) ([] @ (packet, d) # ls')"
    "sender_loop packetize put config sent p0 x0 = (None, packetizer (lv_sink s), track (lv_sink s))"
    "split_ok sink ((sent @ [(packet, d)]) @ ls') (lv_taken s) None" "map fst ls' = w_queue (shared ?v) @ at_hand (producer ?v)"
    using inv(1) none w(4) by (simp_all add: live_inv_def Let_def ls carried_def k)
  from borne_drop [OF i(2)] obtain st where st: "drop_storages [ep_data packet] (lv_pool s) = Some st" "borne st ls'" by auto
  have look: "storage_slice (lv_pool s) (ep_data packet) = Some d" using borne_look [OF i(2), of packet d] by simp
  obtain r p x where pp: "process_packet packetize put config packet d (packetizer (lv_sink s)) (track (lv_sink s)) = (r, p, x)"
    using prod_cases3 by blast
  have loop: "sender_loop packetize put config (sent @ [(packet, d)]) p0 x0 = (case r of Inl e \<Rightarrow> Some e | Inr _ \<Rightarrow> None, p, x)"
    using i(3) pp by (simp add: sender_loop_append split: sum.split)
  let ?w = "case r of Inr _ \<Rightarrow> ?v\<lparr> sender := Dequeuing, processed := processed ?v @ [packet] \<rparr>
      | Inl error \<Rightarrow> ?v\<lparr> sender := Failing packet error \<rparr>"
  have "webrtc_step sink ?v ?w" using Sent [OF k] SendFails [OF k] by (simp split: sum.split)
  then have reach: "webrtc_reachable sink ?w" by (rule webrtc_reachable_step [OF w(1)])
  have "process_step packetize put config packet s =
      advance ?w [ep_data packet] (s\<lparr> lv_sink := (lv_sink s)\<lparr> packetizer := p, track := x \<rparr> \<rparr>)"
    using look pp by (simp add: process_step_def Let_def)
  also have "\<dots> = s\<lparr> lv_pool := st, lv_sink := \<lparr> sink_world = ?w, packetizer = p, track = x \<rparr> \<rparr>"
    using st(1) by (cases "lv_sink s") (simp add: advance_def)
  finally show ?thesis
    using i reach loop st(2) none
    by (intro exI [of _ "sent @ [(packet, d)]"] exI [of _ ls'])
      (auto simp: live_inv_def lv_world_def carried_def split: sum.split)
qed

lemma live_wakes:
  assumes inv: "live_inv packetize put sink config p0 x0 s sent ls" "ws_queue_limit sink \<noteq> 0"
  shows "producer (lv_world s) = Waiting packet \<Longrightarrow>
      live_inv packetize put sink config p0 x0 (advance ((lv_world s)\<lparr> producer := Checking packet \<rparr>) [] s) sent ls"
    and "sender (lv_world s) = SenderWaiting \<Longrightarrow>
      live_inv packetize put sink config p0 x0 (advance ((lv_world s)\<lparr> sender := Dequeuing \<rparr>) [] s) sent ls"
  using webrtc_reachable_step [OF live_inv_world(1) [OF inv] WakeProducer, of packet]
    webrtc_reachable_step [OF live_inv_world(1) [OF inv] WakeSender]
  by (auto intro!: live_inv_keep [OF inv(1)] simp: carried_def split: sender.split)

lemma live_inv_exit:
  "live_inv packetize put sink config p0 x0 (s\<lparr> lv_source := src \<rparr>) sent ls =
     live_inv packetize put sink config p0 x0 s sent ls"
  "live_inv packetize put sink config p0 x0 (s\<lparr> lv_exit := e \<rparr>) sent ls =
     live_inv packetize put sink config p0 x0 s sent ls"
  by (simp_all add: live_inv_def lv_world_def)

lemma live_inv_initial: "live_inv packetize put sink config p0 x0 (live_initial src p p0 x0) [] []"
  using held_pipeline_pool [of p]
  by (simp add: live_inv_def live_initial_def lv_world_def track_initial_def webrtc_reachable_def webrtc_initial_def
      carried_def borne_def split_ok_def)

text \<open>A packet that is handed to the sink.\<close>

lemma live_consume:
  assumes inv: "live_inv packetize put sink config p0 x0 s sent ls" "ws_queue_limit sink \<noteq> 0"
    and idle: "producer (lv_world s) = Idle"
    and pool: "borne st (ls @ [(k, d)])"
  shows "\<exists>ls'. live_inv packetize put sink config p0 x0
    (advance (consume_step sink metrics (EncodedPacket k) (lv_world s)) (consume_drops (EncodedPacket k) (lv_world s))
      (s\<lparr> lv_source := src, lv_pool := st, lv_taken := lv_taken s @ [(k, d)] \<rparr>)) sent ls'"
proof -
  let ?v = "lv_world s" and ?w = "consume_step sink metrics (EncodedPacket k) (lv_world s)"
  note w = live_inv_world [OF inv]
  have r: "webrtc_reachable sink ?w" by (rule webrtc_reachable_step [OF w(1) Consume [OF idle]])
  note p = progress_same [OF progress_consume, of sink metrics "EncodedPacket k" ?v]
  have i: "\<not> lv_panicked s" "split_ok sink (sent @ ls) (lv_taken s) (w_error (shared ?w))"
    "sender_loop packetize put config sent p0 x0 = (pending_error ?w, packetizer (lv_sink s), track (lv_sink s))"
    using inv(1) p by (simp_all add: live_inv_def Let_def del: pending_error.simps)
  have q: "w_queue (shared ?w) = w_queue (shared ?v)" "w_error (shared ?w) = w_error (shared ?v)"
    using p by (simp_all add: consume_step_def install_metrics_def reply_def Let_def split: sum.split)
  have carried: "map fst ls = reading (sender ?v) @ w_queue (shared ?v)"
    using w(4) by (simp add: carried_def idle)
  show ?thesis
  proof (cases "shared_error (shared ?v)")
    case (Inl error)
    then have "w_error (shared ?v) \<noteq> None" by (auto simp: shared_error_def split: option.splits)
    with i(2) q(2) have "split_ok sink (sent @ ls) (lv_taken s @ [(k, d)]) (w_error (shared ?w))"
      by (intro split_ok_skip) auto
    moreover obtain st' where "drop_storages [ep_data k] st = Some st'" "borne st' ls"
      using borne_drop [OF pool] by auto
    moreover have "producer ?w = Idle"
      using Inl by (simp add: consume_step_def install_metrics_def shared_error_def reply_def Let_def)
    then have "carried ?w = map fst ls" using p q(1) carried by (simp add: carried_def)
    ultimately show ?thesis using i r Inl
      by (intro exI [of _ ls]) (simp add: live_inv_def lv_world_def advance_ok consume_drops_def)
  next
    case (Inr u)
    then have "w_error (shared ?v) = None" by (auto simp: shared_error_def split: option.splits)
    with i(2) q(2) have "split_ok sink ((sent @ ls) @ [(k, d)]) (lv_taken s @ [(k, d)]) (w_error (shared ?w))"
      by (intro split_ok_take) auto
    moreover have "producer ?w = Checking k"
      using Inr by (simp add: consume_step_def install_metrics_def shared_error_def Let_def)
    then have "carried ?w = map fst (ls @ [(k, d)])" using p q(1) carried by (simp add: carried_def)
    ultimately show ?thesis using i r Inr pool
      by (intro exI [of _ "ls @ [(k, d)]"]) (simp add: live_inv_def lv_world_def advance_ok consume_drops_def)
  qed
qed

section \<open>The source\<close>

lemma advance_fields [simp]:
  "lv_source (advance w ss s) = lv_source s" "lv_taken (advance w ss s) = lv_taken s"
  "lv_exit (advance w ss s) = lv_exit s"
  by (simp_all add: advance_def panic_def split: option.split)

lemma process_step_fields [simp]:
  "lv_source (process_step packetize put config k s) = lv_source s"
  "lv_taken (process_step packetize put config k s) = lv_taken s"
  "lv_exit (process_step packetize put config k s) = lv_exit s"
  by (simp_all add: process_step_def panic_def Let_def split: option.split prod.split)

text \<open>A packet but for the buffer that it lies in.\<close>

definition unbuffered :: "encoded_packet \<times> u8 list \<Rightarrow> encoded_packet \<times> u8 list" where
  "unbuffered = (\<lambda>(k, d). (k\<lparr> ep_data := Owned [] \<rparr>, d))"

context media_source
begin

lemma take_step_ends:
  assumes "offer (lv_source s) = (Ends sel, src')"
  shows "take_step source sink p metrics s = s\<lparr> lv_source := src', lv_exit := Some (stop_exit p sel) \<rparr>"
  using source_ends [OF assms, of "lv_pool s"] loop_turn_stop [of sel p metrics]
  by (cases sel rule: ends_loop.cases) (auto simp: take_step_def Let_def)

lemma take_step_offers:
  assumes "offer (lv_source s) = (Offers packet d, src')" "borne (lv_pool s) ls"
  obtains k st where "k\<lparr> ep_data := Owned [] \<rparr> = packet\<lparr> ep_data := Owned [] \<rparr>" "borne st (ls @ [(k, d)])"
    "take_step source sink p metrics s =
       advance (consume_step sink metrics (EncodedPacket k) (lv_world s)) (consume_drops (EncodedPacket k) (lv_world s))
         (s\<lparr> lv_source := src', lv_pool := st, lv_taken := lv_taken s @ [(k, d)] \<rparr>)"
proof -
  have held: "held (lv_pool s) (map (\<lambda>(k, d). (buffer k, d)) (rev ls))"
    and ls: "list_all (\<lambda>(k, d). pooled k) ls" using assms(2) by (simp_all add: borne_def)
  from source_offers [OF assms(1) held] obtain buf st where
    st: "source (lv_source s) (lv_pool s) =
      Some (SourceNext (Inr (EncodedPacket (packet\<lparr> ep_data := Pooled buf \<rparr>))), src', st)"
    "held st ((buf, d) # map (\<lambda>(k, d). (buffer k, d)) (rev ls))" by blast
  have "payload_data st (EncodedPacket (packet\<lparr> ep_data := Pooled buf \<rparr>)) = Some d"
    using held_reads [OF st(2)] by (simp add: payload_data_def)
  with st(1) have "take_step source sink p metrics s =
       advance (consume_step sink metrics (EncodedPacket (packet\<lparr> ep_data := Pooled buf \<rparr>)) (lv_world s))
         (consume_drops (EncodedPacket (packet\<lparr> ep_data := Pooled buf \<rparr>)) (lv_world s))
         (s\<lparr> lv_source := src', lv_pool := st, lv_taken := lv_taken s @ [(packet\<lparr> ep_data := Pooled buf \<rparr>, d)] \<rparr>)"
    by (simp add: take_step_def Let_def)
  with borne_publish [OF st(2) ls, of packet] show ?thesis by (intro that) simp_all
qed

text \<open>What a loop has taken is what the source offered first, and while it runs the rest is still there.\<close>

definition fed :: "'src \<Rightarrow> bool \<Rightarrow> 'src \<Rightarrow> (encoded_packet \<times> u8 list) list \<Rightarrow> bool" where
  "fed src0 running src taken \<longleftrightarrow> (\<forall>n > size src0. let offers = map unbuffered (fst (offered n src0)) in
     prefix (map unbuffered taken) offers \<and>
     (running \<longrightarrow> (\<exists>m > size src. offers = map unbuffered taken @ map unbuffered (fst (offered m src)))))"

lemma fed_stops: "fed src0 running src taken \<Longrightarrow> fed src0 False src' taken"
  by (simp add: fed_def Let_def)

lemma fed_starts: "fed src True src []"
  by (auto simp: fed_def)

lemma fed_takes:
  assumes "fed src0 True src taken" "offer src = (Offers packet d, src')"
    and k: "k\<lparr> ep_data := Owned [] \<rparr> = packet\<lparr> ep_data := Owned [] \<rparr>"
  shows "fed src0 True src' (taken @ [(k, d)])"
  unfolding fed_def Let_def
proof (intro allI impI)
  fix n
  assume "size src0 < n"
  with assms(1) obtain m where m: "size src < m" "map unbuffered (fst (offered n src0)) =
      map unbuffered taken @ map unbuffered (fst (offered m src))"
    by (auto simp: fed_def Let_def)
  then obtain m' where m': "m = Suc m'" by (cases m) auto
  with m(1) source_size [OF assms(2)] have "size src' < m'" by simp
  moreover have "map unbuffered (fst (offered m src)) = unbuffered (k, d) # map unbuffered (fst (offered m' src'))"
    using assms(2) k by (simp add: m' case_prod_beta unbuffered_def)
  with m(2) have "map unbuffered (fst (offered n src0)) =
      map unbuffered (taken @ [(k, d)]) @ map unbuffered (fst (offered m' src'))" by simp
  ultimately show "prefix (map unbuffered (taken @ [(k, d)])) (map unbuffered (fst (offered n src0))) \<and>
      (True \<longrightarrow> (\<exists>m > size src'. map unbuffered (fst (offered n src0)) =
        map unbuffered (taken @ [(k, d)]) @ map unbuffered (fst (offered m src'))))"
    by auto
qed

lemma fed_offers:
  assumes "fed src0 True src taken" "offer src = (Offers packet d, src')"
  shows "d \<in> snd ` set (fst (offered (Suc (size src0)) src0))"
proof -
  from assms(1) obtain m where m: "size src < m"
    "map unbuffered (fst (offered (Suc (size src0)) src0)) = map unbuffered taken @ map unbuffered (fst (offered m src))"
    by (auto simp: fed_def Let_def simp del: offered.simps)
  then have "unbuffered (packet, d) \<in> set (map unbuffered (fst (offered (Suc (size src0)) src0)))"
    using assms(2) by (cases m) (auto simp: case_prod_beta)
  then show ?thesis by (force simp: unbuffered_def simp del: offered.simps)
qed

definition live_fed :: "'src \<Rightarrow> ('src, 'p, 'w) live \<Rightarrow> bool" where
  "live_fed src0 s \<longleftrightarrow> fed src0 (lv_exit s = None) (lv_source s) (lv_taken s)"

lemma live_step_inv:
  assumes "live_step source packetize put sink config p metrics s s'" "ws_queue_limit sink \<noteq> 0"
    and inv: "live_inv packetize put sink config p0 x0 s sent ls" and fed: "live_fed src0 s"
  shows "(\<exists>sent' ls'. live_inv packetize put sink config p0 x0 s' sent' ls') \<and> live_fed src0 s'"
  using assms(1)
proof cases
  case Takes
  show ?thesis
  proof (cases "offer (lv_source s)")
    case (Pair x src')
    show ?thesis
    proof (cases x)
      case (Ends sel)
      with Pair take_step_ends [of s sel src' sink p metrics] Takes(1) inv fed_stops [OF fed [unfolded live_fed_def]] show ?thesis
        by (auto simp: live_inv_exit live_fed_def)
    next
      case (Offers packet d)
      have "borne (lv_pool s) ls" using inv by (simp add: live_inv_def Let_def)
      from take_step_offers [OF Pair [unfolded Offers] this, of sink p metrics] obtain k st where
        k: "k\<lparr> ep_data := Owned [] \<rparr> = packet\<lparr> ep_data := Owned [] \<rparr>" "borne st (ls @ [(k, d)])"
        "s' = advance (consume_step sink metrics (EncodedPacket k) (lv_world s))
            (consume_drops (EncodedPacket k) (lv_world s))
            (s\<lparr> lv_source := src', lv_pool := st, lv_taken := lv_taken s @ [(k, d)] \<rparr>)"
        using Takes(1) by metis
      have "fed src0 True (lv_source s) (lv_taken s)" using fed Takes(3) by (simp add: live_fed_def)
      from fed_takes [OF this Pair [unfolded Offers] k(1)] have "live_fed src0 s'"
        using Takes(3) by (simp add: live_fed_def k(3))
      with live_consume [OF inv assms(2) Takes(4) k(2), of metrics src'] k(3) show ?thesis by blast
    qed
  qed
next
  case Cancels
  with inv fed_stops [OF fed [unfolded live_fed_def]] show ?thesis by (auto simp: live_inv_exit live_fed_def)
next
  case (Returns rs error)
  with inv fed_stops [OF fed [unfolded live_fed_def]] show ?thesis by (auto simp: live_inv_exit live_fed_def)
next
  case (Checks packet)
  with live_check [OF inv assms(2)] fed show ?thesis by (auto simp: live_fed_def)
next
  case (Enqueues packet)
  with live_enqueue [OF inv assms(2)] fed show ?thesis by (auto simp: live_fed_def)
next
  case (Wakes packet)
  with live_wakes(1) [OF inv assms(2)] fed show ?thesis by (auto simp: live_fed_def)
next
  case Dequeues
  with live_dequeue [OF inv assms(2)] fed show ?thesis by (auto simp: live_fed_def)
next
  case WakesSender
  with live_wakes(2) [OF inv assms(2)] fed show ?thesis by (auto simp: live_fed_def)
next
  case (Processes packet)
  with live_process [OF inv assms(2)] fed show ?thesis by (auto simp: live_fed_def)
next
  case (Errs packet error)
  with live_err [OF inv assms(2)] fed show ?thesis by (auto simp: live_fed_def)
qed

lemma live_reachable_inv:
  assumes "(live_step source packetize put sink config p metrics)\<^sup>*\<^sup>* (live_initial src p p0 x0) s"
    and "ws_queue_limit sink \<noteq> 0"
  shows "(\<exists>sent ls. live_inv packetize put sink config p0 x0 s sent ls) \<and> live_fed src s"
  using assms(1)
proof (induction rule: rtranclp_induct)
  case base
  show ?case 
    by (intro conjI exI) (rule live_inv_initial, simp add: live_fed_def live_initial_def fed_starts)
next
  case (step s s')
  then show ?case using live_step_inv [OF step(2) assms(2)] by blast
qed

end

end
