(* ===== verification/Caml_Delivery_Correct.thy ===== *)
theory Caml_Delivery_Correct
  imports Caml_Live_Correct Caml_Path_Correct Caml_Assembly_Correct
begin

text \<open>
  What a running pipeline with a WebRTC output delivers and what it needs: the track gets the messages of
  the worker, the pool never grows, every buffer comes back, and what is lost at the end of the stream.
\<close>

section \<open>The buffers\<close>

lemma live_inv_in_use:
  assumes "live_inv packetize put sink config p0 x0 s sent ls" "ws_queue_limit sink \<noteq> 0"
  shows "in_use (stats (lv_pool s)) \<le> unat (ws_queue_limit sink) + 2"
    and "producer (lv_world s) = Idle \<Longrightarrow> unat (ws_queue_limit sink) + 2 \<le> length (slots (lv_pool s)) \<Longrightarrow>
      free (lv_pool s) \<noteq> []"
proof -
  let ?v = "lv_world s"
  have h: "held (lv_pool s) (map (\<lambda>(k, d). (buffer k, d)) (rev ls))"
    using assms(1) by (simp add: live_inv_def borne_def Let_def)
  note u = held_in_use [OF h]
  have "length ls = length (carried ?v)" using arg_cong [OF live_inv_world(4) [OF assms], of length] by simp
  moreover have "length (reading (sender ?v)) \<le> 1" by (cases "sender ?v") simp_all
  moreover have "length (at_hand (producer ?v)) \<le> 1" by (cases "producer ?v") simp_all
  moreover have "length (w_queue (shared ?v)) \<le> unat (ws_queue_limit sink)"
    using live_inv_world(3) [OF assms] by (simp add: queue_inv_def)
  ultimately have len: "length ls \<le> 1 + unat (ws_queue_limit sink) + length (at_hand (producer ?v))"
    "length (at_hand (producer ?v)) \<le> 1" by (simp_all add: carried_def)
  with u(1) show "in_use (stats (lv_pool s)) \<le> unat (ws_queue_limit sink) + 2" by simp
  show "free (lv_pool s) \<noteq> []" if "producer ?v = Idle" "unat (ws_queue_limit sink) + 2 \<le> length (slots (lv_pool s))"
    using that u len by (auto simp: stats_def)
qed

text \<open>The buffers of a pool, and the memory behind them.\<close>

definition pool_size :: "store \<Rightarrow> nat \<times> nat" where
  "pool_size st = (length (slots st), st_high_watermark (stats st))"

definition pool_memory :: "store \<Rightarrow> nat \<times> vec option list" where
  "pool_memory st = (next_addr st, map slot_bytes (slots st))"

definition drop_stable :: "(store \<Rightarrow> 'a) \<Rightarrow> bool" where
  "drop_stable f \<longleftrightarrow> (\<forall>r st st'. drop_pooled r st = Some st' \<longrightarrow> f st' = f st)"

lemma map_update_same: "i < length xs \<Longrightarrow> f x = f (xs ! i) \<Longrightarrow> map f (xs[i := x]) = map f xs"
  by (metis list_update_id map_update)

lemma drop_stable_size: "drop_stable pool_size" "drop_stable pool_memory"
  by (auto simp: drop_stable_def drop_pooled_def pool_size_def pool_memory_def stats_def Let_def map_update_same
      split: if_splits)

lemma drop_storages_stable:
  "drop_stable f \<Longrightarrow> drop_storages ss st = Some st' \<Longrightarrow> f st' = f st"
proof (induction ss arbitrary: st)
  case (Cons storage ss)
  then obtain st1 where "drop_storage storage st = Some st1" "drop_storages ss st1 = Some st'"
    by (auto simp: bind_eq_Some_conv)
  with Cons show ?case by (cases storage) (auto simp: drop_stable_def)
qed simp

lemma advance_stable: "drop_stable f \<Longrightarrow> f (lv_pool (advance w ss s)) = f (lv_pool s)"
  by (auto simp: advance_def panic_def dest: drop_storages_stable split: option.split)

lemma process_step_stable: "drop_stable f \<Longrightarrow> f (lv_pool (process_step packetize put config k s)) = f (lv_pool s)"
  by (auto simp: process_step_def panic_def advance_stable Let_def split: option.split prod.split)

text \<open>A buffer that is free is used again, and keeps its memory if the bytes fit.\<close>

lemma publish_size:
  assumes "publish_payload d st = Some (r, st')" "free st \<noteq> []"
  shows "pool_size st' = pool_size st"
proof -
  from assms(1) obtain b st1 b' st2 where a: "acquire st = Some (b, st1)"
    and e: "extend_from_slice d b st1 = (b', st2)" and f: "freeze b' st2 = Some (r, st')"
    by (auto simp: publish_payload_def split: option.splits prod.splits)
  have "pool_size st1 = pool_size st"
    using a assms(2)
    by (auto simp: acquire_def vec_write_def pool_size_def stats_def split: list.splits option.splits if_splits)
  moreover have "inner st2 = inner st1" using extend_inner [OF e] ..
  moreover have "pool_size st' = pool_size st2"
    using f by (auto simp: freeze_def drop_stored_def vec_free_def pool_size_def stats_def Let_def
        split: option.splits if_splits)
  ultimately show ?thesis by (simp add: pool_size_def stats_def)
qed

lemma publish_memory:
  assumes "publish_payload d st = Some (r, st')" "free st \<noteq> []"
    and "\<forall>v. Some v \<in> set (snd (pool_memory st)) \<longrightarrow> length d \<le> v_cap v"
  shows "pool_memory st' = pool_memory st"
proof -
  obtain idx rest where f: "free st = idx # rest" using assms(2) by (cases "free st") auto
  then obtain v where v: "idx < length (slots st)" "slot_bytes (slots st ! idx) = Some v"
    using assms(1) by (auto simp: publish_payload_def acquire_def split: if_splits option.splits)
  then have "Some v \<in> slot_bytes ` set (slots st)" by (metis image_eqI nth_mem)
  then have "length d \<le> v_cap v" using assms(3) by (simp add: pool_memory_def)
  let ?b = "\<lparr> mb_bytes = v, mb_slot_index = idx \<rparr>"
  let ?s1 = "vec_write v [] (set_free rest (set_slots ((slots st)[idx := (slots st ! idx)\<lparr> slot_bytes := None \<rparr>]) st))"
  have a: "acquire st = Some (?b, ?s1)" using f v by (simp add: acquire_def)
  have "vec_data (heap ?s1) v = []" by (simp add: vec_data_def vec_write_def)
  then have "extend_from_slice d ?b ?s1 = (?b, vec_write v d ?s1)"
    using \<open>length d \<le> v_cap v\<close> by (simp add: extend_from_slice_def vec_extend_def Let_def)
  with a assms(1) have "freeze ?b (vec_write v d ?s1) = Some (r, st')" by (simp add: publish_payload_def)
  then show ?thesis
    using v by (auto simp: freeze_def drop_stored_def pool_memory_def map_update_same Let_def split: if_splits)
qed

lemma preallocate_loop_slots:
  "length (slots (preallocate_loop n st)) = length (slots st) + n \<and>
   (\<forall>b \<in> set (slots (preallocate_loop n st)).
      b \<in> set (slots st) \<or> (\<exists>v. slot_bytes b = Some v \<and> v_cap v = buffer_size st))"
proof (induction n arbitrary: st)
  case (Suc n)
  obtain v st1 where v: "vec_alloc (buffer_size st) [] st = (v, st1)" by fastforce
  then have st1: "inner st1 = inner st" "buffer_size st1 = buffer_size st" "v_cap v = buffer_size st"
    by (auto simp: vec_alloc_def split: if_splits)
  let ?st2 = "set_free (length (slots st) # free st1) (set_slots (slots st1 @ [new_slot (Some v)]) st1)"
  have "preallocate_loop (Suc n) st = preallocate_loop n ?st2" by (simp add: v)
  with Suc.IH [of ?st2] show ?case using st1 by (auto simp: new_slot_def)
qed simp

lemma pipeline_pool_shape:
  "length (slots (pipeline_pool p)) = unat (rt_buffer_count (cpl_runtime p))"
  "Some v \<in> set (snd (pool_memory (pipeline_pool p))) \<Longrightarrow> unat (rt_buffer_size (cpl_runtime p)) \<le> v_cap v"
  using preallocate_loop_slots [of "unat (rt_buffer_count (cpl_runtime p))"
      "pool_new (unat (rt_buffer_size (cpl_runtime p)))"]
  by (auto simp: pipeline_pool_def preallocate_def pool_memory_def pool_new_def)

text \<open>A source that puts what it offers into the pool the way all sources do.\<close>

locale publishing_source = media_source source offer size
  for source :: "'src media_source" and offer size +
  assumes source_publishes: "offer src = (Offers packet d, src') \<Longrightarrow> source src st =
      map_option (\<lambda>(buf, st'). (SourceNext (Inr (EncodedPacket (packet\<lparr> ep_data := Pooled buf \<rparr>))), src', st'))
        (publish_payload d st)"
begin

lemma take_step_stable:
  assumes "offer (lv_source s) = (Offers packet d, src')" "drop_stable f"
    and "\<And>r st. publish_payload d (lv_pool s) = Some (r, st) \<Longrightarrow> f st = f (lv_pool s)"
  shows "f (lv_pool (take_step source sink p metrics s)) = f (lv_pool s)"
  using assms(3) source_publishes [OF assms(1), of "lv_pool s"]
  by (cases "publish_payload d (lv_pool s)")
    (auto simp: take_step_def panic_def advance_stable [OF assms(2)] Let_def split: option.split)

lemma live_step_stable:
  assumes "live_step source packetize put sink config p metrics s s'" "drop_stable f"
    and "\<And>packet d src' r st. producer (lv_world s) = Idle \<Longrightarrow> lv_exit s = None \<Longrightarrow>
      offer (lv_source s) = (Offers packet d, src') \<Longrightarrow> publish_payload d (lv_pool s) = Some (r, st) \<Longrightarrow>
      f st = f (lv_pool s)"
  shows "f (lv_pool s') = f (lv_pool s)"
  using assms(1)
proof cases
  case Takes
  show ?thesis
  proof (cases "offer (lv_source s)")
    case (Pair x src')
    show ?thesis
    proof (cases x)
      case (Offers packet d)
      from take_step_stable [OF Pair [unfolded Offers] assms(2,3)] Takes Pair Offers show ?thesis by auto
    next
      case (Ends sel)
      from take_step_ends [OF Pair [unfolded Ends]] Takes(1) show ?thesis by simp
    qed
  qed
qed (simp_all add: advance_stable [OF assms(2)] process_step_stable [OF assms(2)])

lemma live_buffers_kept:
  assumes "(live_step source packetize put sink config p metrics)\<^sup>*\<^sup>* (live_initial src p p0 x0) s"
    and "ws_queue_limit sink \<noteq> 0" "unat (ws_queue_limit sink) + 2 \<le> unat (rt_buffer_count (cpl_runtime p))"
  shows "pool_size (lv_pool s) = pool_size (pipeline_pool p)"
    and "\<forall>(k, d) \<in> set (fst (offered (Suc (size src)) src)). length d \<le> unat (rt_buffer_size (cpl_runtime p)) \<Longrightarrow>
      pool_memory (lv_pool s) = pool_memory (pipeline_pool p)"
proof -
  let ?fits = "\<forall>(k, d) \<in> set (fst (offered (Suc (size src)) src)). length d \<le> unat (rt_buffer_size (cpl_runtime p))"
  from assms(1) have "pool_size (lv_pool s) = pool_size (pipeline_pool p) \<and>
    (?fits \<longrightarrow> pool_memory (lv_pool s) = pool_memory (pipeline_pool p))"
  proof (induction rule: rtranclp_induct)
    case base
    show ?case by (simp add: live_initial_def)
  next
    case (step s s')
    from live_reachable_inv [OF step(1) assms(2)] obtain sent ls where
      inv: "live_inv packetize put sink config p0 x0 s sent ls" and fed: "live_fed src s" by blast
    have free: "producer (lv_world s) = Idle \<Longrightarrow> free (lv_pool s) \<noteq> []"
      using live_inv_in_use(2) [OF inv assms(2)] step(3) assms(3)
      by (simp add: pool_size_def pipeline_pool_shape)
    have "pool_size (lv_pool s') = pool_size (lv_pool s)"
      using free by (intro live_step_stable [OF step(2) drop_stable_size(1)] publish_size) auto
    moreover have "pool_memory (lv_pool s') = pool_memory (lv_pool s)" if fits: ?fits
    proof (rule live_step_stable [OF step(2) drop_stable_size(2)])
      fix packet d src' r st
      assume idle: "producer (lv_world s) = Idle" "lv_exit s = None"
        and o: "offer (lv_source s) = (Offers packet d, src')" "publish_payload d (lv_pool s) = Some (r, st)"
      have "fed src True (lv_source s) (lv_taken s)" using fed idle(2) by (simp add: live_fed_def)
      from fed_offers [OF this o(1)] fits have "length d \<le> unat (rt_buffer_size (cpl_runtime p))"
        by (auto simp del: offered.simps)
      with step(3) that pipeline_pool_shape(2) [of _ p]
      show "pool_memory st = pool_memory (lv_pool s)"
        by (intro publish_memory [OF o(2) free [OF idle(1)]]) (fastforce dest: order_trans)
    qed
    ultimately show ?case using step(3) by auto
  qed
  then show "pool_size (lv_pool s) = pool_size (pipeline_pool p)"
    "?fits \<Longrightarrow> pool_memory (lv_pool s) = pool_memory (pipeline_pool p)" by blast+
qed

end

interpretation ffmpeg_publishes: publishing_source ffmpeg_next ffmpeg_offer length
proof
  fix src packet d src' and st :: store
  assume "ffmpeg_offer src = (Offers packet d, src')"
  then obtain p where "src = Arrives (PacketMessage p) # src'" "packet = message_header p" "d = wp_data p"
    by (cases src rule: ffmpeg_offer.cases) auto
  then show "ffmpeg_next src st =
      map_option (\<lambda>(buf, st'). (SourceNext (Inr (EncodedPacket (packet\<lparr> ep_data := Pooled buf \<rparr>))), src', st'))
        (publish_payload d st)"
    by (cases "publish_payload d st") (auto simp: message_header_def)
qed

lemma mock_offer_header: "mock_offer in_time slept src = (Offers packet d, src') \<Longrightarrow> packet = mock_header"
  by (induction in_time slept src rule: mock_offer.induct) (auto split: if_splits)

interpretation mock_publishes: publishing_source "mock_next in_time 0" "mock_offer in_time 0" length for in_time
proof
  fix src packet d src' and st :: store
  assume o: "mock_offer in_time 0 src = (Offers packet d, src')"
  then have "packet = mock_header" by (rule mock_offer_header)
  with mock_next_packet [OF o, of st] show "mock_next in_time 0 src st =
      map_option (\<lambda>(buf, st'). (SourceNext (Inr (EncodedPacket (packet\<lparr> ep_data := Pooled buf \<rparr>))), src', st'))
        (publish_payload d st)"
    by (simp add: mock_encoded_def mock_header_def)
qed

section \<open>The track behind a worker\<close>

lemma build_sink_limit: "build_sink hash p = Inr (sink, config) \<Longrightarrow> ws_queue_limit sink \<noteq> 0"
  using new_configured_limit
  by (auto simp: build_sink_def Let_def split: if_splits option.splits output_profile.splits)

lemma sender_loop_unbuffered:
  "sender_loop packetize put config (map unbuffered ks) p w = sender_loop packetize put config ks p w"
proof (induction ks arbitrary: p w)
  case (Cons x ks)
  obtain k d where "x = (k, d)" by fastforce
  moreover have "process_packet packetize put config (k\<lparr> ep_data := Owned [] \<rparr>) d p w =
      process_packet packetize put config k d p w"
    by (simp add: process_packet_def frame_duration_def)
  ultimately show ?case using Cons by (simp add: unbuffered_def split: prod.split sum.split)
qed simp

lemma subseq_map_inv:
  assumes "subseq xs (map f ys)"
  obtains zs where "subseq zs ys" "xs = map f zs" "prefix xs (map f ys) \<longrightarrow> prefix zs ys"
proof (cases "prefix xs (map f ys)")
  case True
  then have "xs = map f (take (length xs) ys)"
    by (metis append_eq_conv_conj prefixE take_map)
  moreover have "prefix (take (length xs) ys) ys" by (rule take_is_prefix)
  ultimately show ?thesis by (intro that [of "take (length xs) ys"]) (auto intro: prefix_imp_subseq)
next
  case False
  from assms obtain N where "xs = nths (map f ys) N" by (auto simp: subseq_conv_nths)
  with False show ?thesis by (intro that [of "nths ys N"]) (auto simp: nths_map subseq_conv_nths)
qed

lemma map_snd_unbuffered: "map snd (map unbuffered xs) = map snd xs"
  by (simp add: unbuffered_def case_prod_beta)

text \<open>A message of the worker as the sender sees it.\<close>

definition as_packet :: "worker_packet \<Rightarrow> encoded_packet \<times> u8 list" where
  "as_packet m = (message_header m, wp_data m)"

lemma ffmpeg_offered_packets:
  "length arrivals < n \<Longrightarrow>
     map unbuffered (fst (ffmpeg_source.offered n arrivals)) = map as_packet (fst (arrived arrivals))"
proof (induction n arbitrary: arrivals)
  case (Suc n)
  then show ?case
    by (cases arrivals rule: arrived.cases)
      (auto simp: case_prod_beta unbuffered_def as_packet_def message_header_def)
qed simp

lemma borne_drop_all:
  "borne st ls \<Longrightarrow> \<exists>st'. drop_storages (map ep_data (map fst ls)) st = Some st' \<and> borne st' []"
proof (induction ls arbitrary: st)
  case (Cons x ls)
  obtain k d where x: "x = (k, d)" by fastforce
  from Cons.prems have "borne st ([] @ (k, d) # ls)" by (simp add: x)
  from borne_drop [OF this] obtain st1 where "drop_storages [ep_data k] st = Some st1" "borne st1 ls" by auto
  with Cons.IH show ?case by (auto simp: x bind_eq_Some_conv)
qed simp

text \<open>Once the loop has ended, nothing is on its way into the queue.\<close>

lemma take_step_exit:
  assumes "lv_exit s = None" "lv_exit (take_step source sink p metrics s) \<noteq> None"
  shows "lv_world (take_step source sink p metrics s) = lv_world s"
proof (cases "source (lv_source s) (lv_pool s)")
  case None
  then show ?thesis by (simp add: take_step_def panic_def lv_world_def)
next
  case (Some r)
  then obtain sel src pool where r: "source (lv_source s) (lv_pool s) = Some (sel, src, pool)"
    by (cases r) auto
  show ?thesis
  proof (cases sel rule: ends_loop.cases)
    case (1 payload)
    with r assms show ?thesis
      by (cases "payload = EndOfStream"; cases "payload_data pool payload")
        (simp_all add: take_step_def panic_def lv_world_def Let_def)
  qed (use r in \<open>simp_all add: take_step_def lv_world_def Let_def\<close>)
qed

lemma exit_idle:
  assumes "live_step source packetize put sink config p metrics s s'"
    and "lv_exit s \<noteq> None \<longrightarrow> producer (lv_world s) = Idle"
  shows "lv_exit s' \<noteq> None \<longrightarrow> producer (lv_world s') = Idle"
  using assms
proof (induction rule: live_step.induct)
  case (Takes s)
  then show ?case using take_step_exit by metis
next
  case (Processes s packet)
  then show ?case
    by (auto simp: process_step_def panic_def advance_def lv_world_def Let_def
        split: option.split sum.split prod.split)
qed (auto simp: advance_def panic_def lv_world_def dequeue_step_def dequeue_section_def
    split: option.split list.split)

lemma live_exit_idle:
  assumes "(live_step source packetize put sink config p metrics)\<^sup>*\<^sup>* (live_initial src p p0 x0) s"
  shows "lv_exit s \<noteq> None \<longrightarrow> producer (lv_world s) = Idle"
  using assms
proof (induction rule: rtranclp_induct)
  case base
  show ?case by (simp add: live_initial_def)
next
  case (step s s')
  show ?case by (rule exit_idle [OF step(2,3)])
qed

lemma live_inv_end:
  assumes "live_inv packetize put sink config p0 x0 s sent ls" "producer (lv_world s) = Idle"
  shows "\<exists>st. drop_stages s = Some st \<and> in_use (stats st) = 0"
proof -
  have "borne (lv_pool s) ls" "map fst ls = reading (sender (lv_world s)) @ w_queue (shared (lv_world s))"
    using assms by (simp_all add: live_inv_def carried_def Let_def)
  with borne_drop_all [of "lv_pool s" ls] held_none show ?thesis
    by (auto simp: drop_stages_def borne_def Let_def)
qed

section \<open>A sender that has not run yet\<close>

text \<open>The loop is between two payloads, and the sender has not looked into the queue.\<close>

definition ready :: "webrtc_world \<Rightarrow> nat \<Rightarrow> bool" where
  "ready w n \<longleftrightarrow> producer w = Idle \<and> returned_ok w \<and> sender w = Dequeuing \<and>
     w_error (shared w) = None \<and> \<not> w_closed (shared w) \<and> length (w_queue (shared w)) = n"

lemma ready_consume:
  fixes k :: encoded_packet and metrics :: bool
  assumes "ready w n" "n < unat (ws_queue_limit sink)"
  defines "v1 \<equiv> consume_step sink metrics (EncodedPacket k) w"
  defines "v2 \<equiv> check_step k v1"
  shows "consume_drops (EncodedPacket k) w = []"
    "producer v1 = Checking k" "check_drops k v1 = []"
    "producer v2 = Enqueuing k" "enqueue_drops sink k (shared v2) = []"
    "ready (enqueue_step sink k v2) (Suc n)"
proof -
  have e: "shared_error (shared w) = Inr ()" using assms(1) by (simp add: ready_def shared_error_def)
  have v1: "v1 = w\<lparr> shared := install_metrics metrics (shared w), producer := Checking k \<rparr>"
    using assms(1) by (simp add: v1_def consume_step_def ready_def shared_error_def install_metrics_def)
  then have v2: "v2 = w\<lparr> shared := install_metrics metrics (shared w), producer := Enqueuing k \<rparr>"
    using assms(1) by (simp add: v2_def check_step_def ready_def shared_error_def install_metrics_def)
  show "consume_drops (EncodedPacket k) w = []" using e by (simp add: consume_drops_def)
  show "producer v1 = Checking k" "producer v2 = Enqueuing k" by (simp_all add: v1 v2)
  show "check_drops k v1 = []"
    using assms(1) by (simp add: check_drops_def v1 ready_def shared_error_def install_metrics_def)
  have s: "enqueue_section sink k (shared v2) =
      (Enqueued, (shared v2)\<lparr> w_queue := w_queue (shared v2) @ [k] \<rparr>)"
    using assms(1,2) by (simp add: enqueue_section_def v2 ready_def install_metrics_def)
  show "enqueue_drops sink k (shared v2) = []" using s by (simp add: enqueue_drops_def)
  show "ready (enqueue_step sink k v2) (Suc n)"
    using s assms(1) by (simp add: enqueue_step_def reply_def ready_def returned_ok_def v2 install_metrics_def)
qed

abbreviation webrtc_run where
  "webrtc_run packetize put sink config p metrics arrivals p0 x0 s \<equiv>
     (live_step ffmpeg_next packetize put sink config p metrics)\<^sup>*\<^sup>* (live_initial arrivals p p0 x0) s"

lemma fill_step:
  assumes run: "webrtc_run packetize put sink config p metrics arrivals p0 x0 s" and limit: "n < unat (ws_queue_limit sink)"
    and s: "ready (lv_world s) n" "lv_exit s = None" "packetizer (lv_sink s) = p0" "track (lv_sink s) = x0"
    and src: "lv_source s = Arrives (PacketMessage m) # rest"
  obtains s' where "webrtc_run packetize put sink config p metrics arrivals p0 x0 s'" "ready (lv_world s') (Suc n)"
    "lv_exit s' = None" "packetizer (lv_sink s') = p0" "track (lv_sink s') = x0" "lv_source s' = rest" "\<not> lv_panicked s'"
proof -
  have "ws_queue_limit sink \<noteq> 0" using limit by auto
  from ffmpeg_source.live_reachable_inv [OF run this] obtain sent ls where
    "live_inv packetize put sink config p0 x0 s sent ls" by blast
  then have b: "borne (lv_pool s) ls" "\<not> lv_panicked s" by (simp_all add: live_inv_def Let_def)
  have "ffmpeg_offer (lv_source s) = (Offers (message_header m) (wp_data m), rest)" by (simp add: src)
  from ffmpeg_source.take_step_offers [OF this b(1), of sink p metrics] obtain k st where
    t: "take_step ffmpeg_next sink p metrics s =
       advance (consume_step sink metrics (EncodedPacket k) (lv_world s)) (consume_drops (EncodedPacket k) (lv_world s))
         (s\<lparr> lv_source := rest, lv_pool := st, lv_taken := lv_taken s @ [(k, wp_data m)] \<rparr>)" by metis
  define v1 where "v1 = consume_step sink metrics (EncodedPacket k) (lv_world s)"
  define v2 where "v2 = check_step k v1"
  have v: "consume_drops (EncodedPacket k) (lv_world s) = []"
    "producer v1 = Checking k" "check_drops k v1 = []"
    "producer v2 = Enqueuing k" "enqueue_drops sink k (shared v2) = []"
    "ready (enqueue_step sink k v2) (Suc n)"
    unfolding v2_def v1_def by (rule ready_consume [OF s(1) limit])+
  define f where "f w = s\<lparr> lv_source := rest, lv_taken := lv_taken s @ [(k, wp_data m)], lv_pool := st,
      lv_sink := (lv_sink s)\<lparr> sink_world := w \<rparr> \<rparr>" for w
  have f: "lv_world (f w) = w" "\<not> lv_panicked (f w)" "advance w' [] (f w) = f w'" for w w'
    using b(2) by (simp_all add: f_def lv_world_def advance_ok)
  let ?R = "live_step ffmpeg_next packetize put sink config p metrics"
  have "?R s (f v1)"
    using Takes [OF b(2) s(2), where source = ffmpeg_next and sink = sink and p = p and metrics = metrics] s(1) t v(1)
    by (simp add: ready_def v1_def [symmetric] advance_ok f_def)
  moreover have "?R (f v1) (f v2)"
    using Checks [of "f v1" k] v(2,3) by (simp add: f v2_def)
  moreover have "?R (f v2) (f (enqueue_step sink k v2))"
    using Enqueues [of "f v2" k ffmpeg_next packetize put sink config p metrics] v(4,5) by (simp add: f)
  ultimately have "webrtc_run packetize put sink config p metrics arrivals p0 x0 (f (enqueue_step sink k v2))"
    using run by (meson rtranclp.rtrancl_into_rtrancl)
  then show ?thesis
    using v(6) s b(2) by (intro that [of "f (enqueue_step sink k v2)"]) (simp_all add: f f_def lv_world_def)
qed

lemma fill_queue:
  assumes "length messages \<le> unat (ws_queue_limit sink)"
  obtains s where
    "webrtc_run packetize put sink config p metrics (map (Arrives \<circ> PacketMessage) messages @ rest) p0 x0 s"
    "ready (lv_world s) (length messages)" "lv_exit s = None" "packetizer (lv_sink s) = p0" "track (lv_sink s) = x0"
    "lv_source s = rest" "\<not> lv_panicked s"
  using assms
proof (induction messages arbitrary: rest thesis rule: rev_induct)
  case Nil
  show ?case
    by (rule Nil.prems(1) [of "live_initial rest p p0 x0"])
      (simp_all add: live_initial_def track_initial_def lv_world_def ready_def returned_ok_def webrtc_initial_def)
next
  case (snoc m messages)
  from snoc.prems(2) have l: "length messages < unat (ws_queue_limit sink)" by simp
  then have l': "length messages \<le> unat (ws_queue_limit sink)" by simp
  show ?case
  proof (rule snoc.IH [OF _ l', of "Arrives (PacketMessage m) # rest"])
    fix s :: "(arrival list, 'a, 'b) live"
    assume run: "webrtc_run packetize put sink config p metrics
        (map (Arrives \<circ> PacketMessage) messages @ Arrives (PacketMessage m) # rest) p0 x0 s"
      and s: "ready (lv_world s) (length messages)" "lv_exit s = None" "packetizer (lv_sink s) = p0"
        "track (lv_sink s) = x0" "lv_source s = Arrives (PacketMessage m) # rest"
    from fill_step [OF run l s] obtain s' where
      "webrtc_run packetize put sink config p metrics
        (map (Arrives \<circ> PacketMessage) messages @ Arrives (PacketMessage m) # rest) p0 x0 s'"
      "ready (lv_world s') (Suc (length messages))" "lv_exit s' = None" "packetizer (lv_sink s') = p0"
      "track (lv_sink s') = x0" "lv_source s' = rest" "\<not> lv_panicked s'" .
    then show thesis by (intro snoc.prems(1) [of s']) (simp_all add: comp_def)
  qed
qed

lemma end_of_stream_run:
  assumes "length messages \<le> unat (ws_queue_limit sink)"
  shows "\<exists>s. (live_step ffmpeg_next packetize put sink config p metrics)\<^sup>*\<^sup>*
      (live_initial (map (Arrives \<circ> PacketMessage) messages @ [Arrives EndMessage]) p p0 x0) s \<and>
    lv_exit s = Some ExitEndOfStream \<and> length (w_queue (shared (lv_world s))) = length messages \<and>
    packetizer (lv_sink s) = p0 \<and> track (lv_sink s) = x0"
proof -
  obtain s where
    run: "webrtc_run packetize put sink config p metrics (map (Arrives \<circ> PacketMessage) messages @ [Arrives EndMessage]) p0 x0 s"
    and s: "ready (lv_world s) (length messages)" "lv_exit s = None" "packetizer (lv_sink s) = p0" "track (lv_sink s) = x0"
      "lv_source s = [Arrives EndMessage]" "\<not> lv_panicked s"
    by (rule fill_queue [OF assms])
  have "ffmpeg_offer (lv_source s) = (Ends (SourceNext (Inr EndOfStream)), [])" using s(5) by simp
  from ffmpeg_source.take_step_ends [OF this, of sink p metrics]
  have t: "take_step ffmpeg_next sink p metrics s = s\<lparr> lv_source := [], lv_exit := Some ExitEndOfStream \<rparr>" by simp
  have "live_step ffmpeg_next packetize put sink config p metrics s (s\<lparr> lv_source := [], lv_exit := Some ExitEndOfStream \<rparr>)"
    using Takes [OF s(6,2), of ffmpeg_next packetize put sink config p metrics] s(1) t by (simp add: ready_def)
  from rtranclp.rtrancl_into_rtrancl [OF run this] s show ?thesis
    by (intro exI [of _ "s\<lparr> lv_source := [], lv_exit := Some ExitEndOfStream \<rparr>"] conjI)
      (simp_all add: ready_def lv_world_def)
qed

text \<open>Two packets of the scripted source, and a pipeline with the default sink.\<close>

definition example_messages :: "worker_packet list" where
  "example_messages = map scripted_packet [0..<2]"

abbreviation "example_run sink config p \<equiv>
  (live_step ffmpeg_next counting_packetize (track_writer scripted_write) sink config p True)\<^sup>*\<^sup>*
    (live_initial (map (Arrives \<circ> PacketMessage) example_messages @ [Arrives EndMessage]) p 0 ([], []))"

lemma example_run_ends:
  assumes "2 \<le> unat (ws_queue_limit sink)"
  obtains s where "example_run sink config p s" "lv_exit s = Some ExitEndOfStream"
    "length (w_queue (shared (lv_world s))) = 2" "track (lv_sink s) = ([], [])"
  using end_of_stream_run [of example_messages sink counting_packetize "track_writer scripted_write" config p True 0 "([], [])"]
    assms by (auto simp: example_messages_def)

lemma build_sink_default:
  assumes "cpl_outputs p = []" "\<forall>n. cpl_network p = Some n \<longrightarrow> 12 < unat (cn_packet_size_limit n)"
  obtains sink config where "build_sink hash p = Inr (sink, config)" "ws_queue_limit sink = 10"
  using assms by (cases "cpl_network p") (auto simp: build_sink_def new_configured_def Let_def)

section \<open>What is delivered\<close>

text \<open>
  C18: a running pipeline from an FFmpeg worker to the WebRTC sink, however its loop, the sender task and
  cancellation interleave, never panics: every packet is read and dropped while it holds its
  buffer. The packetizer and the track are at every moment where packetizing and writing some of the messages
  of the worker, in their order, has brought them; under the blocking policy these are the first ones, with
  none left out. When the run is over, dropping its stages returns every buffer to the pool.
\<close>

theorem live_pipeline_exact:
  assumes "build_sink hash p = Inr (sink, config)"
    and "(live_step ffmpeg_next packetize put sink config p metrics)\<^sup>*\<^sup>* (live_initial arrivals p p0 x0) s"
  shows "\<not> lv_panicked s \<and>
    (\<exists>messages. subseq messages (fst (arrived arrivals)) \<and>
       (ws_drop_policy sink = RouterBlock \<longrightarrow> prefix messages (fst (arrived arrivals))) \<and>
       sender_loop packetize put config (map as_packet messages) p0 x0 =
         (pending_error (lv_world s), packetizer (lv_sink s), track (lv_sink s))) \<and>
    (lv_exit s \<noteq> None \<longrightarrow> (\<exists>st. drop_stages s = Some st \<and> in_use (stats st) = 0))"
proof -
  from ffmpeg_source.live_reachable_inv [OF assms(2) build_sink_limit [OF assms(1)]] obtain sent ls where
    inv: "live_inv packetize put sink config p0 x0 s sent ls" and fed: "ffmpeg_source.live_fed arrivals s" by blast
  have split: "subseq (sent @ ls) (lv_taken s)"
    "ws_drop_policy sink = RouterBlock \<longrightarrow> prefix (sent @ ls) (lv_taken s)"
    using inv by (auto simp: live_inv_def split_ok_def Let_def)
  from fed have taken: "prefix (map unbuffered (lv_taken s)) (map as_packet (fst (arrived arrivals)))"
    using ffmpeg_offered_packets [of arrivals "Suc (length arrivals)"]
    by (auto simp: ffmpeg_source.live_fed_def ffmpeg_source.fed_def Let_def)
  have "subseq sent (lv_taken s)"
    using subseq_order.order_trans [OF list_emb_prefix [of "(=)" sent sent ls] split(1)] by simp
  then have "subseq (map unbuffered sent) (map as_packet (fst (arrived arrivals)))"
    by (meson prefix_imp_subseq subseq_map subseq_order.order_trans taken)
  then obtain messages where m: "subseq messages (fst (arrived arrivals))" "map unbuffered sent = map as_packet messages"
    "prefix (map unbuffered sent) (map as_packet (fst (arrived arrivals))) \<longrightarrow> prefix messages (fst (arrived arrivals))"
    by (rule subseq_map_inv)
  have "prefix messages (fst (arrived arrivals))" if "ws_drop_policy sink = RouterBlock"
    using m(3) split(2) that taken by (meson append_prefixD map_mono_prefix prefix_order.order_trans)
  moreover have "sender_loop packetize put config (map as_packet messages) p0 x0 =
      (pending_error (lv_world s), packetizer (lv_sink s), track (lv_sink s))"
    using inv sender_loop_unbuffered [of packetize put config sent p0 x0]
    by (simp add: live_inv_def Let_def m(2) del: pending_error.simps)
  moreover have "\<not> lv_panicked s" using inv by (simp add: live_inv_def Let_def)
  moreover have "\<exists>st. drop_stages s = Some st \<and> in_use (stats st) = 0" if "lv_exit s \<noteq> None"
    using live_inv_end [OF inv] live_exit_idle [OF assms(2)] that by blast
  ultimately show ?thesis using m(1) by blast
qed

theorem live_pipeline_exact_witness:
  "\<exists>sink config s st. build_sink (\<lambda>_. 7) sentinel = Inr (sink, config) \<and> example_run sink config sentinel s \<and>
     lv_exit s = Some ExitEndOfStream \<and> \<not> lv_panicked s \<and> drop_stages s = Some st \<and> in_use (stats st) = 0"
proof -
  obtain sink config where sink: "build_sink (\<lambda>_. 7) sentinel = Inr (sink, config)" "ws_queue_limit sink = 10"
    by (rule build_sink_default [of sentinel]) (simp_all add: sentinel_def)
  obtain s where s: "example_run sink config sentinel s" "lv_exit s = Some ExitEndOfStream"
    by (rule example_run_ends [of sink config sentinel]) (simp add: sink(2))
  from live_pipeline_exact [OF sink(1) s(1)] s sink(1) show ?thesis by blast
qed

text \<open>
  C19: a compiled pipeline from an FFmpeg worker whose sink is the WebRTC sink alone, which queues at most
  30 packets, never needs a buffer more than it has preallocated: at most the queue limit and two buffers
  are in use, the watermark that the runtime reports stays what it was at the start, and if the packets fit
  the planned buffer size, the pool allocates no memory beyond that. The copy that the sender makes of
  every packet for the packetizer is not the pool's and is not counted.
\<close>

theorem live_pool_never_grows:
  assumes "compile_internal m capabilities vars = Inr g" "p \<in> set (cg_pipelines g)"
    and "build_sink hash p = Inr (sink, config)" "unat (ws_queue_limit sink) \<le> 30"
    and "(live_step ffmpeg_next packetize put sink config p metrics)\<^sup>*\<^sup>* (live_initial arrivals p p0 x0) s"
  shows "in_use (stats (lv_pool s)) \<le> unat (ws_queue_limit sink) + 2 \<and>
    st_high_watermark (stats (lv_pool s)) = st_high_watermark (stats (pipeline_pool p)) \<and>
    ((\<forall>message \<in> set (fst (arrived arrivals)). length (wp_data message) \<le> unat (rt_buffer_size (cpl_runtime p))) \<longrightarrow>
      next_addr (lv_pool s) = next_addr (pipeline_pool p))"
proof -
  note limit = build_sink_limit [OF assms(3)]
  obtain node where "compile_pipeline vars node = Inr p" by (rule compiled_valid_source [OF assms(1,2)])
  then have "rt_buffer_count (cpl_runtime p) \<in> {32, 64, 100}" using runtime_wf_compiled by (simp add: runtime_wf_def)
  then have "unat (ws_queue_limit sink) + 2 \<le> unat (rt_buffer_count (cpl_runtime p))" using assms(4) by auto
  note kept = ffmpeg_publishes.live_buffers_kept [OF assms(5) limit this]
  from ffmpeg_source.live_reachable_inv [OF assms(5) limit] obtain sent ls where
    inv: "live_inv packetize put sink config p0 x0 s sent ls" by blast
  have "in_use (stats (lv_pool s)) \<le> unat (ws_queue_limit sink) + 2" by (rule live_inv_in_use(1) [OF inv limit])
  moreover have "st_high_watermark (stats (lv_pool s)) = st_high_watermark (stats (pipeline_pool p))"
    using kept(1) by (simp add: pool_size_def)
  moreover have "next_addr (lv_pool s) = next_addr (pipeline_pool p)"
    if fits: "\<forall>message \<in> set (fst (arrived arrivals)). length (wp_data message) \<le> unat (rt_buffer_size (cpl_runtime p))"
  proof -
    let ?offered = "fst (ffmpeg_source.offered (Suc (length arrivals)) arrivals)"
    have "map snd ?offered = map snd (map unbuffered ?offered)" by (rule map_snd_unbuffered [symmetric])
    also have "\<dots> = map snd (map as_packet (fst (arrived arrivals)))"
      by (subst ffmpeg_offered_packets) (rule lessI, rule refl)
    also have "\<dots> = map wp_data (fst (arrived arrivals))" by (simp add: as_packet_def)
    finally have "snd ` set ?offered = wp_data ` set (fst (arrived arrivals))" by (metis list.set_map)
    with fits have "\<forall>x \<in> set ?offered. length (snd x) \<le> unat (rt_buffer_size (cpl_runtime p))"
      by (metis (no_types, lifting) imageE image_eqI)
    then have "\<forall>(k, d) \<in> set ?offered. length d \<le> unat (rt_buffer_size (cpl_runtime p))"
      by (intro ballI) (simp only: case_prod_beta)
    from kept(2) [OF this] show ?thesis by (simp add: pool_memory_def)
  qed
  ultimately show ?thesis by blast
qed

theorem live_pool_never_grows_witness:
  "\<exists>g p sink config s. compile_internal (example_manifest [example_device ''a'']) None Map.empty = Inr g \<and>
     cg_pipelines g = [p] \<and> build_sink (\<lambda>_. 7) p = Inr (sink, config) \<and> example_run sink config p s \<and>
     length (w_queue (shared (lv_world s))) = 2 \<and> in_use (stats (lv_pool s)) \<le> 12 \<and>
     next_addr (lv_pool s) = next_addr (pipeline_pool p)"
proof -
  obtain g p where g: "compile_internal (example_manifest [example_device ''a'']) None Map.empty = Inr g"
    "cg_pipelines g = [p]" "rt_buffer_size (cpl_runtime p) = 2048" "cpl_outputs p = []"
    by (rule example_graph)
  then have "p \<in> set (cg_pipelines g)" by simp
  then obtain node where "compile_pipeline Map.empty node = Inr p" by (rule compiled_valid_source [OF g(1)])
  then have "runtime_wf p" by (rule runtime_wf_compiled)
  with g(3) have "\<forall>n. cpl_network p = Some n \<longrightarrow> 12 < unat (cn_packet_size_limit n)" by (auto simp: runtime_wf_def)
  with g(4) obtain sink config where sink: "build_sink (\<lambda>_. 7) p = Inr (sink, config)" "ws_queue_limit sink = 10"
    using build_sink_default by blast
  obtain s where s: "example_run sink config p s" "length (w_queue (shared (lv_world s))) = 2"
    by (rule example_run_ends [of sink config p]) (simp add: sink(2))
  have "fst (arrived (map (Arrives \<circ> PacketMessage) example_messages @ [Arrives EndMessage])) = example_messages"
    by (simp add: example_messages_def numeral_eq_Suc)
  moreover have "\<forall>message \<in> set example_messages. length (wp_data message) \<le> 2048"
    by (simp add: example_messages_def scripted_packet_def numeral_eq_Suc)
  ultimately have "in_use (stats (lv_pool s)) \<le> 12 \<and> next_addr (lv_pool s) = next_addr (pipeline_pool p)"
    using live_pool_never_grows [OF g(1) \<open>p \<in> set (cg_pipelines g)\<close> sink(1) _ s(1)] by (simp add: sink(2) g(3))
  with g sink s show ?thesis by blast
qed

text \<open>
  C20: at the end of the stream the loop returns without flushing the sink. Whatever number of packets up to
  the queue limit a worker sends before it ends, there is a run in which all of them are still in the queue,
  the track has not seen one, and the run is over as if they had been sent.
\<close>

theorem end_of_stream_loses_queue:
  assumes "length messages \<le> unat (ws_queue_limit sink)"
  shows "\<exists>s. (live_step ffmpeg_next packetize put sink config p metrics)\<^sup>*\<^sup>*
      (live_initial (map (Arrives \<circ> PacketMessage) messages @ [Arrives EndMessage]) p p0 x0) s \<and>
    lv_exit s = Some ExitEndOfStream \<and> length (w_queue (shared (lv_world s))) = length messages \<and>
    packetizer (lv_sink s) = p0 \<and> track (lv_sink s) = x0"
  by (rule end_of_stream_run [OF assms])

theorem end_of_stream_loses_queue_witness:
  "\<exists>s. (live_step ffmpeg_next counting_packetize (track_writer scripted_write) (example_sink RouterBlock) example_config
      sentinel True)\<^sup>*\<^sup>*
      (live_initial (map (Arrives \<circ> PacketMessage) [scripted_packet 0] @ [Arrives EndMessage]) sentinel 0 ([], [])) s \<and>
    lv_exit s = Some ExitEndOfStream \<and> length (w_queue (shared (lv_world s))) = 1 \<and> track (lv_sink s) = ([], [])"
  using end_of_stream_loses_queue [of "[scripted_packet 0]" "example_sink RouterBlock" counting_packetize
      "track_writer scripted_write" example_config sentinel True 0 "([], [])"]
  by (auto simp: example_sink_def)

end
