(* ===== verification/Caml_Router.thy ===== *)
theory Caml_Router
  imports Caml_Stages
begin

text \<open>
  \<open>FanoutRouter\<close> of \<^verbatim>\<open>crates/caml-core/src/runtime.rs\<close> while it runs: the pipeline loop hands each payload
  to the router, which sends a clone of it into the bounded channel of every actor, while the tasks of the
  actors receive from their channels and give what they receive to their sinks. All share the buffer pool of
  the run. \<open>Caml_Fanout\<close> has the router on the answers of its channels; here the channels are part
  of the world and every answer follows from how loop and actors interleave.

  The channels are those of tokio and stay a parameter: \<open>documented_channels\<close> is what their documentation says.
  A payload in the world carries its bytes, which the program does not store and no step looks at: they
  say what a sink must be able to read.
\<close>

section \<open>Channels\<close>

type_synonym loaded = "media_payload \<times> u8 list"

record 'c channels =
  ch_open :: "nat \<Rightarrow> 'c"
  ch_try_send :: "loaded \<Rightarrow> 'c \<Rightarrow> bool \<times> 'c"
  ch_recv :: "'c \<Rightarrow> loaded option \<times> 'c"
  ch_drop :: "'c \<Rightarrow> loaded list"

text \<open>
  A bounded channel holds what was sent and not received, in order. A send succeeds exactly if there is room,
  a receive exactly if there is something. What a channel holds is dropped with it.
\<close>

definition documented_channels :: "'c channels \<Rightarrow> ('c \<Rightarrow> loaded list) \<Rightarrow> ('c \<Rightarrow> nat) \<Rightarrow> bool" where
  "documented_channels ops content capacity \<longleftrightarrow>
     (\<forall>n. 0 < n \<and> n \<le> max_permits \<longrightarrow> content (ch_open ops n) = [] \<and> capacity (ch_open ops n) = n) \<and>
     (\<forall>x c sent c'. ch_try_send ops x c = (sent, c') \<longrightarrow> capacity c' = capacity c \<and>
        (sent \<longleftrightarrow> length (content c) < capacity c) \<and> content c' = (if sent then content c @ [x] else content c)) \<and>
     (\<forall>c r c'. ch_recv ops c = (r, c') \<longrightarrow> capacity c' = capacity c \<and>
        (case r of None \<Rightarrow> content c = [] \<and> content c' = [] | Some x \<Rightarrow> content c = x # content c')) \<and>
     (\<forall>c. ch_drop ops c = content c)"

section \<open>Clones\<close>

fun clone_storage :: "media_storage \<Rightarrow> store \<Rightarrow> (media_storage \<times> store) option" where
  "clone_storage (Pooled buf) st = map_option (\<lambda>(buf', st'). (Pooled buf', st')) (clone_pooled buf st)"
| "clone_storage (Owned v) st = Some (Owned v, st)"
| "clone_storage (BorrowedSlice s) st = Some (BorrowedSlice s, st)"
| "clone_storage (MappedFrame s) st = Some (MappedFrame s, st)"
| "clone_storage (FfmpegPacket s) st = Some (FfmpegPacket s, st)"

fun clone_payload :: "media_payload \<Rightarrow> store \<Rightarrow> (media_payload \<times> store) option" where
  "clone_payload (EncodedPacket packet) st =
     map_option (\<lambda>(storage, st'). (EncodedPacket (packet\<lparr> ep_data := storage \<rparr>), st')) (clone_storage (ep_data packet) st)"
| "clone_payload (DecodedFrame frame) st =
     map_option (\<lambda>(storage, st'). (DecodedFrame (frame\<lparr> df_data := storage \<rparr>), st')) (clone_storage (df_data frame) st)"
| "clone_payload EndOfStream st = Some (EndOfStream, st)"

definition clone_loaded :: "loaded \<Rightarrow> store \<Rightarrow> (loaded \<times> store) option" where
  "clone_loaded x st = map_option (\<lambda>(payload, st'). ((payload, snd x), st')) (clone_payload (fst x) st)"

definition drop_loaded :: "loaded \<Rightarrow> store \<Rightarrow> store option" where
  "drop_loaded x st = drop_payload (fst x) st"

section \<open>The router\<close>

text \<open>
  An actor with its channel. Its sink may keep payloads after \<open>consume\<close> has returned, as the WebRTC sink
  does, but no more than \<open>ra_room\<close>; \<open>ra_busy\<close> says that \<open>consume\<close> is running. \<open>ra_received\<close> is a ghost.
\<close>

record 'c router_actor =
  ra_policy :: router_drop_policy
  ra_room :: nat
  ra_channel :: 'c
  ra_busy :: bool
  ra_kept :: "loaded list"
  ra_received :: "loaded list"

text \<open>
  Where \<open>consume\<close> of the router is: at an actor, waiting with a clone for room in its channel, or between the
  two attempts of the policy that says it evicts.
\<close>

datatype router_at = Resting | At nat loaded | Waits nat loaded | Yields nat loaded

record 'c router =
  ro_actors :: "'c router_actor list"
  ro_at :: router_at

definition router_start :: "'c channels \<Rightarrow> ('sink \<Rightarrow> nat) \<Rightarrow> 'sink sink_actor list \<Rightarrow> 'c router" where
  "router_start ops room actors =
     \<lparr> ro_actors = map (\<lambda>a. \<lparr> ra_policy = sa_policy a, ra_room = room (sa_sink a),
         ra_channel = ch_open ops (sa_capacity a), ra_busy = False, ra_kept = [], ra_received = [] \<rparr>) actors,
       ro_at = Resting \<rparr>"

definition send_to :: "'c channels \<Rightarrow> nat \<Rightarrow> loaded \<Rightarrow> 'c router \<Rightarrow> bool \<times> 'c router" where
  "send_to ops i x ro =
     (let a = ro_actors ro ! i; (sent, c) = ch_try_send ops x (ra_channel a) in
      (sent, ro\<lparr> ro_actors := (ro_actors ro)[i := a\<lparr> ra_channel := c \<rparr>] \<rparr>))"

text \<open>\<open>try_send\<close> of a clone; if it fails, the clone is dropped with the error.\<close>

definition try_clone :: "'c channels \<Rightarrow> nat \<Rightarrow> loaded \<Rightarrow> 'c router \<Rightarrow> store \<Rightarrow> (bool \<times> 'c router \<times> store) option" where
  "try_clone ops i x ro st =
     (case clone_loaded x st of
        None \<Rightarrow> None
      | Some (y, st1) \<Rightarrow>
          (let (sent, ro1) = send_to ops i y ro in
           if sent then Some (True, ro1, st1)
           else map_option (\<lambda>st2. (False, ro1, st2)) (drop_loaded y st1)))"

text \<open>
  \<open>consume\<close> up to the next point where other tasks may run. \<open>send\<close> of a blocking actor goes on when there
  is room; a send never finds its actor gone, since the actors end only with the router.
\<close>

definition router_turn :: "'c channels \<Rightarrow> 'c router \<Rightarrow> store \<Rightarrow> ('c router \<times> store) option" where
  "router_turn ops ro st =
     (case ro_at ro of
        Resting \<Rightarrow> Some (ro, st)
      | At i x \<Rightarrow>
          if i < length (ro_actors ro)
          then (case ra_policy (ro_actors ro ! i) of
              RouterBlock \<Rightarrow>
                map_option (\<lambda>(y, st1).
                    (let (sent, ro1) = send_to ops i y ro in
                     (ro1\<lparr> ro_at := if sent then At (Suc i) x else Waits i x \<rparr>, st1)))
                  (clone_loaded x st)
            | RouterDropNewest \<Rightarrow>
                map_option (\<lambda>(sent, ro1, st1). (ro1\<lparr> ro_at := At (Suc i) x \<rparr>, st1)) (try_clone ops i x ro st)
            | RouterDropOldest \<Rightarrow>
                map_option (\<lambda>(sent, ro1, st1). (ro1\<lparr> ro_at := if sent then At (Suc i) x else Yields i x \<rparr>, st1))
                  (try_clone ops i x ro st))
          else map_option (\<lambda>st1. (ro\<lparr> ro_at := Resting \<rparr>, st1)) (drop_loaded x st)
      | Waits i x \<Rightarrow>
          (let (sent, ro1) = send_to ops i x ro in Some (ro1\<lparr> ro_at := if sent then At (Suc i) x else Waits i x \<rparr>, st))
      | Yields i x \<Rightarrow>
          map_option (\<lambda>(sent, ro1, st1). (ro1\<lparr> ro_at := At (Suc i) x \<rparr>, st1)) (try_clone ops i x ro st))"

section \<open>The pipeline with its router\<close>

record ('src, 'c) fan =
  fn_source :: 'src
  fn_pool :: store
  fn_router :: "'c router"
  fn_exit :: "pipeline_loop_exit option"
  fn_panicked :: bool
  fn_taken :: "loaded list"

definition fan_panic :: "('src, 'c) fan \<Rightarrow> ('src, 'c) fan" where
  "fan_panic s = s\<lparr> fn_panicked := True \<rparr>"

definition fan_take ::
  "'src media_source \<Rightarrow> compiled_pipeline \<Rightarrow> bool \<Rightarrow> ('src, 'c) fan \<Rightarrow> ('src, 'c) fan" where
  "fan_take source p metrics s =
     (case source (fn_source s) (fn_pool s) of
        None \<Rightarrow> fan_panic s
      | Some (sel, src, pool) \<Rightarrow>
          (let s1 = s\<lparr> fn_source := src, fn_pool := pool \<rparr>;
               over = s1\<lparr> fn_exit := fst (loop_turn p metrics (answered sel None (Inr ()))) \<rparr> in
           case sel of
             SourceNext (Inr payload) \<Rightarrow>
               if payload = EndOfStream then over
               else (case payload_data pool payload of
                   None \<Rightarrow> fan_panic s
                 | Some bytes \<Rightarrow> s1\<lparr> fn_router := (fn_router s)\<lparr> ro_at := At 0 (payload, bytes) \<rparr>,
                     fn_taken := fn_taken s @ [(payload, bytes)] \<rparr>)
           | _ \<Rightarrow> over))"

definition fan_route :: "'c channels \<Rightarrow> ('src, 'c) fan \<Rightarrow> ('src, 'c) fan" where
  "fan_route ops s =
     (case router_turn ops (fn_router s) (fn_pool s) of
        None \<Rightarrow> fan_panic s
      | Some (ro, pool) \<Rightarrow> s\<lparr> fn_router := ro, fn_pool := pool \<rparr>)"

definition set_actor :: "nat \<Rightarrow> 'c router_actor \<Rightarrow> ('src, 'c) fan \<Rightarrow> ('src, 'c) fan" where
  "set_actor i a s =
     s\<lparr> fn_router := (fn_router s)\<lparr> ro_actors := (ro_actors (fn_router s))[i := a] \<rparr> \<rparr>"

definition receive :: "loaded \<Rightarrow> 'c \<Rightarrow> 'c router_actor \<Rightarrow> 'c router_actor" where
  "receive x c a = a\<lparr> ra_channel := c, ra_busy := True, ra_kept := ra_kept a @ [x],
     ra_received := ra_received a @ [x] \<rparr>"

definition release :: "nat \<Rightarrow> loaded \<Rightarrow> loaded list \<Rightarrow> ('src, 'c) fan \<Rightarrow> ('src, 'c) fan" where
  "release i x kept s =
     (case drop_loaded x (fn_pool s) of
        None \<Rightarrow> fan_panic s
      | Some pool \<Rightarrow> set_actor i ((ro_actors (fn_router s) ! i)\<lparr> ra_kept := kept \<rparr>) (s\<lparr> fn_pool := pool \<rparr>))"

text \<open>Who takes a step: the task of the pipeline, or an actor with its sink.\<close>

datatype fan_task = PipelineTask | ActorTask nat

inductive fan_step ::
  "'src media_source \<Rightarrow> 'c channels \<Rightarrow> compiled_pipeline \<Rightarrow> bool \<Rightarrow> fan_task \<Rightarrow> ('src, 'c) fan \<Rightarrow> ('src, 'c) fan \<Rightarrow> bool"
  for source ops p metrics where
  Takes: "\<not> fn_panicked s \<Longrightarrow> fn_exit s = None \<Longrightarrow> ro_at (fn_router s) = Resting \<Longrightarrow>
    fan_step source ops p metrics PipelineTask s (fan_take source p metrics s)"
| Cancels: "\<not> fn_panicked s \<Longrightarrow> fn_exit s = None \<Longrightarrow> ro_at (fn_router s) = Resting \<Longrightarrow>
    fan_step source ops p metrics PipelineTask s (s\<lparr> fn_exit := Some ExitCancelled \<rparr>)"
| Routes: "\<not> fn_panicked s \<Longrightarrow> ro_at (fn_router s) \<noteq> Resting \<Longrightarrow>
    fan_step source ops p metrics PipelineTask s (fan_route ops s)"
| Receives: "\<not> fn_panicked s \<Longrightarrow> i < length (ro_actors (fn_router s)) \<Longrightarrow> a = ro_actors (fn_router s) ! i \<Longrightarrow>
    \<not> ra_busy a \<Longrightarrow> ch_recv ops (ra_channel a) = (Some x, c) \<Longrightarrow>
    fan_step source ops p metrics (ActorTask i) s (set_actor i (receive x c a) s)"
| Returns: "\<not> fn_panicked s \<Longrightarrow> i < length (ro_actors (fn_router s)) \<Longrightarrow> a = ro_actors (fn_router s) ! i \<Longrightarrow>
    ra_busy a \<Longrightarrow> length (ra_kept a) \<le> ra_room a \<Longrightarrow>
    fan_step source ops p metrics (ActorTask i) s (set_actor i (a\<lparr> ra_busy := False \<rparr>) s)"
| Releases: "\<not> fn_panicked s \<Longrightarrow> i < length (ro_actors (fn_router s)) \<Longrightarrow> a = ro_actors (fn_router s) ! i \<Longrightarrow>
    ra_kept a = us @ x # vs \<Longrightarrow>
    fan_step source ops p metrics (ActorTask i) s (release i x (us @ vs) s)"

definition any_fan_step ::
  "'src media_source \<Rightarrow> 'c channels \<Rightarrow> compiled_pipeline \<Rightarrow> bool \<Rightarrow> ('src, 'c) fan \<Rightarrow> ('src, 'c) fan \<Rightarrow> bool" where
  "any_fan_step source ops p metrics s s' \<longleftrightarrow> (\<exists>task. fan_step source ops p metrics task s s')"

text \<open>
  The drop of the router at the end of a run aborts the tasks of its actors: what the channels hold and the
  sinks keep is dropped.
\<close>

fun drop_all :: "loaded list \<Rightarrow> store \<Rightarrow> store option" where
  "drop_all [] st = Some st"
| "drop_all (x # xs) st = Option.bind (drop_loaded x st) (drop_all xs)"

definition drop_router :: "'c channels \<Rightarrow> ('src, 'c) fan \<Rightarrow> store option" where
  "drop_router ops s =
     drop_all (concat (map (\<lambda>a. ch_drop ops (ra_channel a) @ ra_kept a) (ro_actors (fn_router s)))) (fn_pool s)"

definition fan_initial ::
  "'c channels \<Rightarrow> ('sink \<Rightarrow> nat) \<Rightarrow> 'sink sink_actor list \<Rightarrow> 'src \<Rightarrow> compiled_pipeline \<Rightarrow> ('src, 'c) fan" where
  "fan_initial ops room actors src p =
     \<lparr> fn_source = src, fn_pool = pipeline_pool p, fn_router = router_start ops room actors,
       fn_exit = None, fn_panicked = False, fn_taken = [] \<rparr>"

end
