(* ===== verification/Caml_Router_Correct.thy ===== *)
theory Caml_Router_Correct
  imports Caml_Router Caml_Delivery_Correct "HOL-Library.Multiset"
begin

text \<open>
  The fan-out router among its actors: no operation panics, every sink gets what the source gave, in order
  and with its bytes, how many buffers are in use, what a dropping policy guarantees and what a blocking
  sink can do to the others.
\<close>

section \<open>Payloads that are alive\<close>

text \<open>A pool whose read handles are those of the payloads in \<open>A\<close>, clones counted, each with its bytes.\<close>

fun payload_buffer :: "media_payload \<Rightarrow> pooled_buffer" where
  "payload_buffer (EncodedPacket k) = buffer k"
| "payload_buffer _ = \<lparr> pb_slot_index = 0 \<rparr>"

definition pooled_payload :: "media_payload \<Rightarrow> bool" where
  "pooled_payload payload \<longleftrightarrow> (\<exists>k. payload = EncodedPacket k \<and> pooled k)"

definition carries :: "store \<Rightarrow> loaded multiset \<Rightarrow> bool" where
  "carries st A \<longleftrightarrow> (\<exists>ls. mset ls = A \<and> list_all (\<lambda>(y, d). pooled_payload y) ls \<and>
     held st (map (\<lambda>(y, d). (payload_buffer y, d)) ls))"

lemma carries_none: "held st [] \<Longrightarrow> carries st {#}"
  by (auto simp: carries_def)

lemma carries_split:
  assumes "carries st A" "(y, d) \<in># A"
  obtains us vs k where "mset us + mset vs + {#(y, d)#} = A" "y = EncodedPacket k" "ep_data k = Pooled (buffer k)"
    "list_all (\<lambda>(y, d). pooled_payload y) (us @ vs)"
    "held st (map (\<lambda>(y, d). (payload_buffer y, d)) us @ (buffer k, d) # map (\<lambda>(y, d). (payload_buffer y, d)) vs)"
proof -
  from assms(1) obtain ls where ls: "mset ls = A" "list_all (\<lambda>(y, d). pooled_payload y) ls"
    "held st (map (\<lambda>(y, d). (payload_buffer y, d)) ls)" by (auto simp: carries_def)
  with assms(2) have "(y, d) \<in> set ls" by (metis set_mset_mset)
  then obtain us vs where us: "ls = us @ (y, d) # vs" by (auto simp: in_set_conv_decomp)
  with ls(2) obtain k where "y = EncodedPacket k" "pooled k" by (auto simp: pooled_payload_def)
  with ls us show ?thesis by (intro that [of us vs k]) (auto simp: pooled_def)
qed

lemma carries_read:
  assumes "carries st A" "(y, d) \<in># A"
  shows "payload_data st y = Some d"
proof -
  from carries_split [OF assms] obtain us vs k where k: "y = EncodedPacket k" "ep_data k = Pooled (buffer k)"
    "held st (map (\<lambda>(y, d). (payload_buffer y, d)) us @ (buffer k, d) # map (\<lambda>(y, d). (payload_buffer y, d)) vs)"
    by metis
  from held_look [OF k(3), of "buffer k" d] k(1,2) show ?thesis by (simp add: payload_data_def)
qed

lemma carries_drop:
  assumes "carries st (add_mset x A)"
  shows "\<exists>st'. drop_loaded x st = Some st' \<and> carries st' A"
proof -
  obtain y d where x: "x = (y, d)" by fastforce
  from carries_split [OF assms, of y d] x obtain us vs k where
    k: "mset us + mset vs + {#(y, d)#} = add_mset x A" "y = EncodedPacket k" "ep_data k = Pooled (buffer k)"
    "list_all (\<lambda>(y, d). pooled_payload y) (us @ vs)"
    "held st (map (\<lambda>(y, d). (payload_buffer y, d)) us @ (buffer k, d) # map (\<lambda>(y, d). (payload_buffer y, d)) vs)"
    by auto
  from held_drop_at [OF k(5)] obtain st' where "drop_pooled (buffer k) st = Some st'"
    "held st' (map (\<lambda>(y, d). (payload_buffer y, d)) (us @ vs))" by auto
  moreover have "mset (us @ vs) = A" using k(1) by (simp add: x)
  ultimately have "carries st' A" using k(4) unfolding carries_def by blast
  then show ?thesis
    using \<open>drop_pooled (buffer k) st = Some st'\<close> k(2,3) x by (simp add: drop_loaded_def drop_payload_def)
qed

lemma carries_clone:
  assumes "carries st A" "x \<in># A" "size A < 2 ^ 64 - 1"
  shows "\<exists>st'. clone_loaded x st = Some (x, st') \<and> carries st' (add_mset x A)"
proof -
  obtain y d where x: "x = (y, d)" by fastforce
  from carries_split [OF assms(1), of y d] assms(2) x obtain us vs k where
    k: "mset us + mset vs + {#(y, d)#} = A" "y = EncodedPacket k" "ep_data k = Pooled (buffer k)"
    "list_all (\<lambda>(y, d). pooled_payload y) (us @ vs)"
    "held st (map (\<lambda>(y, d). (payload_buffer y, d)) us @ (buffer k, d) # map (\<lambda>(y, d). (payload_buffer y, d)) vs)"
    by auto
  let ?rs = "map (\<lambda>(y, d). (payload_buffer y, d)) us @ (buffer k, d) # map (\<lambda>(y, d). (payload_buffer y, d)) vs"
  let ?w = "\<lparr> w_store = st, writers = [], readers = ?rs \<rparr>"
  from k(5) have i: "pool_inv ?w" "no_leak ?w" by (simp_all add: held_def)
  have "size A = length ?rs" by (simp flip: k(1))
  with assms(3) have n: "length (readers ?w) < 2 ^ 64 - 1" by simp
  from i obtain own where "\<forall>i. slot_ok_in own st [] ?rs i" by (auto simp: pool_inv_def simp del: readers_of_simps)
  from reader_slot [OF this, of "buffer k" d] have idx: "pb_slot_index (buffer k) < length (slots st)" by simp
  then obtain st' where c: "clone_pooled (buffer k) st = Some (buffer k, st')" by (simp add: clone_pooled_def Let_def)
  have s: "pool_step ?w \<lparr> w_store = st', writers = [], readers = (buffer k, d) # ?rs \<rparr>"
    using Clone [of "buffer k" d ?w "buffer k" st'] n c by simp
  with i pool_step_inv [OF s] careful_no_leak [OF s] have "held st' ((buffer k, d) # ?rs)" by (auto simp: held_def)
  then have "held st' (map (\<lambda>(y, d). (payload_buffer y, d)) ((y, d) # us @ (y, d) # vs))" by (simp add: k(2))
  moreover have "mset ((y, d) # us @ (y, d) # vs) = add_mset x A" by (simp add: x flip: k(1))
  moreover have "k\<lparr> ep_data := Pooled (buffer k) \<rparr> = k" by (simp flip: k(3))
  then have "clone_loaded x st = Some (x, st')" using c k(2,3) by (simp add: x clone_loaded_def)
  moreover have "list_all (\<lambda>(y, d). pooled_payload y) ((y, d) # us @ (y, d) # vs)"
    using k(2-4) by (auto simp: pooled_payload_def pooled_def)
  ultimately show ?thesis unfolding carries_def by blast
qed

lemma carries_publish:
  assumes "held st' ((r, d) # map (\<lambda>(y, d). (payload_buffer y, d)) ls)" "list_all (\<lambda>(y, d). pooled_payload y) ls"
  shows "carries st' (add_mset (EncodedPacket (k\<lparr> ep_data := Pooled r \<rparr>), d) (mset ls))"
  unfolding carries_def
  using assms by (intro exI [of _ "(EncodedPacket (k\<lparr> ep_data := Pooled r \<rparr>), d) # ls"]) (auto simp: pooled_payload_def)

lemma carries_in_use: "carries st A \<Longrightarrow> in_use (stats st) \<le> size A"
  using held_in_use(1) by (fastforce simp: carries_def)

section \<open>Channels\<close>

lemma channel_open:
  "documented_channels ops content capacity \<Longrightarrow> 0 < n \<Longrightarrow> n \<le> max_permits \<Longrightarrow>
     content (ch_open ops n) = [] \<and> capacity (ch_open ops n) = n"
  by (simp add: documented_channels_def)

lemma channel_send:
  "documented_channels ops content capacity \<Longrightarrow> ch_try_send ops x c = (sent, c') \<Longrightarrow> capacity c' = capacity c \<and>
     sent = (length (content c) < capacity c) \<and> content c' = (if sent then content c @ [x] else content c)"
  unfolding documented_channels_def by blast

lemma channel_recv:
  assumes "documented_channels ops content capacity" "ch_recv ops c = (Some x, c')"
  shows "capacity c' = capacity c \<and> content c = x # content c'"
proof -
  from assms(1) have "capacity c' = capacity c \<and>
      (case Some x of None \<Rightarrow> content c = [] \<and> content c' = [] | Some x \<Rightarrow> content c = x # content c')"
    using assms(2) unfolding documented_channels_def by blast
  then show ?thesis by simp
qed

text \<open>Channels that do what is documented: a list with its capacity.\<close>

definition list_channels :: "(nat \<times> loaded list) channels" where
  "list_channels = \<lparr> ch_open = \<lambda>n. (n, []),
     ch_try_send = \<lambda>x (n, xs). if length xs < n then (True, n, xs @ [x]) else (False, n, xs),
     ch_recv = \<lambda>(n, xs). case xs of [] \<Rightarrow> (None, n, []) | x # rest \<Rightarrow> (Some x, n, rest),
     ch_drop = snd \<rparr>"

lemma list_channels_documented: "documented_channels list_channels snd fst"
  by (auto simp: documented_channels_def list_channels_def split: list.splits if_splits)

section \<open>The invariant\<close>

text \<open>What the router holds itself: the payload, and while it waits the clone.\<close>

fun in_hand :: "router_at \<Rightarrow> loaded list" where
  "in_hand Resting = []"
| "in_hand (At i x) = [x]"
| "in_hand (Waits i x) = [x, x]"
| "in_hand (Yields i x) = [x]"

fun position_of :: "router_at \<Rightarrow> nat option" where
  "position_of Resting = None"
| "position_of (At i x) = Some i"
| "position_of (Waits i x) = Some i"
| "position_of (Yields i x) = Some i"

definition lots :: "('c \<Rightarrow> loaded list) \<Rightarrow> 'c router \<Rightarrow> loaded multiset" where
  "lots content ro = sum_list (map (\<lambda>a. mset (content (ra_channel a) @ ra_kept a)) (ro_actors ro))"

definition actor_ok :: "('c \<Rightarrow> loaded list) \<Rightarrow> ('c \<Rightarrow> nat) \<Rightarrow> loaded list \<Rightarrow> 'c router_actor \<Rightarrow> bool" where
  "actor_ok content capacity given a \<longleftrightarrow>
     length (content (ra_channel a)) \<le> capacity (ra_channel a) \<and>
     length (ra_kept a) \<le> ra_room a + (if ra_busy a then 1 else 0) \<and>
     subseq (ra_received a @ content (ra_channel a)) given \<and>
     (ra_policy a = RouterBlock \<longrightarrow> ra_received a @ content (ra_channel a) = given)"

text \<open>The actors before \<open>i\<close> have been given all that was taken, the others all but the last.\<close>

definition handing :: "('c \<Rightarrow> loaded list) \<Rightarrow> ('c \<Rightarrow> nat) \<Rightarrow> loaded list \<Rightarrow> nat \<Rightarrow> 'c router \<Rightarrow> bool" where
  "handing content capacity taken i ro \<longleftrightarrow> i \<le> length (ro_actors ro) \<and>
     (\<forall>j < length (ro_actors ro).
        actor_ok content capacity (if j < i then taken else butlast taken) (ro_actors ro ! j))"

definition limits :: "('c \<Rightarrow> nat) \<Rightarrow> 'c router \<Rightarrow> (router_drop_policy \<times> nat \<times> nat) list" where
  "limits capacity ro = map (\<lambda>a. (ra_policy a, ra_room a, capacity (ra_channel a))) (ro_actors ro)"

definition budget :: "(router_drop_policy \<times> nat \<times> nat) list \<Rightarrow> nat" where
  "budget ls = (\<Sum>(policy, room, capacity)\<leftarrow>ls. capacity + room + 1)"

definition at_ok :: "loaded list \<Rightarrow> 'c router \<Rightarrow> bool" where
  "at_ok taken ro \<longleftrightarrow> (\<forall>x \<in> set (in_hand (ro_at ro)). taken \<noteq> [] \<and> last taken = x) \<and>
     (case ro_at ro of
        Waits i x \<Rightarrow> i < length (ro_actors ro) \<and> ra_policy (ro_actors ro ! i) = RouterBlock
      | Yields i x \<Rightarrow> i < length (ro_actors ro) \<and> ra_policy (ro_actors ro ! i) = RouterDropOldest
      | _ \<Rightarrow> True)"

definition router_inv ::
  "('c \<Rightarrow> loaded list) \<Rightarrow> ('c \<Rightarrow> nat) \<Rightarrow> loaded list \<Rightarrow> 'c router \<Rightarrow> store \<Rightarrow> bool" where
  "router_inv content capacity taken ro st \<longleftrightarrow> at_ok taken ro \<and>
     handing content capacity taken
       (case position_of (ro_at ro) of None \<Rightarrow> length (ro_actors ro) | Some i \<Rightarrow> i) ro \<and>
     carries st (mset (in_hand (ro_at ro)) + lots content ro)"

lemma lots_update:
  "i < length xs \<Longrightarrow> sum_list (map f (xs[i := y])) + f (xs ! i) = sum_list (map f xs) + (f y :: 'a multiset)"
proof (induction xs arbitrary: i)
  case (Cons x xs)
  then show ?case by (cases i) (auto simp: ac_simps)
qed simp

lemma gone_cancel: "x + a = y + b \<Longrightarrow> a = b + g \<Longrightarrow> x + g = (y :: 'a multiset)"
  by (metis add.commute add.left_commute add_left_cancel)

lemma in_sum_list: "a \<in> set xs \<Longrightarrow> x \<in># f a \<Longrightarrow> x \<in># sum_list (map f xs)"
  by (induction xs) auto

lemma size_sum_list: "size (sum_list (map f xs)) = (\<Sum>x\<leftarrow>xs. size (f x :: 'a multiset))"
  by (induction xs) simp_all

lemma limits_update:
  "i < length (ro_actors ro) \<Longrightarrow> ra_policy a = ra_policy (ro_actors ro ! i) \<Longrightarrow> ra_room a = ra_room (ro_actors ro ! i) \<Longrightarrow>
     capacity (ra_channel a) = capacity (ra_channel (ro_actors ro ! i)) \<Longrightarrow>
     limits capacity (ro\<lparr> ro_actors := (ro_actors ro)[i := a] \<rparr>) = limits capacity ro"
  by (simp add: limits_def map_update_same)

lemma actor_ok_more:
  "actor_ok content capacity (butlast taken) a \<Longrightarrow> ra_policy a \<noteq> RouterBlock \<Longrightarrow> actor_ok content capacity taken a"
  using prefix_imp_subseq [of "butlast taken" taken]
  by (auto simp: actor_ok_def butlast_conv_take take_is_prefix intro: subseq_order.order_trans)

lemma handing_update:
  assumes "handing content capacity taken i ro" "i < length (ro_actors ro)"
  shows "actor_ok content capacity taken a \<Longrightarrow>
      handing content capacity taken (Suc i) (ro\<lparr> ro_actors := (ro_actors ro)[i := a] \<rparr>)"
    and "actor_ok content capacity (butlast taken) a \<Longrightarrow>
      handing content capacity taken i (ro\<lparr> ro_actors := (ro_actors ro)[i := a] \<rparr>)"
  using assms by (auto simp: handing_def nth_list_update less_Suc_eq)

lemma lots_size:
  assumes "handing content capacity taken i ro"
  shows "size (lots content ro) \<le> budget (limits capacity ro)"
proof -
  have "\<forall>a \<in> set (ro_actors ro). length (content (ra_channel a)) + length (ra_kept a) \<le>
      capacity (ra_channel a) + ra_room a + 1"
    using assms by (fastforce simp: handing_def actor_ok_def in_set_conv_nth split: if_splits)
  then have "(\<Sum>a\<leftarrow>ro_actors ro. length (content (ra_channel a)) + length (ra_kept a)) \<le>
      (\<Sum>a\<leftarrow>ro_actors ro. capacity (ra_channel a) + ra_room a + 1)"
    by (intro sum_list_mono) auto
  moreover have "size (lots content ro) = (\<Sum>a\<leftarrow>ro_actors ro. length (content (ra_channel a)) + length (ra_kept a))"
    by (simp add: lots_def size_sum_list)
  ultimately show ?thesis by (simp add: budget_def limits_def comp_def)
qed

lemma carries_drop_all: "carries st (mset xs) \<Longrightarrow> \<exists>st'. drop_all xs st = Some st' \<and> carries st' {#}"
proof (induction xs arbitrary: st)
  case (Cons x xs)
  from carries_drop [of st x "mset xs"] Cons.prems obtain st1 where "drop_loaded x st = Some st1" "carries st1 (mset xs)"
    by auto
  with Cons.IH show ?case by simp
qed simp

lemma mset_concat_map: "mset (concat (map f xs)) = sum_list (map (\<lambda>x. mset (f x)) xs)"
  by (induction xs) simp_all

section \<open>The sends\<close>

lemma send_to_inv:
  assumes doc: "documented_channels ops content capacity" and h: "handing content capacity taken i ro"
    and i: "i < length (ro_actors ro)" and x: "taken \<noteq> []" "last taken = x"
    and send: "send_to ops i x ro = (sent, ro')"
  shows "lots content ro' = lots content ro + (if sent then {#x#} else {#})"
    "ro_at ro' = ro_at ro" "limits capacity ro' = limits capacity ro"
    "sent \<or> ra_policy (ro_actors ro ! i) \<noteq> RouterBlock \<Longrightarrow> handing content capacity taken (Suc i) ro'"
    "\<not> sent \<Longrightarrow> handing content capacity taken i ro'"
    "sent = (length (content (ra_channel (ro_actors ro ! i))) < capacity (ra_channel (ro_actors ro ! i)))"
    "map ra_policy (ro_actors ro') = map ra_policy (ro_actors ro)"
proof -
  let ?a = "ro_actors ro ! i"
  obtain c where c: "ch_try_send ops x (ra_channel ?a) = (sent, c)"
    and ro': "ro' = ro\<lparr> ro_actors := (ro_actors ro)[i := ?a\<lparr> ra_channel := c \<rparr>] \<rparr>"
    using send by (auto simp: send_to_def Let_def split: prod.splits)
  note ch = channel_send [OF doc c]
  have ok: "actor_ok content capacity (butlast taken) ?a" using h i by (auto simp: handing_def)
  have taken: "butlast taken @ [x] = taken" using append_butlast_last_id [OF x(1)] x(2) by simp
  let ?f = "\<lambda>a. mset (content (ra_channel a) @ ra_kept a)"
  have "lots content ro' + ?f ?a = lots content ro + ?f (?a\<lparr> ra_channel := c \<rparr>)"
    using lots_update [OF i, of ?f "?a\<lparr> ra_channel := c \<rparr>"] by (simp add: lots_def ro')
  then show "lots content ro' = lots content ro + (if sent then {#x#} else {#})"
    using ch by (auto split: if_splits)
  show "ro_at ro' = ro_at ro" by (simp add: ro')
  show "limits capacity ro' = limits capacity ro" using i ch by (simp add: ro' limits_update)
  show "sent = (length (content (ra_channel ?a)) < capacity (ra_channel ?a))" using ch by simp
  show "map ra_policy (ro_actors ro') = map ra_policy (ro_actors ro)" using i by (simp add: ro' map_update_same)
  show "handing content capacity taken (Suc i) ro'" if "sent \<or> ra_policy ?a \<noteq> RouterBlock"
    unfolding ro'
  proof (rule handing_update(1) [OF h i])
    show "actor_ok content capacity taken (?a\<lparr> ra_channel := c \<rparr>)"
    proof (cases sent)
      case True
      then have "subseq ((ra_received ?a @ content (ra_channel ?a)) @ [x]) (butlast taken @ [x])"
        using ok by (intro list_emb_append_mono) (auto simp: actor_ok_def)
      then show ?thesis using True ch ok taken by (auto simp: actor_ok_def) (metis append_assoc)
    next
      case False
      then show ?thesis using ch actor_ok_more [OF ok] that by (simp add: actor_ok_def)
    qed
  qed
  show "handing content capacity taken i ro'" if "\<not> sent"
    unfolding ro' using ch ok that by (intro handing_update(2) [OF h i]) (simp add: actor_ok_def)
qed

lemma try_clone_inv:
  assumes doc: "documented_channels ops content capacity" and h: "handing content capacity taken i ro"
    and i: "i < length (ro_actors ro)" and x: "taken \<noteq> []" "last taken = x"
    and st: "carries st (add_mset x (lots content ro))" "budget (limits capacity ro) + 1 < 2 ^ 64 - 1"
    and block: "ra_policy (ro_actors ro ! i) \<noteq> RouterBlock"
  obtains sent ro' st' where "try_clone ops i x ro st = Some (sent, ro', st')"
    "carries st' (add_mset x (lots content ro'))" "ro_at ro' = ro_at ro" "limits capacity ro' = limits capacity ro"
    "handing content capacity taken (Suc i) ro'" "\<not> sent \<Longrightarrow> handing content capacity taken i ro'"
    "map ra_policy (ro_actors ro') = map ra_policy (ro_actors ro)"
proof -
  have "size (add_mset x (lots content ro)) < 2 ^ 64 - 1" using lots_size [OF h] st(2) by simp
  from carries_clone [OF st(1) _ this, of x] obtain st1 where
    st1: "clone_loaded x st = Some (x, st1)" "carries st1 (add_mset x (add_mset x (lots content ro)))" by auto
  obtain sent ro' where r: "send_to ops i x ro = (sent, ro')" by fastforce
  note inv = send_to_inv [OF doc h i x r]
  show ?thesis
  proof (cases sent)
    case True
    then show ?thesis using st1 r inv block by (intro that [of True ro' st1]) (simp_all add: try_clone_def)
  next
    case False
    from carries_drop [OF st1(2)] obtain st2 where
      "drop_loaded x st1 = Some st2" "carries st2 (add_mset x (lots content ro))" by blast
    with False show ?thesis using st1 r inv block
      by (intro that [of False ro' st2]) (simp_all add: try_clone_def)
  qed
qed

lemma router_turn_inv:
  assumes doc: "documented_channels ops content capacity"
    and inv: "router_inv content capacity taken ro st" and small: "budget (limits capacity ro) + 2 < 2 ^ 64 - 1"
  obtains ro' st' where "router_turn ops ro st = Some (ro', st')" "router_inv content capacity taken ro' st'"
    "limits capacity ro' = limits capacity ro"
proof (cases "ro_at ro")
  case Resting
  then show ?thesis using inv by (intro that [of ro st]) (simp_all add: router_turn_def)
next
  case (Waits i x)
  with inv have h: "handing content capacity taken i ro" "i < length (ro_actors ro)" "taken \<noteq> []" "last taken = x"
    "carries st (add_mset x (add_mset x (lots content ro)))" "ra_policy (ro_actors ro ! i) = RouterBlock"
    by (auto simp: router_inv_def at_ok_def)
  obtain sent ro1 where r: "send_to ops i x ro = (sent, ro1)" by fastforce
  note s = send_to_inv [OF doc h(1-4) r]
  have n: "length (ro_actors ro1) = length (ro_actors ro)" using s(7) by (metis length_map)
  then have p: "ra_policy (ro_actors ro1 ! i) = RouterBlock" using s(7) h(2,6) by (metis nth_map)
  let ?ro = "ro1\<lparr> ro_at := if sent then At (Suc i) x else Waits i x \<rparr>"
  have "router_inv content capacity taken ?ro st"
    using h s p n by (cases sent) (auto simp: router_inv_def at_ok_def handing_def lots_def)
  moreover have "limits capacity ?ro = limits capacity ro" using s(3) by (simp add: limits_def)
  ultimately show ?thesis using Waits r by (intro that [of ?ro st]) (simp_all add: router_turn_def)
next
  case (Yields i x)
  with inv have h: "handing content capacity taken i ro" "i < length (ro_actors ro)" "taken \<noteq> []" "last taken = x"
    "carries st (add_mset x (lots content ro))" "ra_policy (ro_actors ro ! i) \<noteq> RouterBlock"
    by (auto simp: router_inv_def at_ok_def)
  have "budget (limits capacity ro) + 1 < 2 ^ 64 - 1" using small by simp
  from try_clone_inv [OF doc h(1-5) this h(6)] obtain sent ro1 st1 where
    t: "try_clone ops i x ro st = Some (sent, ro1, st1)" "carries st1 (add_mset x (lots content ro1))"
    "limits capacity ro1 = limits capacity ro" "handing content capacity taken (Suc i) ro1" by metis
  let ?ro = "ro1\<lparr> ro_at := At (Suc i) x \<rparr>"
  have "router_inv content capacity taken ?ro st1"
    using h t by (auto simp: router_inv_def at_ok_def handing_def lots_def)
  moreover have "limits capacity ?ro = limits capacity ro" using t(3) by (simp add: limits_def)
  ultimately show ?thesis using Yields t(1) by (intro that [of ?ro st1]) (simp_all add: router_turn_def)
next
  case (At i x)
  with inv have h: "handing content capacity taken i ro" "taken \<noteq> []" "last taken = x"
    "carries st (add_mset x (lots content ro))"
    by (auto simp: router_inv_def at_ok_def)
  have b: "budget (limits capacity ro) + 1 < 2 ^ 64 - 1" using small by simp
  show ?thesis
  proof (cases "i < length (ro_actors ro)")
    case False
    from carries_drop [OF h(4)] obtain st1 where "drop_loaded x st = Some st1" "carries st1 (lots content ro)" by blast
    moreover have "i = length (ro_actors ro)" using h(1) False by (simp add: handing_def)
    ultimately show ?thesis using h(1) At
      by (intro that [of "ro\<lparr> ro_at := Resting \<rparr>" st1])
        (auto simp: router_turn_def router_inv_def at_ok_def handing_def lots_def limits_def)
  next
    case i: True
    show ?thesis
    proof (cases "ra_policy (ro_actors ro ! i)")
      case RouterBlock
      have "size (add_mset x (lots content ro)) < 2 ^ 64 - 1" using lots_size [OF h(1)] b by simp
      from carries_clone [OF h(4) _ this, of x] obtain st1 where
        st1: "clone_loaded x st = Some (x, st1)" "carries st1 (add_mset x (add_mset x (lots content ro)))" by auto
      obtain sent ro1 where r: "send_to ops i x ro = (sent, ro1)" by fastforce
      note s = send_to_inv [OF doc h(1) i h(2,3) r]
      have n: "length (ro_actors ro1) = length (ro_actors ro)" using s(7) by (metis length_map)
      then have p: "ra_policy (ro_actors ro1 ! i) = RouterBlock" using s(7) i RouterBlock by (metis nth_map)
      let ?ro = "ro1\<lparr> ro_at := if sent then At (Suc i) x else Waits i x \<rparr>"
      have "router_inv content capacity taken ?ro st1"
        using h i s p n st1(2) by (cases sent) (auto simp: router_inv_def at_ok_def handing_def lots_def)
      moreover have "limits capacity ?ro = limits capacity ro" using s(3) by (simp add: limits_def)
      ultimately show ?thesis using At i RouterBlock r st1(1)
        by (intro that [of ?ro st1]) (simp_all add: router_turn_def)
    next
      case RouterDropNewest
      then have "ra_policy (ro_actors ro ! i) \<noteq> RouterBlock" by simp
      from try_clone_inv [OF doc h(1) i h(2-4) b this] obtain sent ro1 st1 where
        t: "try_clone ops i x ro st = Some (sent, ro1, st1)" "carries st1 (add_mset x (lots content ro1))"
        "limits capacity ro1 = limits capacity ro" "handing content capacity taken (Suc i) ro1" by metis
      let ?ro = "ro1\<lparr> ro_at := At (Suc i) x \<rparr>"
      have "router_inv content capacity taken ?ro st1"
        using h t by (auto simp: router_inv_def at_ok_def handing_def lots_def)
      moreover have "limits capacity ?ro = limits capacity ro" using t(3) by (simp add: limits_def)
      ultimately show ?thesis using At i RouterDropNewest t(1)
        by (intro that [of ?ro st1]) (simp_all add: router_turn_def)
    next
      case RouterDropOldest
      then have "ra_policy (ro_actors ro ! i) \<noteq> RouterBlock" by simp
      from try_clone_inv [OF doc h(1) i h(2-4) b this] obtain sent ro1 st1 where
        t: "try_clone ops i x ro st = Some (sent, ro1, st1)" "carries st1 (add_mset x (lots content ro1))"
        "limits capacity ro1 = limits capacity ro" "handing content capacity taken (Suc i) ro1"
        "\<not> sent \<Longrightarrow> handing content capacity taken i ro1"
        "map ra_policy (ro_actors ro1) = map ra_policy (ro_actors ro)" by metis
      have n: "length (ro_actors ro1) = length (ro_actors ro)" using t(6) by (metis length_map)
      then have p: "ra_policy (ro_actors ro1 ! i) = RouterDropOldest" using t(6) i RouterDropOldest by (metis nth_map)
      let ?ro = "ro1\<lparr> ro_at := if sent then At (Suc i) x else Yields i x \<rparr>"
      have "router_inv content capacity taken ?ro st1"
        using h i t n p by (cases sent) (auto simp: router_inv_def at_ok_def handing_def lots_def)
      moreover have "limits capacity ?ro = limits capacity ro" using t(3) by (simp add: limits_def)
      ultimately show ?thesis using At i RouterDropOldest t(1)
        by (intro that [of ?ro st1]) (simp_all add: router_turn_def)
    qed
  qed
qed

section \<open>The pipeline\<close>

definition fan_inv :: "('c \<Rightarrow> loaded list) \<Rightarrow> ('c \<Rightarrow> nat) \<Rightarrow> ('src, 'c) fan \<Rightarrow> bool" where
  "fan_inv content capacity s \<longleftrightarrow> \<not> fn_panicked s \<and> (fn_exit s \<noteq> None \<longrightarrow> ro_at (fn_router s) = Resting) \<and>
     router_inv content capacity (fn_taken s) (fn_router s) (fn_pool s)"

lemma handing_actor:
  assumes "handing content capacity taken i ro" "j < length (ro_actors ro)"
    and "\<And>given. actor_ok content capacity given (ro_actors ro ! j) \<Longrightarrow> actor_ok content capacity given a"
  shows "handing content capacity taken i (ro\<lparr> ro_actors := (ro_actors ro)[j := a] \<rparr>)"
  using assms by (auto simp: handing_def nth_list_update)

lemma drop_router_ok:
  assumes "fan_inv content capacity s" "fn_exit s \<noteq> None" "documented_channels ops content capacity"
  shows "\<exists>st. drop_router ops s = Some st \<and> in_use (stats st) = 0"
proof -
  have "ch_drop ops c = content c" for c using assms(3) by (simp add: documented_channels_def)
  moreover have "carries (fn_pool s) (lots content (fn_router s))"
    using assms(1,2) by (auto simp: fan_inv_def router_inv_def)
  then have "carries (fn_pool s) (mset (concat (map (\<lambda>a. content (ra_channel a) @ ra_kept a) (ro_actors (fn_router s)))))"
    by (simp only: lots_def mset_concat_map)
  from carries_drop_all [OF this] obtain st where
    "drop_all (concat (map (\<lambda>a. content (ra_channel a) @ ra_kept a) (ro_actors (fn_router s)))) (fn_pool s) = Some st"
    "carries st {#}" by blast
  ultimately show ?thesis using carries_in_use [of st "{#}"] by (simp add: drop_router_def)
qed

text \<open>A step of an actor: its policy stays, and the pool has what is alive afterwards.\<close>

lemma fan_inv_actor:
  assumes inv: "fan_inv content capacity s" and j: "j < length (ro_actors (fn_router s))"
    and ok: "\<And>given. actor_ok content capacity given (ro_actors (fn_router s) ! j) \<Longrightarrow> actor_ok content capacity given a"
    and policy: "ra_policy a = ra_policy (ro_actors (fn_router s) ! j)"
    and lot: "mset (content (ra_channel (ro_actors (fn_router s) ! j)) @ ra_kept (ro_actors (fn_router s) ! j)) =
      mset (content (ra_channel a) @ ra_kept a) + gone"
    and pool: "\<And>A. carries (fn_pool s) (A + gone) \<Longrightarrow> carries st A"
  shows "fan_inv content capacity (set_actor j a (s\<lparr> fn_pool := st \<rparr>))"
proof -
  let ?ro = "fn_router s" and ?f = "\<lambda>a. mset (content (ra_channel a) @ ra_kept a)"
  from inv have i: "at_ok (fn_taken s) ?ro"
    "handing content capacity (fn_taken s) (case position_of (ro_at ?ro) of None \<Rightarrow> length (ro_actors ?ro) | Some i \<Rightarrow> i) ?ro"
    "carries (fn_pool s) (mset (in_hand (ro_at ?ro)) + lots content ?ro)"
    by (simp_all add: fan_inv_def router_inv_def)
  have "lots content (?ro\<lparr> ro_actors := (ro_actors ?ro)[j := a] \<rparr>) + gone = lots content ?ro"
    using gone_cancel [OF lots_update [OF j, of ?f a] lot] by (simp add: lots_def del: mset_append)
  then have "carries (fn_pool s)
      ((mset (in_hand (ro_at ?ro)) + lots content (?ro\<lparr> ro_actors := (ro_actors ?ro)[j := a] \<rparr>)) + gone)"
    using i(3) by (simp only: add.assoc)
  from pool [OF this] have "carries st
      (mset (in_hand (ro_at ?ro)) + lots content (?ro\<lparr> ro_actors := (ro_actors ?ro)[j := a] \<rparr>))" .
  moreover have "ra_policy ((ro_actors ?ro)[j := a] ! k) = ra_policy (ro_actors ?ro ! k)" for k
    using j policy by (cases "k = j") simp_all
  then have "at_ok (fn_taken s) (?ro\<lparr> ro_actors := (ro_actors ?ro)[j := a] \<rparr>)"
    using i(1) by (simp add: at_ok_def split: router_at.splits)
  ultimately show ?thesis
    using inv handing_actor [OF i(2) j ok]
    by (simp add: fan_inv_def router_inv_def set_actor_def split: option.splits)
qed

lemma fan_limits_actor:
  assumes "j < length (ro_actors (fn_router s))" "ra_policy a = ra_policy (ro_actors (fn_router s) ! j)"
    "ra_room a = ra_room (ro_actors (fn_router s) ! j)"
    "capacity (ra_channel a) = capacity (ra_channel (ro_actors (fn_router s) ! j))"
  shows "limits capacity (fn_router (set_actor j a s)) = limits capacity (fn_router s)"
  using assms by (simp add: set_actor_def limits_update)

lemma fan_policies:
  assumes "limits capacity ro = map (\<lambda>a. (sa_policy a, room (sa_sink a), sa_capacity a)) actors"
    and "j < length (ro_actors ro)"
  shows "j < length actors" "ra_policy (ro_actors ro ! j) = sa_policy (actors ! j)"
    "capacity (ra_channel (ro_actors ro ! j)) = sa_capacity (actors ! j)"
proof -
  show j: "j < length actors" using arg_cong [OF assms(1), of length] assms(2) by (simp add: limits_def)
  show "ra_policy (ro_actors ro ! j) = sa_policy (actors ! j)"
    "capacity (ra_channel (ro_actors ro ! j)) = sa_capacity (actors ! j)"
    using arg_cong [OF assms(1), of "\<lambda>ls. ls ! j"] j assms(2) by (simp_all add: limits_def)
qed

text \<open>What was taken, as packets.\<close>

definition as_payloads :: "(encoded_packet \<times> u8 list) list \<Rightarrow> loaded list" where
  "as_payloads = map (\<lambda>(k, d). (EncodedPacket k, d))"

lemma fanout_new_capacity:
  "fanout_new configs = Some actors \<Longrightarrow> \<forall>a \<in> set actors. 0 < sa_capacity a \<and> sa_capacity a \<le> max_permits"
  by (induction configs arbitrary: actors) (auto simp: unat_gt_0 split: if_splits)

lemma router_start_inv:
  assumes "documented_channels ops content capacity" "fanout_new configs = Some actors"
  shows "router_inv content capacity [] (router_start ops room actors) (pipeline_pool p)"
    "limits capacity (router_start ops room actors) = map (\<lambda>a. (sa_policy a, room (sa_sink a), sa_capacity a)) actors"
    "ro_at (router_start ops room actors) = Resting"
proof -
  have o: "content (ch_open ops (sa_capacity a)) = [] \<and> capacity (ch_open ops (sa_capacity a)) = sa_capacity a"
    if "a \<in> set actors" for a
    using fanout_new_capacity [OF assms(2)] channel_open [OF assms(1)] that by blast
  then show "limits capacity (router_start ops room actors) =
      map (\<lambda>a. (sa_policy a, room (sa_sink a), sa_capacity a)) actors"
    by (simp add: limits_def router_start_def)
  have "lots content (router_start ops room actors) = {#}"
    using o unfolding lots_def router_start_def by (induction actors) simp_all
  moreover have "handing content capacity [] (length actors) (router_start ops room actors)"
    using o by (simp add: handing_def router_start_def actor_ok_def)
  ultimately show "router_inv content capacity [] (router_start ops room actors) (pipeline_pool p)"
    using carries_none [OF held_pipeline_pool] by (simp add: router_inv_def at_ok_def router_start_def)
  show "ro_at (router_start ops room actors) = Resting" by (simp add: router_start_def)
qed

text \<open>What a turn of the router does at an actor that does not block.\<close>

fun turns_left :: "'c router \<Rightarrow> nat" where
  "turns_left ro = (case ro_at ro of
     Resting \<Rightarrow> 0
   | At i x \<Rightarrow> 2 * (length (ro_actors ro) - i) + 1
   | Waits i x \<Rightarrow> 2 * (length (ro_actors ro) - i)
   | Yields i x \<Rightarrow> 2 * (length (ro_actors ro) - i))"

definition rechanneled :: "nat \<Rightarrow> 'c router \<Rightarrow> 'c router \<Rightarrow> bool" where
  "rechanneled i ro ro' \<longleftrightarrow> (\<exists>c. ro_actors ro' = (ro_actors ro)[i := (ro_actors ro ! i)\<lparr> ra_channel := c \<rparr>])"

lemma rechanneled_at [simp]: "rechanneled i ro (ro'\<lparr> ro_at := here \<rparr>) = rechanneled i ro ro'"
  by (simp add: rechanneled_def)

lemma rechanneled_length: "rechanneled i ro ro' \<Longrightarrow> length (ro_actors ro') = length (ro_actors ro)"
  by (auto simp: rechanneled_def)

lemma send_to_actors:
  "send_to ops i x ro = (sent, ro') \<Longrightarrow> rechanneled i ro ro' \<and> ro_at ro' = ro_at ro"
  by (auto simp: send_to_def rechanneled_def Let_def split: prod.splits)

lemma try_clone_actors:
  assumes "try_clone ops i x ro st = Some (sent, ro', st')"
  shows "rechanneled i ro ro' \<and> length (ro_actors ro') = length (ro_actors ro)"
proof -
  from assms obtain y where "send_to ops i y ro = (sent, ro')"
    by (auto simp: try_clone_def Let_def split: option.splits prod.splits if_splits)
  then show ?thesis using send_to_actors rechanneled_length by blast
qed

lemma router_turn_drops:
  assumes "router_turn ops ro st = Some (ro', st')" "position_of (ro_at ro) = Some i"
    and "i < length (ro_actors ro) \<Longrightarrow> ra_policy (ro_actors ro ! i) \<noteq> RouterBlock" "at_ok taken ro"
  shows "turns_left ro' < turns_left ro"
    "rechanneled i ro ro'"
    "position_of (ro_at ro') \<in> {None, Some i, Some (Suc i)}"
proof -
  have "turns_left ro' < turns_left ro \<and>
    rechanneled i ro ro' \<and> position_of (ro_at ro') \<in> {None, Some i, Some (Suc i)}"
  proof (cases "ro_at ro")
    case Resting
    then show ?thesis using assms(2) by simp
  next
    case (Waits j x)
    then show ?thesis using assms(2-4) by (simp add: at_ok_def)
  next
    case (Yields j x)
    then have "j = i" "i < length (ro_actors ro)" using assms(2,4) by (simp_all add: at_ok_def)
    with assms(1) Yields show ?thesis
      by (auto simp: router_turn_def dest!: try_clone_actors)
  next
    case (At j x)
    then have j: "j = i" using assms(2) by simp
    show ?thesis
    proof (cases "i < length (ro_actors ro)")
      case False
      with assms(1) At j show ?thesis
        by (auto simp: router_turn_def rechanneled_def list_update_beyond)
    next
      case True
      with assms(3) have "ra_policy (ro_actors ro ! i) = RouterDropNewest \<or> ra_policy (ro_actors ro ! i) = RouterDropOldest"
        by (cases "ra_policy (ro_actors ro ! i)") auto
      with assms(1) At j True show ?thesis
        by (auto simp: router_turn_def split: if_splits dest!: try_clone_actors)
    qed
  qed
  then show "turns_left ro' < turns_left ro"
    "rechanneled i ro ro'"
    "position_of (ro_at ro') \<in> {None, Some i, Some (Suc i)}" by blast+
qed

text \<open>The actors that the router has done with.\<close>

definition settled :: "'c router \<Rightarrow> nat" where
  "settled ro = (case position_of (ro_at ro) of None \<Rightarrow> length (ro_actors ro) | Some i \<Rightarrow> i)"

text \<open>What the pipeline does not touch while its router turns.\<close>

definition fan_kept where
  "fan_kept s = (fn_source s, fn_exit s, fn_taken s,
     map (\<lambda>a. (ra_policy a, ra_room a, ra_busy a, ra_kept a, ra_received a)) (ro_actors (fn_router s)))"

context media_source
begin

definition fan_fed :: "'src \<Rightarrow> ('src, 'c) fan \<Rightarrow> bool" where
  "fan_fed src0 s \<longleftrightarrow> (\<exists>ks. fn_taken s = as_payloads ks \<and> fed src0 (fn_exit s = None) (fn_source s) ks)"

lemma fan_fed_same:
  "fn_source s' = fn_source s \<Longrightarrow> fn_taken s' = fn_taken s \<Longrightarrow> fn_exit s' = fn_exit s \<Longrightarrow> fan_fed src0 s' = fan_fed src0 s"
  by (simp add: fan_fed_def)

lemma fan_fed_stops:
  "fan_fed src0 s \<Longrightarrow> fn_taken s' = fn_taken s \<Longrightarrow> fn_exit s' = Some e \<Longrightarrow> fan_fed src0 s'"
  using fed_stops by (fastforce simp: fan_fed_def)

lemma fan_take_inv:
  assumes inv: "fan_inv content capacity s" "fan_fed src0 s"
    and s: "fn_exit s = None" "ro_at (fn_router s) = Resting"
  shows "fan_inv content capacity (fan_take source p metrics s)" "fan_fed src0 (fan_take source p metrics s)"
    "ro_actors (fn_router (fan_take source p metrics s)) = ro_actors (fn_router s)"
    "offer (fn_source s) = (Offers packet d, src') \<Longrightarrow> \<exists>x. ro_at (fn_router (fan_take source p metrics s)) = At 0 x \<and>
      fn_source (fan_take source p metrics s) = src' \<and> fn_exit (fan_take source p metrics s) = None"
proof -
  let ?ro = "fn_router s"
  from inv(1) s(2) have i: "\<not> fn_panicked s" "handing content capacity (fn_taken s) (length (ro_actors ?ro)) ?ro"
    "carries (fn_pool s) (lots content ?ro)" by (simp_all add: fan_inv_def router_inv_def)
  from i(3) obtain ls where ls: "mset ls = lots content ?ro" "list_all (\<lambda>(y, d). pooled_payload y) ls"
    "held (fn_pool s) (map (\<lambda>(y, d). (payload_buffer y, d)) ls)" by (auto simp: carries_def)
  have "fan_inv content capacity (fan_take source p metrics s) \<and> fan_fed src0 (fan_take source p metrics s) \<and>
    ro_actors (fn_router (fan_take source p metrics s)) = ro_actors ?ro \<and>
    (offer (fn_source s) = (Offers packet d, src') \<longrightarrow> (\<exists>x. ro_at (fn_router (fan_take source p metrics s)) = At 0 x \<and>
      fn_source (fan_take source p metrics s) = src' \<and> fn_exit (fan_take source p metrics s) = None))"
  proof (cases "offer (fn_source s)")
    case (Pair y src1)
    show ?thesis
    proof (cases y)
      case (Ends sel)
      from source_ends [OF Pair [unfolded Ends], of "fn_pool s"] loop_turn_stop [of sel p metrics]
      have t: "fan_take source p metrics s = s\<lparr> fn_source := src1, fn_exit := Some (stop_exit p sel) \<rparr>"
        by (cases sel rule: ends_loop.cases) (auto simp: fan_take_def Let_def)
      with inv s(2) fan_fed_stops [OF inv(2), of "fan_take source p metrics s"] show ?thesis
        by (simp add: fan_inv_def Pair Ends)
    next
      case (Offers packet1 d1)
      from source_offers [OF Pair [unfolded Offers] ls(3)] obtain buf st where
        st: "source (fn_source s) (fn_pool s) =
          Some (SourceNext (Inr (EncodedPacket (packet1\<lparr> ep_data := Pooled buf \<rparr>))), src1, st)"
        "held st ((buf, d1) # map (\<lambda>(y, d). (payload_buffer y, d)) ls)" by blast
      let ?k = "packet1\<lparr> ep_data := Pooled buf \<rparr>"
      have c: "carries st (add_mset (EncodedPacket ?k, d1) (lots content ?ro))"
        using carries_publish [OF st(2) ls(2), of packet1] ls(1) by simp
      have "payload_data st (EncodedPacket ?k) = Some d1" by (rule carries_read [OF c]) simp
      with st(1) have t: "fan_take source p metrics s = s\<lparr> fn_source := src1, fn_pool := st,
          fn_router := ?ro\<lparr> ro_at := At 0 (EncodedPacket ?k, d1) \<rparr>, fn_taken := fn_taken s @ [(EncodedPacket ?k, d1)] \<rparr>"
        by (simp add: fan_take_def Let_def)
      have "handing content capacity (fn_taken s @ [(EncodedPacket ?k, d1)]) 0 (?ro\<lparr> ro_at := At 0 (EncodedPacket ?k, d1) \<rparr>)"
        using i(2) by (simp add: handing_def)
      then have "fan_inv content capacity (fan_take source p metrics s)"
        using i(1) s(1) c by (simp add: t fan_inv_def router_inv_def at_ok_def lots_def)
      moreover from inv(2) obtain ks where ks: "fn_taken s = as_payloads ks" "fed src0 True (fn_source s) ks"
        using s(1) by (auto simp: fan_fed_def)
      from fed_takes [OF ks(2) Pair [unfolded Offers], of ?k]
      have "fed src0 True src1 (ks @ [(?k, d1)])" by simp
      then have "fan_fed src0 (fan_take source p metrics s)"
        using ks(1) s(1) unfolding fan_fed_def
        by (intro exI [of _ "ks @ [(?k, d1)]"]) (simp add: t as_payloads_def)
      ultimately show ?thesis using Pair Offers s(1) by (simp add: t)
    qed
  qed
  then show "fan_inv content capacity (fan_take source p metrics s)" "fan_fed src0 (fan_take source p metrics s)"
    "ro_actors (fn_router (fan_take source p metrics s)) = ro_actors (fn_router s)"
    "offer (fn_source s) = (Offers packet d, src') \<Longrightarrow> \<exists>x. ro_at (fn_router (fan_take source p metrics s)) = At 0 x \<and>
      fn_source (fan_take source p metrics s) = src' \<and> fn_exit (fan_take source p metrics s) = None"
    by blast+
qed

lemma fan_step_inv:
  assumes step: "fan_step source ops p metrics task s s'" and doc: "documented_channels ops content capacity"
    and inv: "fan_inv content capacity s" "fan_fed src0 s"
    and small: "budget (limits capacity (fn_router s)) + 2 < 2 ^ 64 - 1"
  shows "fan_inv content capacity s' \<and> fan_fed src0 s' \<and> limits capacity (fn_router s') = limits capacity (fn_router s)"
  using step
proof cases
  case Takes
  with fan_take_inv(1-3) [OF inv, where p = p and metrics = metrics] show ?thesis by (simp add: limits_def)
next
  case Cancels
  with inv fan_fed_stops [OF inv(2), of s'] show ?thesis by (simp add: fan_inv_def)
next
  case Routes
  have "router_inv content capacity (fn_taken s) (fn_router s) (fn_pool s)" using inv(1) by (simp add: fan_inv_def)
  from router_turn_inv [OF doc this small] obtain ro st where r: "router_turn ops (fn_router s) (fn_pool s) = Some (ro, st)"
    "router_inv content capacity (fn_taken s) ro st" "limits capacity ro = limits capacity (fn_router s)" .
  then have s': "s' = s\<lparr> fn_router := ro, fn_pool := st \<rparr>" using Routes by (simp add: fan_route_def)
  have "fn_exit s = None" using inv(1) Routes by (auto simp: fan_inv_def)
  moreover have "fan_fed src0 s'" using inv(2) fan_fed_same [of s' s src0] by (simp add: s')
  moreover have "\<not> fn_panicked s" using inv(1) by (simp add: fan_inv_def)
  ultimately show ?thesis using r(2,3) by (simp add: fan_inv_def s')
next
  case (Receives i a x c)
  note ch = channel_recv [OF doc Receives(7)]
  let ?a = "receive x c a"
  have "fan_inv content capacity (set_actor i ?a (s\<lparr> fn_pool := fn_pool s \<rparr>))"
    using ch Receives
    by (intro fan_inv_actor [OF inv(1), where gone = "{#}"]) (auto simp: actor_ok_def receive_def)
  then show ?thesis
    using Receives ch fan_limits_actor [of i s ?a capacity] fan_fed_same [of s' s src0] inv(2)
    by (simp add: set_actor_def receive_def)
next
  case (Returns i a)
  let ?a = "a\<lparr> ra_busy := False \<rparr>"
  have "fan_inv content capacity (set_actor i ?a (s\<lparr> fn_pool := fn_pool s \<rparr>))"
    using Returns by (intro fan_inv_actor [OF inv(1), where gone = "{#}"]) (auto simp: actor_ok_def)
  then show ?thesis
    using Returns fan_limits_actor [of i s ?a capacity] fan_fed_same [of s' s src0] inv(2)
    by (simp add: set_actor_def)
next
  case (Releases i a us x vs)
  let ?a = "a\<lparr> ra_kept := us @ vs \<rparr>"
  have "x \<in># lots content (fn_router s)"
    unfolding lots_def using Releases by (intro in_sum_list [of a]) auto
  then obtain A where "mset (in_hand (ro_at (fn_router s))) + lots content (fn_router s) = add_mset x A"
    by (metis mset_add union_mset_add_mset_right)
  with inv(1) have "carries (fn_pool s) (add_mset x A)" by (simp add: fan_inv_def router_inv_def)
  from carries_drop [OF this] obtain st where st: "drop_loaded x (fn_pool s) = Some st" by blast
  have "fan_inv content capacity (set_actor i ?a (s\<lparr> fn_pool := st \<rparr>))"
  proof (rule fan_inv_actor [OF inv(1), where gone = "{#x#}"])
    fix A
    assume "carries (fn_pool s) (A + {#x#})"
    then show "carries st A" using carries_drop [of "fn_pool s" x A] st by auto
  qed (use Releases in \<open>auto simp: actor_ok_def\<close>)
  moreover have "s' = set_actor i ?a (s\<lparr> fn_pool := st \<rparr>)" using Releases st by (simp add: release_def)
  ultimately show ?thesis
    using Releases fan_limits_actor [of i "s\<lparr> fn_pool := st \<rparr>" ?a capacity] fan_fed_same [of s' s src0] inv(2)
    by (simp add: set_actor_def)
qed

lemma fan_reachable_inv:
  assumes "(any_fan_step source ops p metrics)\<^sup>*\<^sup>* (fan_initial ops room actors src p) s"
    and doc: "documented_channels ops content capacity" and new: "fanout_new configs = Some actors"
    and small: "(\<Sum>a\<leftarrow>actors. sa_capacity a + room (sa_sink a) + 1) + 2 < 2 ^ 64 - 1"
  shows "fan_inv content capacity s" "fan_fed src s"
    "limits capacity (fn_router s) = map (\<lambda>a. (sa_policy a, room (sa_sink a), sa_capacity a)) actors"
proof -
  note caps = fanout_new_capacity [OF new]
  let ?ls = "map (\<lambda>a. (sa_policy a, room (sa_sink a), sa_capacity a)) actors"
  have b: "budget ?ls + 2 < 2 ^ 64 - 1" using small by (simp add: budget_def comp_def)
  from assms(1) have "fan_inv content capacity s \<and> fan_fed src s \<and> limits capacity (fn_router s) = ?ls"
  proof (induction rule: rtranclp_induct)
    case base
    show ?case using router_start_inv [OF doc new] fed_starts
      by (auto simp: fan_initial_def fan_inv_def fan_fed_def as_payloads_def)
  next
    case (step s s')
    then obtain task where "fan_step source ops p metrics task s s'" by (auto simp: any_fan_step_def)
    moreover from step(3) have "fan_inv content capacity s" "fan_fed src s" "limits capacity (fn_router s) = ?ls" by blast+
    ultimately show ?case using fan_step_inv [of ops p metrics task s s' content capacity src] doc b by simp
  qed
  then show "fan_inv content capacity s" "fan_fed src s" "limits capacity (fn_router s) = ?ls" by blast+
qed

text \<open>A router at an actor from which on nobody blocks comes to rest on its own, whatever the sinks do.\<close>

lemma fan_rests:
  assumes doc: "documented_channels ops content capacity" and small: "budget (limits capacity (fn_router s)) + 2 < 2 ^ 64 - 1"
    and inv: "fan_inv content capacity s" "fan_fed src0 s"
    and drops: "\<And>i j. position_of (ro_at (fn_router s)) = Some i \<Longrightarrow> i \<le> j \<Longrightarrow> j < length (ro_actors (fn_router s)) \<Longrightarrow>
      ra_policy (ro_actors (fn_router s) ! j) \<noteq> RouterBlock"
  shows "\<exists>s'. (fan_step source ops p metrics PipelineTask)\<^sup>*\<^sup>* s s' \<and> ro_at (fn_router s') = Resting \<and>
    fan_kept s' = fan_kept s \<and> (\<forall>j < settled (fn_router s). ro_actors (fn_router s') ! j = ro_actors (fn_router s) ! j)"
  using small inv drops
proof (induction "turns_left (fn_router s)" arbitrary: s rule: less_induct)
  case less
  let ?ro = "fn_router s"
  show ?case
  proof (cases "position_of (ro_at ?ro)")
    case None
    then have "ro_at ?ro = Resting" by (cases "ro_at ?ro") simp_all
    then show ?thesis by blast
  next
    case (Some i)
    have r: "router_inv content capacity (fn_taken s) ?ro (fn_pool s)" "\<not> fn_panicked s"
      using less.prems(2) by (simp_all add: fan_inv_def)
    then have at_ok: "at_ok (fn_taken s) ?ro" by (simp add: router_inv_def)
    from router_turn_inv [OF doc r(1) less.prems(1)] obtain ro st where
      t: "router_turn ops ?ro (fn_pool s) = Some (ro, st)" .
    have block: "i < length (ro_actors ?ro) \<Longrightarrow> ra_policy (ro_actors ?ro ! i) \<noteq> RouterBlock"
      using less.prems(4) [OF Some order_refl] .
    note d = router_turn_drops [OF t Some block at_ok]
    let ?s = "s\<lparr> fn_router := ro, fn_pool := st \<rparr>"
    have step: "fan_step source ops p metrics PipelineTask s ?s"
      using Routes [of s source ops p metrics] r(2) Some t by (cases "ro_at ?ro") (simp_all add: fan_route_def)
    from fan_step_inv [OF step doc less.prems(2,3,1)] have
      inv': "fan_inv content capacity ?s" "fan_fed src0 ?s" "limits capacity ro = limits capacity ?ro" by simp_all
    obtain c where c: "ro_actors ro = (ro_actors ?ro)[i := (ro_actors ?ro ! i)\<lparr> ra_channel := c \<rparr>]"
      using d(2) by (auto simp: rechanneled_def)
    have policy: "map ra_policy (ro_actors ro) = map ra_policy (ro_actors ?ro)"
      unfolding c by (cases "i < length (ro_actors ?ro)") (simp_all add: map_update_same list_update_beyond)
    have "fan_kept ?s = fan_kept s"
      unfolding fan_kept_def by (cases "i < length (ro_actors ?ro)") (simp_all add: c map_update_same list_update_beyond)
    have n: "length (ro_actors ro) = length (ro_actors ?ro)" by (simp add: c)
    have "ra_policy (ro_actors ro ! j) \<noteq> RouterBlock"
      if "position_of (ro_at ro) = Some k" "k \<le> j" "j < length (ro_actors ro)" for k j
    proof -
      have "i \<le> j" "j < length (ro_actors ?ro)" using d(3) that n by auto
      then have "ra_policy (ro_actors ?ro ! j) \<noteq> RouterBlock" using less.prems(4) [OF Some] by blast
      then show ?thesis using policy that(3) n by (metis nth_map)
    qed
    with less.hyps [of ?s] d(1) less.prems(1) inv' obtain s' where
      s': "(fan_step source ops p metrics PipelineTask)\<^sup>*\<^sup>* ?s s'" "ro_at (fn_router s') = Resting" "fan_kept s' = fan_kept ?s"
      "\<forall>j < settled ro. ro_actors (fn_router s') ! j = ro_actors ro ! j"
      by auto
    have "i \<le> length (ro_actors ?ro)" using r(1) Some by (simp add: router_inv_def handing_def)
    then have "i \<le> settled ro" using d(3) n by (auto simp: settled_def)
    with s'(4) have "\<forall>j < i. ro_actors (fn_router s') ! j = ro_actors ?ro ! j" by (simp add: c)
    then show ?thesis
      using s' \<open>fan_kept ?s = fan_kept s\<close> Some
        converse_rtranclp_into_rtranclp [of "fan_step source ops p metrics PipelineTask", OF step]
      by (intro exI [of _ s']) (simp add: settled_def)
  qed
qed

end

end
