(* ===== verification/Caml_Fanout_Correct.thy ===== *)
theory Caml_Fanout_Correct
  imports Caml_Router_Correct
begin

text \<open>
  A fan-out pipeline with an FFmpeg worker: what its sinks receive, how many buffers it needs, and what a sink
  that does not return means for the others, under a dropping and under the blocking policy.
\<close>

section \<open>What the sinks receive\<close>

text \<open>
  C21: a running pipeline with several sinks, however its loop, its actors and their sinks interleave, never
  panics. Every sink receives messages of the worker in their order, a sink with the blocking policy the
  first ones with none left out; no channel holds more than its limit; a payload that a sink has can be read and has
  the bytes that the worker sent, until the sink drops it; the buffers in use are at most those that the channels and
  sinks have room for and two, and once the run is over, the drop of the router returns all of them.
\<close>

theorem fan_out_exact:
  assumes "documented_channels ops content capacity" "fanout_new configs = Some actors"
    and "(\<Sum>a\<leftarrow>actors. sa_capacity a + room (sa_sink a) + 1) + 2 < 2 ^ 64 - 1"
    and "(any_fan_step ffmpeg_next ops p metrics)\<^sup>*\<^sup>* (fan_initial ops room actors arrivals p) s"
    and "i < length actors" "a = ro_actors (fn_router s) ! i"
  shows "\<not> fn_panicked s \<and> length (content (ra_channel a)) \<le> sa_capacity (actors ! i) \<and>
    (\<exists>packets messages. ra_received a = as_payloads packets \<and> map unbuffered packets = map as_packet messages \<and>
       subseq messages (fst (arrived arrivals)) \<and>
       (sa_policy (actors ! i) = RouterBlock \<longrightarrow> prefix messages (fst (arrived arrivals)))) \<and>
    (\<forall>(y, d) \<in> set (ra_kept a). payload_data (fn_pool s) y = Some d) \<and>
    in_use (stats (fn_pool s)) \<le> (\<Sum>a\<leftarrow>actors. sa_capacity a + room (sa_sink a) + 1) + 2 \<and>
    (fn_exit s \<noteq> None \<longrightarrow> (\<exists>st. drop_router ops s = Some st \<and> in_use (stats st) = 0))"
proof -
  note r = ffmpeg_source.fan_reachable_inv [OF assms(4,1-3)]
  let ?ro = "fn_router s"
  have n: "length (ro_actors ?ro) = length actors" using r(3) by (metis length_map limits_def)
  have lim: "ra_policy a = sa_policy (actors ! i)" "capacity (ra_channel a) = sa_capacity (actors ! i)"
    using arg_cong [OF r(3), of "\<lambda>ls. ls ! i"] assms(5,6) n by (simp_all add: limits_def)
  have inv: "\<not> fn_panicked s" "handing content capacity (fn_taken s) (settled ?ro) ?ro"
    "carries (fn_pool s) (mset (in_hand (ro_at ?ro)) + lots content ?ro)"
    using r(1) by (simp_all add: fan_inv_def router_inv_def settled_def)
  define given where "given = (if i < settled ?ro then fn_taken s else butlast (fn_taken s))"
  have ok: "actor_ok content capacity given a" using inv(2) assms(5,6) n by (simp add: handing_def given_def)
  have given: "prefix given (fn_taken s)" by (simp add: given_def butlast_conv_take take_is_prefix)
  from r(2) obtain ks where ks: "fn_taken s = as_payloads ks"
    "ffmpeg_source.fed arrivals (fn_exit s = None) (fn_source s) ks"
    by (auto simp: ffmpeg_source.fan_fed_def)
  then have taken: "prefix (map unbuffered ks) (map as_packet (fst (arrived arrivals)))"
    using ffmpeg_offered_packets [of arrivals "Suc (length arrivals)"]
    by (auto simp: ffmpeg_source.fed_def Let_def)
  have "subseq (ra_received a) given"
    using ok list_emb_prefix [of "(=)" "ra_received a" "ra_received a" "content (ra_channel a)"]
    by (auto simp: actor_ok_def intro: subseq_order.order_trans)
  then have sub: "subseq (ra_received a) (map (\<lambda>(k, d). (EncodedPacket k, d)) ks)"
    using given ks(1) prefix_imp_subseq by (fastforce simp: as_payloads_def intro: subseq_order.order_trans)
  have pre: "prefix (ra_received a) (map (\<lambda>(k, d). (EncodedPacket k, d)) ks)" if "sa_policy (actors ! i) = RouterBlock"
    using ok given ks(1) that lim(1) unfolding actor_ok_def as_payloads_def by (metis append_prefixD)
  from subseq_map_inv [OF sub] obtain packets where packets: "subseq packets ks" "ra_received a = as_payloads packets"
    "prefix (ra_received a) (map (\<lambda>(k, d). (EncodedPacket k, d)) ks) \<longrightarrow> prefix packets ks"
    unfolding as_payloads_def by metis
  have "subseq (map unbuffered packets) (map as_packet (fst (arrived arrivals)))"
    by (meson packets(1) prefix_imp_subseq subseq_map subseq_order.order_trans taken)
  then obtain messages where m: "subseq messages (fst (arrived arrivals))"
    "map unbuffered packets = map as_packet messages"
    "prefix (map unbuffered packets) (map as_packet (fst (arrived arrivals))) \<longrightarrow> prefix messages (fst (arrived arrivals))"
    by (rule subseq_map_inv)
  have "prefix messages (fst (arrived arrivals))" if "sa_policy (actors ! i) = RouterBlock"
    using m(3) packets(3) pre [OF that] taken by (meson map_mono_prefix prefix_order.order_trans)
  moreover have "\<forall>(y, d) \<in> set (ra_kept a). payload_data (fn_pool s) y = Some d"
  proof -
    have "x \<in># lots content ?ro" if "x \<in> set (ra_kept a)" for x
      unfolding lots_def using that assms(5,6) n by (intro in_sum_list [of a]) auto
    then show ?thesis using carries_read [OF inv(3)] by fastforce
  qed
  moreover have "in_use (stats (fn_pool s)) \<le> (\<Sum>a\<leftarrow>actors. sa_capacity a + room (sa_sink a) + 1) + 2"
  proof -
    have "length (in_hand (ro_at ?ro)) \<le> 2" by (cases "ro_at ?ro") simp_all
    moreover have "size (lots content ?ro) \<le> (\<Sum>a\<leftarrow>actors. sa_capacity a + room (sa_sink a) + 1)"
      using lots_size [OF inv(2)] by (simp add: r(3) budget_def comp_def)
    ultimately show ?thesis using carries_in_use [OF inv(3)] by simp
  qed
  moreover have "length (content (ra_channel a)) \<le> sa_capacity (actors ! i)" using ok lim(2) by (simp add: actor_ok_def)
  ultimately show ?thesis using inv(1) m(1,2) packets(2) drop_router_ok [OF r(1) _ assms(1)] by blast
qed

section \<open>Sinks that do not return\<close>

text \<open>
  C22: with dropping policies the router never waits for a sink: from every reachable state the task of the
  pipeline alone brings it to the end of \<open>consume\<close>, even if no sink ever returns, and meanwhile touches
  neither the sinks nor what they have received.
\<close>

theorem dropping_router_never_waits:
  assumes "documented_channels ops content capacity" "fanout_new configs = Some actors"
    and "(\<Sum>a\<leftarrow>actors. sa_capacity a + room (sa_sink a) + 1) + 2 < 2 ^ 64 - 1"
    and "\<forall>a \<in> set actors. sa_policy a \<noteq> RouterBlock"
    and "(any_fan_step ffmpeg_next ops p metrics)\<^sup>*\<^sup>* (fan_initial ops room actors arrivals p) s"
  shows "\<exists>s'. (fan_step ffmpeg_next ops p metrics PipelineTask)\<^sup>*\<^sup>* s s' \<and> ro_at (fn_router s') = Resting \<and>
    fn_exit s' = fn_exit s \<and> fn_taken s' = fn_taken s \<and>
    map (\<lambda>a. (ra_busy a, ra_kept a, ra_received a)) (ro_actors (fn_router s')) =
      map (\<lambda>a. (ra_busy a, ra_kept a, ra_received a)) (ro_actors (fn_router s))"
proof -
  note r = ffmpeg_source.fan_reachable_inv [OF assms(5,1-3)]
  have "budget (limits capacity (fn_router s)) + 2 < 2 ^ 64 - 1" using assms(3) by (simp add: r(3) budget_def comp_def)
  moreover have "ra_policy (ro_actors (fn_router s) ! j) \<noteq> RouterBlock" if "j < length (ro_actors (fn_router s))" for j
    using fan_policies [OF r(3) that] assms(4) by auto
  ultimately obtain s' where "(fan_step ffmpeg_next ops p metrics PipelineTask)\<^sup>*\<^sup>* s s'"
    "ro_at (fn_router s') = Resting" "fan_kept s' = fan_kept s"
    using ffmpeg_source.fan_rests [OF assms(1) _ r(1,2), of p metrics] by blast
  moreover from this(3) have "fn_exit s' = fn_exit s" "fn_taken s' = fn_taken s" by (simp_all add: fan_kept_def)
  moreover have "map (\<lambda>(policy, room, b, k, r). (b, k, r)) (map (\<lambda>a. (ra_policy a, ra_room a, ra_busy a, ra_kept a, ra_received a))
      (ro_actors (fn_router s'))) =
    map (\<lambda>(policy, room, b, k, r). (b, k, r)) (map (\<lambda>a. (ra_policy a, ra_room a, ra_busy a, ra_kept a, ra_received a))
      (ro_actors (fn_router s)))"
    using \<open>fan_kept s' = fan_kept s\<close> by (simp only: fan_kept_def prod.inject)
  ultimately show ?thesis by (intro exI [of _ s']) (simp add: comp_def)
qed

text \<open>A blocking actor that does not receive keeps the router waiting.\<close>

lemma stalled_step:
  assumes "fan_step source ops p metrics task s s'" "task \<noteq> ActorTask i" "documented_channels ops content capacity"
    and "ro_at (fn_router s) = Waits i x" "i < length (ro_actors (fn_router s))"
    and "\<not> length (content (ra_channel (ro_actors (fn_router s) ! i))) < capacity (ra_channel (ro_actors (fn_router s) ! i))"
  shows "ro_at (fn_router s') = Waits i x \<and> i < length (ro_actors (fn_router s')) \<and> fn_exit s' = fn_exit s \<and>
    fn_taken s' = fn_taken s \<and>
    \<not> length (content (ra_channel (ro_actors (fn_router s') ! i))) < capacity (ra_channel (ro_actors (fn_router s') ! i))"
  using assms(1)
proof cases
  case Routes
  obtain sent c where c: "ch_try_send ops x (ra_channel (ro_actors (fn_router s) ! i)) = (sent, c)" by fastforce
  from channel_send [OF assms(3) c] assms(6) have "\<not> sent" "capacity c = capacity (ra_channel (ro_actors (fn_router s) ! i))"
    "content c = content (ra_channel (ro_actors (fn_router s) ! i))" by auto
  with Routes c assms(4-6) show ?thesis
    by (simp add: fan_route_def router_turn_def send_to_def)
qed (use assms in \<open>auto simp: set_actor_def release_def fan_panic_def split: option.split\<close>)

lemma stalled_run:
  assumes "(\<lambda>s s'. \<exists>task. task \<noteq> ActorTask i \<and> fan_step source ops p metrics task s s')\<^sup>*\<^sup>* s s'"
    and doc: "documented_channels ops content capacity"
    and s: "ro_at (fn_router s) = Waits i x" "i < length (ro_actors (fn_router s))"
      "\<not> length (content (ra_channel (ro_actors (fn_router s) ! i))) < capacity (ra_channel (ro_actors (fn_router s) ! i))"
  shows "ro_at (fn_router s') = Waits i x \<and> fn_exit s' = fn_exit s \<and> fn_taken s' = fn_taken s"
proof -
  from assms(1) have "ro_at (fn_router s') = Waits i x \<and> i < length (ro_actors (fn_router s')) \<and> fn_exit s' = fn_exit s \<and>
    fn_taken s' = fn_taken s \<and>
    \<not> length (content (ra_channel (ro_actors (fn_router s') ! i))) < capacity (ra_channel (ro_actors (fn_router s') ! i))"
  proof (induction rule: rtranclp_induct)
    case base
    show ?case using s by simp
  next
    case (step s1 s2)
    then obtain task where "task \<noteq> ActorTask i" "fan_step source ops p metrics task s1 s2" by blast
    from stalled_step [OF this(2,1) doc] step(3) show ?case by metis
  qed
  then show ?thesis by blast
qed

lemma block_turn:
  assumes "documented_channels ops content capacity" "router_turn ops ro st = Some (ro', st')"
    and "ro_at ro = At i x" "i < length (ro_actors ro)" "ra_policy (ro_actors ro ! i) = RouterBlock"
  shows "\<exists>c. ro_actors ro' = (ro_actors ro)[i := (ro_actors ro ! i)\<lparr> ra_channel := c \<rparr>] \<and>
    (if length (content (ra_channel (ro_actors ro ! i))) < capacity (ra_channel (ro_actors ro ! i))
     then ro_at ro' = At (Suc i) x \<and> length (content c) = Suc (length (content (ra_channel (ro_actors ro ! i))))
     else ro_at ro' = Waits i x \<and> length (content c) = length (content (ra_channel (ro_actors ro ! i))))"
proof -
  from assms(2-5) obtain y st1 where "(let (sent, ro1) = send_to ops i y ro in
      (ro1\<lparr> ro_at := if sent then At (Suc i) x else Waits i x \<rparr>, st1)) = (ro', st')"
    by (auto simp: router_turn_def)
  then obtain sent ro1 where y: "send_to ops i y ro = (sent, ro1)"
    "ro' = ro1\<lparr> ro_at := if sent then At (Suc i) x else Waits i x \<rparr>"
    by (cases "send_to ops i y ro") (simp add: Let_def)
  then obtain c where c: "ch_try_send ops y (ra_channel (ro_actors ro ! i)) = (sent, c)"
    "ro_actors ro' = (ro_actors ro)[i := (ro_actors ro ! i)\<lparr> ra_channel := c \<rparr>]"
    by (auto simp: send_to_def Let_def split: prod.splits)
  with channel_send [OF assms(1) c(1)] y(2) show ?thesis by (intro exI [of _ c]) auto
qed

text \<open>A router whose first actor blocks and whose others do not, with an actor that is not receiving.\<close>

definition first_holds :: "('c \<Rightarrow> loaded list) \<Rightarrow> nat \<Rightarrow> ('src, 'c) fan \<Rightarrow> bool" where
  "first_holds content k s \<longleftrightarrow> fn_exit s = None \<and> length (content (ra_channel (ro_actors (fn_router s) ! 0))) = k"

lemma feed_first:
  fixes s :: "(arrival list, 'c) fan"
  assumes doc: "documented_channels ops content capacity" and new: "fanout_new configs = Some (a # actors)"
    and small: "(\<Sum>a\<leftarrow>a # actors. sa_capacity a + room (sa_sink a) + 1) + 2 < 2 ^ 64 - 1"
    and policies: "sa_policy a = RouterBlock" "\<forall>b \<in> set actors. sa_policy b \<noteq> RouterBlock"
    and run: "(any_fan_step ffmpeg_next ops p metrics)\<^sup>*\<^sup>* (fan_initial ops room (a # actors) arrivals p) s"
    and s: "first_holds content k s" "ro_at (fn_router s) = Resting" "fn_source s = Arrives (PacketMessage m) # rest"
  obtains s' where "(any_fan_step ffmpeg_next ops p metrics)\<^sup>*\<^sup>* (fan_initial ops room (a # actors) arrivals p) s'"
    "k < sa_capacity a \<Longrightarrow> first_holds content (Suc k) s' \<and> ro_at (fn_router s') = Resting \<and> fn_source s' = rest \<and>
       ra_busy (ro_actors (fn_router s') ! 0) = ra_busy (ro_actors (fn_router s) ! 0)"
    "\<not> k < sa_capacity a \<Longrightarrow> first_holds content k s' \<and> (\<exists>x. ro_at (fn_router s') = Waits 0 x) \<and>
       ra_busy (ro_actors (fn_router s') ! 0) = ra_busy (ro_actors (fn_router s) ! 0)"
proof -
  let ?R = "any_fan_step ffmpeg_next ops p metrics" and ?init = "fan_initial ops room (a # actors) arrivals p"
  note r = ffmpeg_source.fan_reachable_inv [OF run doc new small]
  define s1 where "s1 = fan_take ffmpeg_next p metrics s"
  have e: "fn_exit s = None" using s(1) by (simp add: first_holds_def)
  have o: "ffmpeg_offer (fn_source s) = (Offers (message_header m) (wp_data m), rest)" by (simp add: s(3))
  from ffmpeg_source.fan_take_inv(4) [OF r(1,2) e s(2) o] obtain x where
    s1: "ro_at (fn_router s1) = At 0 x" "fn_source s1 = rest" "fn_exit s1 = None" unfolding s1_def by blast
  have same: "ro_actors (fn_router s1) = ro_actors (fn_router s)"
    unfolding s1_def by (rule ffmpeg_source.fan_take_inv(3) [OF r(1,2) e s(2)])
  have "?R s s1"
    unfolding any_fan_step_def s1_def
    by (rule exI [of _ PipelineTask], rule fan_step.Takes) (use r(1) s in \<open>simp_all add: fan_inv_def first_holds_def\<close>)
  then have run1: "?R\<^sup>*\<^sup>* ?init s1" using run by (meson rtranclp.rtrancl_into_rtrancl)
  note r1 = ffmpeg_source.fan_reachable_inv [OF run1 doc new small]
  have n: "length (ro_actors (fn_router s1)) = Suc (length actors)"
    using arg_cong [OF r1(3), of length] by (simp add: limits_def)
  note first = fan_policies [OF r1(3), of 0]
  have inv1: "router_inv content capacity (fn_taken s1) (fn_router s1) (fn_pool s1)" "\<not> fn_panicked s1"
    using r1(1) by (simp_all add: fan_inv_def)
  have b: "budget (limits capacity (fn_router s1)) + 2 < 2 ^ 64 - 1" using small by (simp add: r1(3) budget_def comp_def)
  from router_turn_inv [OF doc inv1(1) b] obtain ro st where t: "router_turn ops (fn_router s1) (fn_pool s1) = Some (ro, st)" .
  define s2 where "s2 = s1\<lparr> fn_router := ro, fn_pool := st \<rparr>"
  have "?R s1 s2"
    using Routes [OF inv1(2), of ffmpeg_next ops p metrics] s1(1) t by (auto simp: any_fan_step_def fan_route_def s2_def)
  then have run2: "?R\<^sup>*\<^sup>* ?init s2" using run1 by (meson rtranclp.rtrancl_into_rtrancl)
  note r2 = ffmpeg_source.fan_reachable_inv [OF run2 doc new small]
  have pos: "0 < length (ro_actors (fn_router s1))" using n by simp
  have "ra_policy (ro_actors (fn_router s1) ! 0) = RouterBlock" using first(2) pos policies(1) by simp
  note turn = block_turn [OF doc t s1(1) pos this]
  have "capacity (ra_channel (ro_actors (fn_router s) ! 0)) = sa_capacity a" using first(3) pos same by simp
  with turn obtain c where
    c: "ro_actors ro = (ro_actors (fn_router s))[0 := (ro_actors (fn_router s) ! 0)\<lparr> ra_channel := c \<rparr>]"
    "if k < sa_capacity a then ro_at ro = At (Suc 0) x \<and> length (content c) = Suc k
     else ro_at ro = Waits 0 x \<and> length (content c) = k"
    using s(1) unfolding same first_holds_def by auto
  then have c0: "ro_actors ro ! 0 = (ro_actors (fn_router s) ! 0)\<lparr> ra_channel := c \<rparr>" using n same by simp
  show ?thesis
  proof (cases "k < sa_capacity a")
    case False
    then show ?thesis using c(2) c0 s1(3) by (intro that [OF run2]) (auto simp: first_holds_def s2_def)
  next
    case True
    then have at: "ro_at (fn_router s2) = At (Suc 0) x" using c(2) by (simp add: s2_def)
    have "ra_policy (ro_actors (fn_router s2) ! j) \<noteq> RouterBlock"
      if "Suc 0 \<le> j" "j < length (ro_actors (fn_router s2))" for j
      using fan_policies(1,2) [OF r2(3) that(2)] that(1) policies(2) by (cases j) auto
    moreover have "budget (limits capacity (fn_router s2)) + 2 < 2 ^ 64 - 1"
      using small by (simp add: r2(3) budget_def comp_def)
    ultimately obtain s3 where s3: "(fan_step ffmpeg_next ops p metrics PipelineTask)\<^sup>*\<^sup>* s2 s3"
      "ro_at (fn_router s3) = Resting" "fan_kept s3 = fan_kept s2"
      "\<forall>j < settled (fn_router s2). ro_actors (fn_router s3) ! j = ro_actors (fn_router s2) ! j"
      using ffmpeg_source.fan_rests [OF doc _ r2(1,2), of p metrics] at by auto
    have "(fan_step ffmpeg_next ops p metrics PipelineTask) \<le> ?R" by (auto simp: any_fan_step_def)
    with s3(1) have "?R\<^sup>*\<^sup>* s2 s3" using rtranclp_mono by blast
    with run2 have run3: "?R\<^sup>*\<^sup>* ?init s3" by (rule rtranclp_trans)
    have "ro_actors (fn_router s3) ! 0 = (ro_actors (fn_router s) ! 0)\<lparr> ra_channel := c \<rparr>"
      using s3(4) at c0 by (simp add: settled_def s2_def)
    moreover have "fn_exit s3 = None" "fn_source s3 = rest" using s3(3) s1 by (simp_all add: fan_kept_def s2_def)
    ultimately show ?thesis
      using True c(2) s3(2) by (intro that [OF run3]) (simp_all add: first_holds_def)
  qed
qed

lemma feed_many:
  fixes s :: "(arrival list, 'c) fan"
  assumes doc: "documented_channels ops content capacity" and new: "fanout_new configs = Some (a # actors)"
    and small: "(\<Sum>a\<leftarrow>a # actors. sa_capacity a + room (sa_sink a) + 1) + 2 < 2 ^ 64 - 1"
    and policies: "sa_policy a = RouterBlock" "\<forall>b \<in> set actors. sa_policy b \<noteq> RouterBlock"
    and run: "(any_fan_step ffmpeg_next ops p metrics)\<^sup>*\<^sup>* (fan_initial ops room (a # actors) arrivals p) s"
    and s: "first_holds content k s" "ro_at (fn_router s) = Resting"
      "fn_source s = map (Arrives \<circ> PacketMessage) messages @ rest" "k + length messages \<le> sa_capacity a"
  shows "\<exists>s'. (any_fan_step ffmpeg_next ops p metrics)\<^sup>*\<^sup>* (fan_initial ops room (a # actors) arrivals p) s' \<and>
    first_holds content (k + length messages) s' \<and> ro_at (fn_router s') = Resting \<and> fn_source s' = rest \<and>
    ra_busy (ro_actors (fn_router s') ! 0) = ra_busy (ro_actors (fn_router s) ! 0)"
  using run s
proof (induction messages arbitrary: k s)
  case Nil
  then show ?case by auto
next
  case (Cons m messages)
  then have k: "k < sa_capacity a" by simp
  have src: "fn_source s = Arrives (PacketMessage m) # map (Arrives \<circ> PacketMessage) messages @ rest"
    using Cons.prems(4) by simp
  obtain s1 where s1: "(any_fan_step ffmpeg_next ops p metrics)\<^sup>*\<^sup>* (fan_initial ops room (a # actors) arrivals p) s1"
    "first_holds content (Suc k) s1" "ro_at (fn_router s1) = Resting"
    "fn_source s1 = map (Arrives \<circ> PacketMessage) messages @ rest"
    "ra_busy (ro_actors (fn_router s1) ! 0) = ra_busy (ro_actors (fn_router s) ! 0)"
    using feed_first [OF doc new small policies Cons.prems(1-3) src] k by metis
  have "Suc k + length messages \<le> sa_capacity a" using Cons.prems(5) by simp
  from Cons.IH [OF s1(1-4) this] s1(5) show ?case by auto
qed

lemma stalled_reachable:
  assumes "documented_channels ops content capacity" "fanout_new configs = Some (a # actors)"
    and "(\<Sum>a\<leftarrow>a # actors. sa_capacity a + room (sa_sink a) + 1) + 2 < 2 ^ 64 - 1"
    and "sa_policy a = RouterBlock" "\<forall>b \<in> set actors. sa_policy b \<noteq> RouterBlock"
    and "length messages = sa_capacity a + 2"
  shows "\<exists>s x. (any_fan_step ffmpeg_next ops p metrics)\<^sup>*\<^sup>*
      (fan_initial ops room (a # actors) (map (Arrives \<circ> PacketMessage) messages @ rest) p) s \<and>
    ra_busy (ro_actors (fn_router s) ! 0) \<and>
    (\<forall>s'. (\<lambda>s s'. \<exists>task. task \<noteq> ActorTask 0 \<and> fan_step ffmpeg_next ops p metrics task s s')\<^sup>*\<^sup>* s s' \<longrightarrow>
      ro_at (fn_router s') = Waits 0 x \<and> fn_exit s' = None \<and> fn_taken s' = fn_taken s)"
proof -
  let ?arrivals = "map (Arrives \<circ> PacketMessage) messages @ rest"
  let ?R = "any_fan_step ffmpeg_next ops p metrics" and ?init = "fan_initial ops room (a # actors) ?arrivals p"
  note feed = feed_first [OF assms(1-5)]
  obtain m0 ms ml where m: "messages = m0 # ms @ [ml]" "length ms = sa_capacity a"
    using assms(6) by (cases messages; cases "tl messages" rule: rev_cases) auto
  have cap: "0 < sa_capacity a" using fanout_new_capacity [OF assms(2)] by simp
  have init: "first_holds content 0 ?init" "ro_at (fn_router ?init) = Resting"
    using channel_open [OF assms(1), of "sa_capacity a"] fanout_new_capacity [OF assms(2)]
    by (simp_all add: first_holds_def fan_initial_def router_start_def)
  have "fn_source ?init = Arrives (PacketMessage m0) # map (Arrives \<circ> PacketMessage) (ms @ [ml]) @ rest"
    by (simp add: fan_initial_def m(1))
  from feed [OF rtranclp.rtrancl_refl init this] cap obtain s1 where s1: "?R\<^sup>*\<^sup>* ?init s1"
    "first_holds content (Suc 0) s1" "ro_at (fn_router s1) = Resting"
    "fn_source s1 = map (Arrives \<circ> PacketMessage) (ms @ [ml]) @ rest"
    "ra_busy (ro_actors (fn_router s1) ! 0) = ra_busy (ro_actors (fn_router ?init) ! 0)" by metis
  note r1 = ffmpeg_source.fan_reachable_inv [OF s1(1) assms(1-3)]
  have n1: "0 < length (ro_actors (fn_router s1))" using arg_cong [OF r1(3), of length] by (simp add: limits_def)
  define b where "b = ro_actors (fn_router s1) ! 0"
  have idle: "\<not> ra_busy b" using s1(5) by (simp add: b_def fan_initial_def router_start_def)
  obtain y c where recv: "ch_recv ops (ra_channel b) = (y, c)" by fastforce
  have "y \<noteq> None"
  proof
    assume "y = None"
    with recv have "ch_recv ops (ra_channel b) = (None, c)" by simp
    with assms(1) have "content (ra_channel b) = []" unfolding documented_channels_def by fastforce
    with s1(2) show False by (simp add: first_holds_def b_def)
  qed
  then obtain x where x: "ch_recv ops (ra_channel b) = (Some x, c)" using recv by auto
  define s2 where "s2 = set_actor 0 (receive x c b) s1"
  have "?R s1 s2"
    unfolding any_fan_step_def s2_def
    by (rule exI [of _ "ActorTask 0"], rule Receives [OF _ n1 b_def idle x]) (use r1(1) in \<open>simp add: fan_inv_def\<close>)
  with s1(1) have run2: "?R\<^sup>*\<^sup>* ?init s2" by (meson rtranclp.rtrancl_into_rtrancl)
  have s2: "first_holds content 0 s2" "ro_at (fn_router s2) = Resting"
    "fn_source s2 = map (Arrives \<circ> PacketMessage) ms @ Arrives (PacketMessage ml) # rest"
    "ra_busy (ro_actors (fn_router s2) ! 0)"
    using s1(2-4) channel_recv [OF assms(1) x] n1
    by (simp_all add: s2_def set_actor_def receive_def first_holds_def b_def)
  have "0 + length ms \<le> sa_capacity a" using m(2) by simp
  from feed_many [OF assms(1-5) run2 s2(1-3) this] m(2) s2(4) obtain s3 where s3: "?R\<^sup>*\<^sup>* ?init s3"
    "first_holds content (sa_capacity a) s3" "ro_at (fn_router s3) = Resting"
    "fn_source s3 = Arrives (PacketMessage ml) # rest" "ra_busy (ro_actors (fn_router s3) ! 0)" by auto
  have full: "\<not> sa_capacity a < sa_capacity a" by simp
  from feed [OF s3(1-4)] full s3(5) obtain s4 x where s4: "?R\<^sup>*\<^sup>* ?init s4"
    "first_holds content (sa_capacity a) s4" "ro_at (fn_router s4) = Waits 0 x" "ra_busy (ro_actors (fn_router s4) ! 0)"
    by metis
  note r4 = ffmpeg_source.fan_reachable_inv [OF s4(1) assms(1-3)]
  have n4: "0 < length (ro_actors (fn_router s4))" using arg_cong [OF r4(3), of length] by (simp add: limits_def)
  have "\<not> length (content (ra_channel (ro_actors (fn_router s4) ! 0))) < capacity (ra_channel (ro_actors (fn_router s4) ! 0))"
    using s4(2) fan_policies(3) [OF r4(3) n4] by (simp add: first_holds_def)
  note stalled = stalled_run [OF _ assms(1) s4(3) n4 this]
  have "fn_exit s4 = None" using s4(2) by (simp add: first_holds_def)
  show ?thesis
  proof (intro exI conjI allI impI)
    show "?R\<^sup>*\<^sup>* ?init s4" by (rule s4(1))
    show "ra_busy (ro_actors (fn_router s4) ! 0)" by (rule s4(4))
    fix s'
    assume "(\<lambda>s s'. \<exists>task. task \<noteq> ActorTask 0 \<and> fan_step ffmpeg_next ops p metrics task s s')\<^sup>*\<^sup>* s4 s'"
    from stalled [OF this] \<open>fn_exit s4 = None\<close>
    show "ro_at (fn_router s') = Waits 0 x" "fn_exit s' = None" "fn_taken s' = fn_taken s4" by simp_all
  qed
qed

text \<open>Examples: a recorder that blocks next to one that drops, and one that drops alone.\<close>

definition example_fan :: "unit sink_actor_config list" where
  "example_fan = [\<lparr> sac_sink = (), sac_queue_limit = 1, sac_drop_policy = RouterBlock \<rparr>,
     \<lparr> sac_sink = (), sac_queue_limit = 2, sac_drop_policy = RouterDropNewest \<rparr>]"

definition example_actors :: "unit sink_actor list" where
  "example_actors = [\<lparr> sa_sink = (), sa_capacity = 1, sa_policy = RouterBlock \<rparr>,
     \<lparr> sa_sink = (), sa_capacity = 2, sa_policy = RouterDropNewest \<rparr>]"

lemma example_fan_new: "fanout_new example_fan = Some example_actors"
  by (simp add: example_fan_def example_actors_def max_permits_def)

abbreviation "example_fan_run actors s \<equiv> (any_fan_step ffmpeg_next list_channels sentinel True)\<^sup>*\<^sup>*
  (fan_initial list_channels (\<lambda>u. 0) actors (map (Arrives \<circ> PacketMessage) (map scripted_packet [0..<3]) @ [Arrives EndMessage])
     sentinel) s"

text \<open>
  C23: a sink with the blocking policy can stall the whole pipeline. For every limit of its channel there is a run
  in which the sink is in \<open>consume\<close>, its channel is full and the router waits; from there, as long as this
  sink does not return, nothing that the other tasks do moves the pipeline: no other sink is given
  anything, and neither the cancellation nor the watchdog ends the loop.
\<close>

theorem blocking_sink_stalls_pipeline:
  assumes "documented_channels ops content capacity" "fanout_new configs = Some (a # actors)"
    and "(\<Sum>a\<leftarrow>a # actors. sa_capacity a + room (sa_sink a) + 1) + 2 < 2 ^ 64 - 1"
    and "sa_policy a = RouterBlock" "\<forall>b \<in> set actors. sa_policy b \<noteq> RouterBlock"
    and "length messages = sa_capacity a + 2"
  shows "\<exists>s x. (any_fan_step ffmpeg_next ops p metrics)\<^sup>*\<^sup>*
      (fan_initial ops room (a # actors) (map (Arrives \<circ> PacketMessage) messages @ rest) p) s \<and>
    ra_busy (ro_actors (fn_router s) ! 0) \<and>
    (\<forall>s'. (\<lambda>s s'. \<exists>task. task \<noteq> ActorTask 0 \<and> fan_step ffmpeg_next ops p metrics task s s')\<^sup>*\<^sup>* s s' \<longrightarrow>
      ro_at (fn_router s') = Waits 0 x \<and> fn_exit s' = None \<and> fn_taken s' = fn_taken s)"
  by (rule stalled_reachable [OF assms])

theorem blocking_sink_stalls_pipeline_witness:
  "\<exists>s x. example_fan_run example_actors s \<and> ra_busy (ro_actors (fn_router s) ! 0) \<and>
     (\<forall>s'. (\<lambda>s s'. \<exists>task. task \<noteq> ActorTask 0 \<and> fan_step ffmpeg_next list_channels sentinel True task s s')\<^sup>*\<^sup>* s s' \<longrightarrow>
       ro_at (fn_router s') = Waits 0 x \<and> fn_exit s' = None \<and> fn_taken s' = fn_taken s)"
  using blocking_sink_stalls_pipeline [OF list_channels_documented example_fan_new [unfolded example_actors_def],
      of "\<lambda>u. 0" "map scripted_packet [0..<3]" sentinel True "[Arrives EndMessage]"]
  unfolding example_actors_def by simp

theorem fan_out_exact_witness:
  "\<exists>s packets messages. example_fan_run example_actors s \<and> ra_busy (ro_actors (fn_router s) ! 0) \<and> \<not> fn_panicked s \<and>
     ra_received (ro_actors (fn_router s) ! 0) = as_payloads packets \<and> map unbuffered packets = map as_packet messages \<and>
     prefix messages (map scripted_packet [0..<3]) \<and> in_use (stats (fn_pool s)) \<le> 7"
proof -
  obtain s where s: "example_fan_run example_actors s" "ra_busy (ro_actors (fn_router s) ! 0)"
    using stalled_reachable [OF list_channels_documented example_fan_new [unfolded example_actors_def],
      of "\<lambda>u. 0" "map scripted_packet [0..<3]" sentinel True "[Arrives EndMessage]"]
    unfolding example_actors_def by auto
  have "fst (arrived (map (Arrives \<circ> PacketMessage) (map scripted_packet [0..<3]) @ [Arrives EndMessage])) =
      map scripted_packet [0..<3]"
    by (simp add: numeral_eq_Suc)
  then show ?thesis
    using fan_out_exact [OF list_channels_documented example_fan_new _ s(1) _ refl, of 0] s
    by (auto simp: example_actors_def)
qed

definition example_dropping :: "unit sink_actor list" where
  "example_dropping = [\<lparr> sa_sink = (), sa_capacity = 1, sa_policy = RouterDropOldest \<rparr>]"

lemma example_dropping_new:
  "fanout_new [\<lparr> sac_sink = (), sac_queue_limit = 1, sac_drop_policy = RouterDropOldest \<rparr>] = Some example_dropping"
  by (simp add: example_dropping_def max_permits_def)

theorem dropping_router_never_waits_witness:
  "\<exists>s x s'. example_fan_run example_dropping s \<and> ro_at (fn_router s) = At 0 x \<and>
     (fan_step ffmpeg_next list_channels sentinel True PipelineTask)\<^sup>*\<^sup>* s s' \<and> ro_at (fn_router s') = Resting \<and>
     fn_taken s' = fn_taken s"
proof -
  let ?arrivals = "map (Arrives \<circ> PacketMessage) (map scripted_packet [0..<3]) @ [Arrives EndMessage]"
  define s0 where "s0 = fan_initial list_channels (\<lambda>u. 0) example_dropping ?arrivals sentinel"
  have small: "(\<Sum>a\<leftarrow>example_dropping. sa_capacity a + 0 + 1) + 2 < 2 ^ 64 - 1" by (simp add: example_dropping_def)
  have run0: "example_fan_run example_dropping s0" by (simp add: s0_def)
  note r = ffmpeg_source.fan_reachable_inv [OF run0 list_channels_documented example_dropping_new small]
  have s0: "fn_exit s0 = None" "ro_at (fn_router s0) = Resting" by (simp_all add: s0_def fan_initial_def router_start_def)
  have "ffmpeg_offer (fn_source s0) = (Offers (message_header (scripted_packet 0)) (wp_data (scripted_packet 0)),
      map (Arrives \<circ> PacketMessage) (map scripted_packet [1, 2]) @ [Arrives EndMessage])"
    by (simp add: s0_def fan_initial_def numeral_eq_Suc)
  from ffmpeg_source.fan_take_inv(4) [OF r(1,2) s0 this, of sentinel True] obtain x where
    at: "ro_at (fn_router (fan_take ffmpeg_next sentinel True s0)) = At 0 x" by blast
  have "any_fan_step ffmpeg_next list_channels sentinel True s0 (fan_take ffmpeg_next sentinel True s0)"
    unfolding any_fan_step_def
    by (rule exI [of _ PipelineTask], rule fan_step.Takes) (use r(1) s0 in \<open>simp_all add: fan_inv_def\<close>)
  then have run: "example_fan_run example_dropping (fan_take ffmpeg_next sentinel True s0)"
    unfolding s0_def by (rule r_into_rtranclp)
  have "\<forall>a \<in> set example_dropping. sa_policy a \<noteq> RouterBlock" by (simp add: example_dropping_def)
  from dropping_router_never_waits [OF list_channels_documented example_dropping_new small this run] run at
  show ?thesis by blast
qed

end
