(* ===== verification/Caml_Engine.thy ===== *)
theory Caml_Engine
  imports Caml_Runtime
begin

text \<open>
  \<open>RuntimeEngine::start\<close> of \<^verbatim>\<open>crates/caml-core/src/runtime.rs\<close> with the tasks it spawns running at the
  same time. What the tasks share is the handle: the status map behind its lock, and the broadcast
  channel. An insertion into the map and the sending of an event are one step each, and between them
  any other task may run. What a supervisor does alone is \<open>supervise_pipeline_task\<close>; its events say
  in which order it touches the handle.
\<close>

section \<open>The shared handle\<close>

datatype handle_op =
    InsertStatus str task_status
  | SendEvent runtime_event

fun op_pid :: "handle_op \<Rightarrow> str" where
  "op_pid (InsertStatus pid status) = pid"
| "op_pid (SendEvent e) = event_pid e"

text \<open>\<open>publish_status\<close> inserts first and sends then.\<close>

definition publish_ops :: "str \<Rightarrow> task_status \<Rightarrow> str option \<Rightarrow> handle_op list" where
  "publish_ops pid status message = [InsertStatus pid status, SendEvent (StatusChanged pid status message)]"

fun event_ops :: "runtime_event \<Rightarrow> handle_op list" where
  "event_ops (StatusChanged pid status message) = publish_ops pid status message"
| "event_ops (BackendStarted pid codec_path backend) = [SendEvent (BackendStarted pid codec_path backend)]"

text \<open>The operations of one supervisor, for what its environment does.\<close>

definition fresh_inner :: runtime_inner where
  "fresh_inner = \<lparr> statuses = Map.empty, events = [], restarts = [], sleeps = [] \<rparr>"

definition task_ops :: "bool \<Rightarrow> compiled_pipeline \<times> cycle list \<Rightarrow> handle_op list" where
  "task_ops metrics run =
     concat (map event_ops (events (snd (supervise_pipeline_task (fst run) metrics 0 (snd run) fresh_inner))))"

section \<open>The engine\<close>

text \<open>
  \<open>start\<close> publishes and spawns, pipeline by pipeline; a task that was spawned runs at once. A task is
  named after its pipeline.
\<close>

datatype main_op = MainOp handle_op | SpawnTask str "handle_op list"

record engine =
  en_statuses :: "str \<rightharpoonup> task_status"
  en_events :: "runtime_event list"
  en_main :: "main_op list"
  en_tasks :: "(str \<times> handle_op list) list"

fun apply_op :: "handle_op \<Rightarrow> engine \<Rightarrow> engine" where
  "apply_op (InsertStatus pid status) s = s\<lparr> en_statuses := (en_statuses s)(pid \<mapsto> status) \<rparr>"
| "apply_op (SendEvent e) s = s\<lparr> en_events := en_events s @ [e] \<rparr>"

definition start_pipeline :: "bool \<Rightarrow> compiled_pipeline \<times> cycle list \<Rightarrow> main_op list" where
  "start_pipeline metrics run =
     map MainOp (publish_ops (cpl_id (fst run)) Spawning None) @
       [SpawnTask (cpl_id (fst run)) (task_ops metrics run)]"

definition engine_start :: "bool \<Rightarrow> (compiled_pipeline \<times> cycle list) list \<Rightarrow> engine" where
  "engine_start metrics runs =
     \<lparr> en_statuses = map_of (map (\<lambda>run. (cpl_id (fst run), Spawning)) runs), en_events = [],
       en_main = concat (map (start_pipeline metrics) runs), en_tasks = [] \<rparr>"

inductive engine_step :: "engine \<Rightarrow> engine \<Rightarrow> bool" where
  Publishes: "en_main s = MainOp a # rest \<Longrightarrow> engine_step s (apply_op a (s\<lparr> en_main := rest \<rparr>))"
| Spawns: "en_main s = SpawnTask pid as # rest \<Longrightarrow>
    engine_step s (s\<lparr> en_main := rest, en_tasks := en_tasks s @ [(pid, as)] \<rparr>)"
| Runs: "en_tasks s = us @ (pid, a # as) # vs \<Longrightarrow>
    engine_step s (apply_op a (s\<lparr> en_tasks := us @ (pid, as) # vs \<rparr>))"

text \<open>All tasks have ended, or wait for their environment.\<close>

definition settled :: "engine \<Rightarrow> bool" where
  "settled s \<longleftrightarrow> en_main s = [] \<and> list_all (\<lambda>(pid, as). as = []) (en_tasks s)"

end
