(* ===== verification/Caml_Engine_Correct.thy ===== *)
theory Caml_Engine_Correct
  imports Caml_Engine Caml_Runtime_Correct Caml_Compiler_Correct
begin

text \<open>
  The tasks of an engine do not disturb each other: however they are interleaved, each pipeline
  goes through the statuses and events it would go through alone.
\<close>

section \<open>What a supervisor does to any handle\<close>

fun status_upd :: "runtime_event \<Rightarrow> (str \<rightharpoonup> task_status) \<Rightarrow> (str \<rightharpoonup> task_status)" where
  "status_upd (StatusChanged pid s m) st = st(pid \<mapsto> s)"
| "status_upd (BackendStarted pid c b) st = st"

text \<open>From one handle to the other by these events.\<close>

definition moves :: "runtime_event list \<Rightarrow> runtime_inner \<Rightarrow> runtime_inner \<Rightarrow> bool" where
  "moves es h h' \<longleftrightarrow> events h' = events h @ es \<and> statuses h' = fold status_upd es (statuses h)"

lemma moves_publish: "moves es h h1 \<Longrightarrow> moves (es @ [StatusChanged pid s m]) h (publish_status pid s m h1)"
  by (simp add: moves_def)

lemma moves_announce: "moves (running_events p) h (announce_running p h)"
  by (simp add: moves_def running_events_def)

lemma moves_restart: "moves es h h1 \<Longrightarrow> moves (es @ restart_events p n m) h (note_restart p metrics n m h1)"
  by (simp add: moves_def restart_events_def)

lemma moves_sleeps: "moves es h (h1\<lparr> sleeps := x \<rparr>) \<longleftrightarrow> moves es h h1"
  by (simp add: moves_def)

lemma moves_trans: "moves es h h1 \<Longrightarrow> moves fs h1 h2 \<Longrightarrow> moves (es @ fs) h h2"
  by (simp add: moves_def)

lemma moves_refl: "moves [] h h"
  by (simp add: moves_def)

text \<open>The end of a supervisor and its events do not depend on the handle.\<close>

lemma supervise_moves:
  "\<exists>e es. \<forall>h. fst (supervise_pipeline_task p metrics attempts cs h) = e \<and>
     moves es h (snd (supervise_pipeline_task p metrics attempts cs h))"
proof (induction cs arbitrary: attempts)
  case Nil
  show ?case by (intro exI [of _ StillRunning] exI [of _ "[]"]) (simp add: moves_refl)
next
  case (Cons c cs)
  show ?case
  proof (cases rule: supervise_turn [where c = c and cs = cs and p = p and attempts = attempts])
    case (ends s m f)
    have "(\<forall>h. moves [] h (f h)) \<or> (\<forall>h. moves (running_events p) h (f h))"
      using ends(1) by (auto simp: moves_refl moves_announce)
    then obtain es where "moves es h (f h)" for h by blast
    from moves_publish [OF this] ends(2) show ?thesis
      by (intro exI [of _ Finished] exI [of _ "es @ [StatusChanged (cpl_id p) s m]"])
        (simp del: supervise_pipeline_task.simps)
  next
    case (panics f)
    then consider "f = id" | "f = announce_running p" by blast
    then show ?thesis
    proof cases
      case 1
      with panics(3) show ?thesis
        by (intro exI [of _ Panicked] exI [of _ "[]"]) (simp add: moves_refl del: supervise_pipeline_task.simps)
    next
      case 2
      with panics(3) show ?thesis
        by (intro exI [of _ Panicked] exI [of _ "running_events p"]) (simp add: moves_announce del: supervise_pipeline_task.simps)
    qed
  next
    case (restart message)
    define n where "n = counted p c attempts + 1"
    let ?es = "running_events p @ restart_events p n message"
    let ?h2 = "\<lambda>h. note_restart p metrics n message (announce_running p h)"
    have h2: "moves ?es h (?h2 h)" for h by (rule moves_restart [OF moves_announce])
    note sup = supervise_restart [OF restart, of metrics cs, folded n_def, unfolded Let_def]
    show ?thesis
    proof (cases "backoff (cpl_recovery p) n")
      case None
      with sup h2 show ?thesis by (intro exI [of _ Panicked] exI [of _ ?es]) simp
    next
      case (Some d)
      obtain e es where ih: "fst (supervise_pipeline_task p metrics n cs h) = e"
        "moves es h (snd (supervise_pipeline_task p metrics n cs h))" for h
        using Cons.IH [of n] by blast
      let ?h3 = "\<lambda>h. (?h2 h)\<lparr> sleeps := sleeps (?h2 h) @ [d] \<rparr>"
      have "moves (?es @ es) h (snd (supervise_pipeline_task p metrics n cs (?h3 h)))" for h
        by (rule moves_trans [OF _ ih(2)]) (simp only: moves_sleeps h2)
      with sup Some ih(1) moves_publish [OF h2] show ?thesis
        by (cases "cy_cancelled_in_backoff c")
          (auto intro: exI [of _ Finished] exI [of _ "?es @ [StatusChanged (cpl_id p) Stopped None]"]
            exI [of _ e] exI [of _ "?es @ es"])
    qed
  qed
qed

definition task_events :: "bool \<Rightarrow> compiled_pipeline \<times> cycle list \<Rightarrow> runtime_event list" where
  "task_events metrics run = events (snd (supervise_pipeline_task (fst run) metrics 0 (snd run) fresh_inner))"

lemma supervise_task_events:
  "moves (task_events metrics (p, cs)) h (snd (supervise_pipeline_task p metrics 0 cs h))"
proof -
  obtain e es where m: "moves es h (snd (supervise_pipeline_task p metrics 0 cs h))" for h
    using supervise_moves [of p metrics 0 cs] by blast
  from m [of fresh_inner] have "task_events metrics (p, cs) = es"
    by (simp add: task_events_def moves_def fresh_inner_def)
  with m show ?thesis by simp
qed

lemma task_events_own: "list_all (\<lambda>e. event_pid e = cpl_id (fst run)) (task_events metrics run)"
  using supervise_only_of [of "fst run" fresh_inner metrics 0 "snd run"]
  by (auto simp: only_of_def task_events_def fresh_inner_def)

section \<open>Interleaving\<close>

definition proj :: "str \<Rightarrow> handle_op list \<Rightarrow> handle_op list" where
  "proj pid as = filter (\<lambda>a. op_pid a = pid) as"

lemma proj_simps [simp]:
  "proj pid [] = []" "proj pid (a # as) = (if op_pid a = pid then a # proj pid as else proj pid as)"
  "proj pid (as @ bs) = proj pid as @ proj pid bs"
  by (simp_all add: proj_def)

fun main_proj :: "str \<Rightarrow> main_op \<Rightarrow> handle_op list" where
  "main_proj pid (MainOp a) = proj pid [a]"
| "main_proj pid (SpawnTask q as) = proj pid as"

text \<open>What is still to be done for one pipeline, in order.\<close>

definition pending :: "str \<Rightarrow> engine \<Rightarrow> handle_op list" where
  "pending pid s = concat (map (\<lambda>t. proj pid (snd t)) (en_tasks s)) @ concat (map (main_proj pid) (en_main s))"

text \<open>A task only touches its own pipeline, and nobody else touches that pipeline after it was spawned.\<close>

definition own_ops :: "str \<Rightarrow> handle_op list \<Rightarrow> bool" where
  "own_ops q as \<longleftrightarrow> (\<forall>a \<in> set as. op_pid a = q)"

fun main_pids :: "main_op list \<Rightarrow> str set" where
  "main_pids [] = {}"
| "main_pids (MainOp a # rest) = insert (op_pid a) (main_pids rest)"
| "main_pids (SpawnTask q as # rest) = insert q (main_pids rest)"

fun main_ok :: "main_op list \<Rightarrow> bool" where
  "main_ok [] = True"
| "main_ok (MainOp a # rest) = main_ok rest"
| "main_ok (SpawnTask q as # rest) = (own_ops q as \<and> q \<notin> main_pids rest \<and> main_ok rest)"

definition owned :: "engine \<Rightarrow> bool" where
  "owned s \<longleftrightarrow> distinct (map fst (en_tasks s)) \<and> fst ` set (en_tasks s) \<inter> main_pids (en_main s) = {} \<and>
     (\<forall>(q, as) \<in> set (en_tasks s). own_ops q as) \<and> main_ok (en_main s)"

lemma proj_own: "own_ops q as \<Longrightarrow> proj pid as = (if pid = q then as else [])"
  by (auto simp: own_ops_def proj_def filter_id_conv filter_empty_conv)

lemma proj_other_tasks:
  "pid \<notin> fst ` set ts \<Longrightarrow> \<forall>(q, as) \<in> set ts. own_ops q as \<Longrightarrow> concat (map (\<lambda>t. proj pid (snd t)) ts) = []"
  by (fastforce simp: proj_own image_iff)

fun op_upd :: "handle_op \<Rightarrow> (str \<rightharpoonup> task_status) \<Rightarrow> (str \<rightharpoonup> task_status)" where
  "op_upd (InsertStatus pid s) st = st(pid \<mapsto> s)"
| "op_upd (SendEvent e) st = st"

fun op_sent :: "handle_op \<Rightarrow> runtime_event list" where
  "op_sent (InsertStatus pid s) = []"
| "op_sent (SendEvent e) = [e]"

lemma apply_op_simps [simp]:
  "en_statuses (apply_op a s) = op_upd a (en_statuses s)" "en_events (apply_op a s) = en_events s @ op_sent a"
  "en_main (apply_op a s) = en_main s" "en_tasks (apply_op a s) = en_tasks s"
  by (cases a; simp)+

lemma pending_apply [simp]: "pending pid (apply_op a s) = pending pid s"
  by (simp add: pending_def)

lemma owned_apply [simp]: "owned (apply_op a s) = owned s"
  by (simp add: owned_def)

text \<open>The operations that were carried out, in order.\<close>

definition explained :: "engine \<Rightarrow> engine \<Rightarrow> handle_op list \<Rightarrow> bool" where
  "explained s0 s did \<longleftrightarrow> en_statuses s = fold op_upd did (en_statuses s0) \<and>
     en_events s = en_events s0 @ concat (map op_sent did) \<and>
     (\<forall>pid. proj pid did @ pending pid s = pending pid s0) \<and> owned s"

lemma explained_apply:
  assumes "explained s0 s did" "en_statuses s = en_statuses s'" "en_events s = en_events s'"
    "\<And>pid. pending pid s = proj pid [a] @ pending pid s'" "owned s'"
  shows "explained s0 (apply_op a s') (did @ [a])"
  unfolding explained_def
proof (intro conjI allI)
  show "proj pid (did @ [a]) @ pending pid (apply_op a s') = pending pid s0" for pid
    using assms(1,4) unfolding explained_def pending_apply proj_simps(3) append_assoc by metis
qed (use assms in \<open>simp_all add: explained_def\<close>)

lemma explained_step:
  assumes "engine_step s s'" "explained s0 s did"
  shows "\<exists>did'. explained s0 s' did'"
  using assms
proof (induction rule: engine_step.induct)
  case (Publishes s a rest)
  then have o: "op_pid a \<notin> fst ` set (en_tasks s)" "\<forall>(q, as) \<in> set (en_tasks s). own_ops q as" "owned (s\<lparr> en_main := rest \<rparr>)"
    by (auto simp: explained_def owned_def)
  have "pending pid s = proj pid [a] @ pending pid (s\<lparr> en_main := rest \<rparr>)" for pid
    using Publishes(1) proj_other_tasks [OF o(1,2)]
    by (cases "op_pid a = pid") (simp_all add: pending_def del: concat_eq_Nil_conv)
  then have "explained s0 (apply_op a (s\<lparr> en_main := rest \<rparr>)) (did @ [a])"
    by (intro explained_apply [OF Publishes(2)] o(3)) simp_all
  then show ?case ..
next
  case (Spawns s pid as rest)
  then show ?case
    by (intro exI [of _ did]) (auto simp: explained_def owned_def pending_def)
next
  case (Runs s us pid a as vs)
  let ?s = "s\<lparr> en_tasks := us @ (pid, as) # vs \<rparr>"
  from Runs have o: "own_ops pid (a # as)" "\<forall>(q, as) \<in> set us. own_ops q as" "pid \<notin> fst ` set us" "owned ?s"
    by (auto simp: explained_def owned_def own_ops_def)
  have "op_pid a = pid" using o(1) by (simp add: own_ops_def)
  then have "pending q s = proj q [a] @ pending q ?s" for q
    using Runs(1) proj_other_tasks [OF o(3,2)]
    by (cases "pid = q") (simp_all add: pending_def del: concat_eq_Nil_conv)
  then have "explained s0 (apply_op a ?s) (did @ [a])"
    by (intro explained_apply [OF Runs(2)] o(4)) simp_all
  then show ?case ..
qed

lemma explained_reachable:
  assumes "engine_step\<^sup>*\<^sup>* s0 s" "owned s0"
  shows "\<exists>did. explained s0 s did"
  using assms(1)
proof (induction rule: rtranclp_induct)
  case base
  show ?case using assms(2) by (intro exI [of _ "[]"]) (simp add: explained_def)
next
  case (step s s')
  then show ?case using explained_step by blast
qed

section \<open>One pipeline of a running engine\<close>

lemma sent_proj:
  "filter (\<lambda>e. event_pid e = pid) (concat (map op_sent as)) = concat (map op_sent (proj pid as))"
proof (induction as)
  case (Cons a as)
  then show ?case by (cases a) simp_all
qed simp

lemma upd_proj:
  "st pid = st' pid \<Longrightarrow> fold op_upd as st pid = fold op_upd (proj pid as) st' pid"
proof (induction as arbitrary: st st')
  case (Cons a as)
  show ?case by (cases a) (auto intro!: Cons.IH simp: Cons.prems)
qed simp

lemma event_ops_simps [simp]:
  "concat (map op_sent (event_ops e)) = [e]" "fold op_upd (event_ops e) st = status_upd e st"
  "a \<in> set (event_ops e) \<Longrightarrow> op_pid a = event_pid e"
  by (cases e; auto simp: publish_ops_def)+

lemma events_ops:
  "concat (map op_sent (concat (map event_ops es))) = es"
  "fold op_upd (concat (map event_ops es)) st = fold status_upd es st"
  by (induction es arbitrary: st) simp_all

lemma task_ops_eq: "task_ops metrics run = concat (map event_ops (task_events metrics run))"
  by (simp add: task_ops_def task_events_def)

lemma task_ops_own: "own_ops (cpl_id (fst run)) (task_ops metrics run)"
  using task_events_own [of run metrics] by (auto simp: own_ops_def task_ops_eq list_all_iff)

text \<open>A pipeline started and supervised with nothing else around.\<close>

definition alone :: "bool \<Rightarrow> compiled_pipeline \<times> cycle list \<Rightarrow> task_end \<times> runtime_inner" where
  "alone metrics run = supervise_pipeline_task (fst run) metrics 0 (snd run)
     (publish_status (cpl_id (fst run)) Spawning None
       (fresh_inner\<lparr> statuses := [cpl_id (fst run) \<mapsto> Spawning] \<rparr>))"

definition all_ops :: "bool \<Rightarrow> compiled_pipeline \<times> cycle list \<Rightarrow> handle_op list" where
  "all_ops metrics run = publish_ops (cpl_id (fst run)) Spawning None @ task_ops metrics run"

lemma alone_ops:
  "events (snd (alone metrics run)) = concat (map op_sent (all_ops metrics run))"
  "statuses (snd (alone metrics run)) = fold op_upd (all_ops metrics run) [cpl_id (fst run) \<mapsto> Spawning]"
  using supervise_task_events [of metrics "fst run" "snd run"
      "publish_status (cpl_id (fst run)) Spawning None
       (fresh_inner\<lparr> statuses := [cpl_id (fst run) \<mapsto> Spawning] \<rparr>)"]
  by (simp_all add: alone_def all_ops_def moves_def task_ops_eq events_ops publish_ops_def fresh_inner_def)

lemma main_pids_start: "main_pids (start_pipeline metrics run @ rest) = insert (cpl_id (fst run)) (main_pids rest)"
  by (simp add: start_pipeline_def publish_ops_def)

lemma main_pids_starts:
  "main_pids (concat (map (start_pipeline metrics) runs)) = (\<lambda>run. cpl_id (fst run)) ` set runs"
  by (induction runs) (simp_all add: main_pids_start)

lemma main_ok_starts:
  "distinct (map (\<lambda>run. cpl_id (fst run)) runs) \<Longrightarrow> main_ok (concat (map (start_pipeline metrics) runs))"
proof (induction runs)
  case (Cons run runs)
  then show ?case
    by (simp add: start_pipeline_def [of metrics run] publish_ops_def main_pids_starts task_ops_own)
qed simp

lemma owned_start: "distinct (map (\<lambda>run. cpl_id (fst run)) runs) \<Longrightarrow> owned (engine_start metrics runs)"
  by (simp add: owned_def engine_start_def main_ok_starts)

lemma main_proj_start:
  "concat (map (main_proj pid) (start_pipeline metrics run)) =
     (if cpl_id (fst run) = pid then all_ops metrics run else [])"
  using proj_own [OF task_ops_own [of run metrics], of pid]
  by (simp add: start_pipeline_def publish_ops_def all_ops_def)

lemma pending_start:
  assumes "distinct (map (\<lambda>run. cpl_id (fst run)) runs)" "run \<in> set runs"
  shows "pending (cpl_id (fst run)) (engine_start metrics runs) = all_ops metrics run"
proof -
  have none: "concat (map (main_proj pid) (concat (map (start_pipeline metrics) rs))) = []"
    if "pid \<notin> (\<lambda>run. cpl_id (fst run)) ` set rs" for pid rs
    using that by (induction rs) (auto simp add: main_proj_start simp del: concat_eq_Nil_conv)
  have "concat (map (main_proj (cpl_id (fst run))) (concat (map (start_pipeline metrics) runs))) = all_ops metrics run"
    using assms
  proof (induction runs)
    case (Cons r rs)
    show ?case
    proof (cases "run = r")
      case True
      with Cons.prems none [of "cpl_id (fst run)" rs] show ?thesis
        by (simp add: main_proj_start del: concat_eq_Nil_conv)
    next
      case False
      with Cons.prems have "run \<in> set rs" "cpl_id (fst r) \<noteq> cpl_id (fst run)" by force+
      with Cons show ?thesis by (simp add: main_proj_start del: concat_eq_Nil_conv)
    qed
  qed simp
  then show ?thesis by (simp add: pending_def engine_start_def del: concat_eq_Nil_conv)
qed

lemma settled_pending: "settled s \<Longrightarrow> pending pid s = []"
  by (auto simp: settled_def pending_def list_all_iff)

lemma start_status:
  "run \<in> set runs \<Longrightarrow> en_statuses (engine_start metrics runs) (cpl_id (fst run)) = Some Spawning"
  by (induction runs) (auto simp: engine_start_def)

lemma engine_isolation:
  assumes "engine_step\<^sup>*\<^sup>* (engine_start metrics runs) s"
    and d: "distinct (map (\<lambda>run. cpl_id (fst run)) runs)" and run: "run \<in> set runs"
  defines "pid \<equiv> cpl_id (fst run)"
  shows "\<exists>rest. filter (\<lambda>e. event_pid e = pid) (en_events s) @ rest = events (snd (alone metrics run)) \<and>
    (settled s \<longrightarrow> rest = [] \<and> en_statuses s pid = statuses (snd (alone metrics run)) pid)"
proof -
  obtain did where did: "explained (engine_start metrics runs) s did"
    using explained_reachable [OF assms(1) owned_start [OF d]] by blast
  then have split: "proj pid did @ pending pid s = all_ops metrics run"
    using pending_start [OF d run] by (simp add: explained_def pid_def)
  have es: "filter (\<lambda>e. event_pid e = pid) (en_events s) = concat (map op_sent (proj pid did))"
    using did by (simp add: explained_def sent_proj engine_start_def)
  have "en_statuses (engine_start metrics runs) pid = [pid \<mapsto> Spawning] pid"
    using start_status [OF run] by (simp add: pid_def)
  from upd_proj [where pid = pid, of "en_statuses (engine_start metrics runs)" "[pid \<mapsto> Spawning]", OF this] did have st: "en_statuses s pid = fold op_upd (proj pid did) [pid \<mapsto> Spawning] pid"
    by (simp add: explained_def)
  show ?thesis
  proof (intro exI conjI impI)
    show "filter (\<lambda>e. event_pid e = pid) (en_events s) @ concat (map op_sent (pending pid s)) =
        events (snd (alone metrics run))"
      by (simp add: es alone_ops flip: split)
    assume "settled s"
    then have p: "pending pid s = []" by (rule settled_pending)
    then show "concat (map op_sent (pending pid s)) = []" by simp
    show "en_statuses s pid = statuses (snd (alone metrics run)) pid"
      using split p unfolding st alone_ops by (simp add: pid_def)
  qed
qed

section \<open>The engine always settles\<close>

definition todo :: "engine \<Rightarrow> nat" where
  "todo s = sum_list (map (\<lambda>x. case x of MainOp a \<Rightarrow> 1 | SpawnTask q as \<Rightarrow> Suc (length as)) (en_main s)) +
     sum_list (map (\<lambda>t. length (snd t)) (en_tasks s))"

lemma todo_apply [simp]: "todo (apply_op a s) = todo s"
  by (simp add: todo_def)

lemma todo_step: "engine_step s s' \<Longrightarrow> todo s' < todo s"
  by (induction rule: engine_step.induct) (simp_all, simp_all add: todo_def)

lemma settled_stuck: "settled s \<longleftrightarrow> (\<nexists>s'. engine_step s s')"
proof
  assume "settled s"
  then show "\<nexists>s'. engine_step s s'" by (auto simp: settled_def elim!: engine_step.cases)
next
  assume stuck: "\<nexists>s'. engine_step s s'"
  show "settled s"
  proof (cases "en_main s")
    case (Cons x rest)
    then show ?thesis using stuck by (cases x) (auto dest: Publishes Spawns)
  next
    case Nil
    have "as = []" if "(q, as) \<in> set (en_tasks s)" for q as
    proof (rule ccontr)
      assume "as \<noteq> []"
      then obtain a bs where "as = a # bs" by (cases as) auto
      moreover from that obtain us vs where "en_tasks s = us @ (q, as) # vs" by (meson split_list)
      ultimately show False using stuck Runs by blast
    qed
    with Nil show ?thesis by (auto simp: settled_def list_all_iff)
  qed
qed

lemma settles: "\<exists>s'. engine_step\<^sup>*\<^sup>* s s' \<and> settled s'"
proof (induction "todo s" arbitrary: s rule: less_induct)
  case less
  show ?case
  proof (cases "settled s")
    case False
    then obtain s1 where "engine_step s s1" by (auto simp: settled_stuck)
    with less [OF todo_step] show ?thesis by (meson converse_rtranclp_into_rtranclp)
  qed blast
qed

section \<open>A compiled graph in the engine\<close>

lemma alone_ends:
  "statuses (snd (alone metrics run)) (cpl_id (fst run)) \<in>
     (if fst (alone metrics run) = Finished then {Some Stopped, Some Failed}
      else {Some Spawning, Some Running, Some Recovering})"
proof -
  obtain e h where r: "alone metrics run = (e, h)" by fastforce
  have "run_ok Spawning (cpl_id (fst run)) (publish_status (cpl_id (fst run)) Spawning None
       (fresh_inner\<lparr> statuses := [cpl_id (fst run) \<mapsto> Spawning] \<rparr>)) e h"
    using r unfolding alone_def by (intro supervise_run_ok) (simp_all add: fresh_inner_def)
  then show ?thesis by (auto simp: run_ok_def r)
qed

lemma compiled_recovery:
  assumes "compile_internal m capabilities vars = Inr g" "c \<in> set (cg_pipelines g)"
  shows "\<exists>cls. cpl_recovery c = recovery_policy_of cls"
proof -
  from compiled_valid_source [OF assms] obtain p where "compile_pipeline vars p = Inr c" .
  then have "cpl_recovery c = recovery_policy_of (recovery_class_for p)"
    by (simp add: compile_pipeline_fields recovery_policy_for_def)
  then show ?thesis ..
qed

lemma untouched_status:
  assumes "engine_step\<^sup>*\<^sup>* (engine_start metrics runs) s"
    and d: "distinct (map (\<lambda>run. cpl_id (fst run)) runs)" and q: "q \<notin> (\<lambda>run. cpl_id (fst run)) ` set runs"
  shows "en_statuses s q = None"
proof -
  obtain did where did: "explained (engine_start metrics runs) s did"
    using explained_reachable [OF assms(1) owned_start [OF d]] by blast
  have "concat (map (main_proj q) (concat (map (start_pipeline metrics) runs))) = []"
    using q by (induction runs) (auto simp add: main_proj_start simp del: concat_eq_Nil_conv)
  then have "pending q (engine_start metrics runs) = []"
    by (simp add: pending_def engine_start_def del: concat_eq_Nil_conv)
  with did have "proj q did = []" unfolding explained_def by (metis append_is_Nil_conv)
  moreover have "en_statuses (engine_start metrics runs) q = None"
    using q by (induction runs) (auto simp: engine_start_def)
  ultimately show ?thesis
    using did upd_proj [where pid = q and as = did, of "en_statuses (engine_start metrics runs)" "Map.empty"]
    by (simp add: explained_def)
qed

lemma shutdown_iff: "shutdown join_error i es = Inr () \<longleftrightarrow> list_all (\<lambda>e. e \<noteq> Panicked) es"
  by (induction es arbitrary: i) auto

lemma compiled_runs:
  assumes "compile_internal m capabilities vars = Inr g" "map fst runs = cg_pipelines g"
  shows "distinct (map (\<lambda>run. cpl_id (fst run)) runs)"
    "(\<lambda>run. cpl_id (fst run)) ` set runs = pn_id ` set (cm_pipelines m)"
proof -
  have ids: "map (\<lambda>run. cpl_id (fst run)) runs = map cpl_id (cg_pipelines g)"
    by (simp flip: assms(2))
  with compiled_ids_unique [OF assms(1)] show "distinct (map (\<lambda>run. cpl_id (fst run)) runs)" by metis
  have "set (map (\<lambda>run. cpl_id (fst run)) runs) = set (map pn_id (cm_pipelines m))"
    using ids compiled_ids_unique [OF assms(1)] by simp
  then show "(\<lambda>run. cpl_id (fst run)) ` set runs = pn_id ` set (cm_pipelines m)" by simp
qed

text \<open>
  C16: the pipelines of a compiled graph do not disturb each other: however the engine, which is still
  starting some, and the tasks it has spawned are interleaved, the events about one pipeline are
  at any time the first ones of those it would have alone, and once nothing is left to do they are all of
  them, and its status is the one it would have alone; from every state, all can still be done.
\<close>

theorem engine_isolates_pipelines:
  assumes "compile_internal m capabilities vars = Inr g" "map fst runs = cg_pipelines g"
    and "engine_step\<^sup>*\<^sup>* (engine_start metrics runs) s" "run \<in> set runs"
  shows "(\<exists>rest. filter (\<lambda>e. event_pid e = cpl_id (fst run)) (en_events s) @ rest = events (snd (alone metrics run)) \<and>
      (settled s \<longrightarrow> rest = [] \<and>
         en_statuses s (cpl_id (fst run)) = statuses (snd (alone metrics run)) (cpl_id (fst run)))) \<and>
    (\<exists>s'. engine_step\<^sup>*\<^sup>* s s' \<and> settled s')"
  using engine_isolation [OF assms(3) compiled_runs(1) [OF assms(1,2)] assms(4)] settles by blast

text \<open>Two devices that are cancelled before they run.\<close>

definition cancelled_cycle :: cycle where
  "cancelled_cycle = failing_cycle\<lparr> cy_cancelled := True \<rparr>"

lemma cancelled_alone:
  "alone metrics (p, [cancelled_cycle]) =
     (Finished, \<lparr> statuses = [cpl_id p \<mapsto> Stopped],
        events = [StatusChanged (cpl_id p) Spawning None, StatusChanged (cpl_id p) Stopped None],
        restarts = [], sleeps = [] \<rparr>)"
  by (simp add: alone_def cancelled_cycle_def fresh_inner_def publish_status_def send_event_def)

lemma two_devices:
  obtains g where "compile_internal (example_manifest [example_device ''a'', example_device ''b'']) None Map.empty = Inr g"
    "map cpl_id (cg_pipelines g) = [''a'', ''b'']"
proof -
  obtain g where g: "compile_internal (example_manifest [example_device ''a'', example_device ''b''])
      None Map.empty = Inr g"
    using example_compiles by blast
  have "map pn_id (cm_pipelines (example_manifest [example_device ''a'', example_device ''b''])) = [''a'', ''b'']"
    by (simp add: example_manifest_def example_device_id)
  with compiled_ids_unique [OF g, THEN conjunct1] that [OF g] show ?thesis by simp
qed

theorem engine_isolates_pipelines_witness:
  "\<exists>g s. compile_internal (example_manifest [example_device ''a'', example_device ''b'']) None Map.empty = Inr g \<and>
     engine_step\<^sup>*\<^sup>* (engine_start False (map (\<lambda>p. (p, [cancelled_cycle])) (cg_pipelines g))) s \<and> settled s \<and>
     filter (\<lambda>e. event_pid e = ''b'') (en_events s) = [StatusChanged ''b'' Spawning None, StatusChanged ''b'' Stopped None]"
proof -
  obtain g where g: "compile_internal (example_manifest [example_device ''a'', example_device ''b'']) None Map.empty = Inr g"
    "map cpl_id (cg_pipelines g) = [''a'', ''b'']" by (rule two_devices)
  then have "\<exists>b \<in> set (cg_pipelines g). cpl_id b = ''b''" by auto
  then obtain b where b: "b \<in> set (cg_pipelines g)" "cpl_id b = ''b''" by blast
  let ?runs = "map (\<lambda>p. (p, [cancelled_cycle])) (cg_pipelines g)"
  obtain s where s: "engine_step\<^sup>*\<^sup>* (engine_start False ?runs) s" "settled s" using settles by blast
  have m: "map fst ?runs = cg_pipelines g" by (simp add: comp_def)
  have "(b, [cancelled_cycle]) \<in> set ?runs" using b by simp
  from engine_isolates_pipelines [OF g(1) m s(1) this] s(2) b(2)
  have "filter (\<lambda>e. event_pid e = ''b'') (en_events s) = [StatusChanged ''b'' Spawning None, StatusChanged ''b'' Stopped None]"
    by (auto simp: cancelled_alone)
  with g(1) s show ?thesis by (intro exI [of _ g] exI [of _ s] conjI)
qed

lemma alone_panics:
  assumes "cpl_recovery (fst run) = recovery_policy_of cls" "fst (alone metrics run) = Panicked"
  shows "list_ex cycle_panics (snd run)"
proof -
  obtain e h where r: "alone metrics run = (e, h)" by fastforce
  from supervise_compiled [OF assms(1) _ r [unfolded alone_def]] assms(2) show ?thesis by (simp add: r)
qed


text \<open>A device that is cancelled before it runs, and one whose factory panics.\<close>

definition panicking_cycle :: cycle where
  "panicking_cycle = failing_cycle\<lparr> cy_build := None \<rparr>"

lemma panicking_alone:
  "alone metrics (p, [panicking_cycle]) =
     (Panicked, \<lparr> statuses = [cpl_id p \<mapsto> Spawning], events = [StatusChanged (cpl_id p) Spawning None],
        restarts = [], sleeps = [] \<rparr>)"
  by (simp add: alone_def panicking_cycle_def failing_cycle_def fresh_inner_def publish_status_def send_event_def)


end
