(* ===== verification/Caml_Metrics.thy ===== *)
theory Caml_Metrics
  imports Caml_Adapters Caml_Source Caml_Camera Caml_Runtime_Correct
begin

text \<open>
  \<^verbatim>\<open>crates/caml-core/src/metrics.rs\<close>: the exporter that a runtime may be given, and the calls of it that
  the runtime, the sources and the WebRTC sink make. The rest of the model only has the flag whether
  there is an exporter; here are the calls themselves, and that they change nothing else.
\<close>

section \<open>The exporter\<close>

datatype copy_event =
    FfmpegPacketToPooledBuffer
  | LibcameraFrameToPooledBuffer
  | WebRtcPacketizerCopy

text \<open>One constructor per method of \<open>MetricsExporter\<close>.\<close>

datatype metric_call =
    RecordRestart str str
  | RecordBackpressureDrop str
  | RecordMemoryWatermark str nat
  | RecordThroughput str nat
  | RecordStreamError str str
  | RecordCopyEvent str copy_event nat

type_synonym 'm exporter = "metric_call \<Rightarrow> 'm \<Rightarrow> 'm"

definition noop_exporter :: "'m exporter" where
  "noop_exporter call m = m"

section \<open>The calls\<close>

text \<open>Those of the pipeline loop are among its effects, the watermark of the pool comes after them.\<close>

fun effect_calls :: "effect \<Rightarrow> metric_call list" where
  "effect_calls (Throughput pid bytes) = [RecordThroughput pid bytes]"
| "effect_calls (StreamError pid error) = [RecordStreamError pid error]"
| "effect_calls (Transformed i payload) = []"
| "effect_calls (Consumed payload) = []"

definition once_calls :: "effect list \<times> (str \<times> nat) option \<Rightarrow> metric_call list" where
  "once_calls run = concat (map effect_calls (fst run)) @
     (case snd run of None \<Rightarrow> [] | Some (pid, bytes) \<Rightarrow> [RecordMemoryWatermark pid bytes])"

definition restart_calls :: "runtime_inner \<Rightarrow> metric_call list" where
  "restart_calls h = map (\<lambda>(pid, reason). RecordRestart pid reason) (restarts h)"

text \<open>What a write handle shows of its bytes.\<close>

definition write_slice :: "store \<Rightarrow> media_buffer \<Rightarrow> u8 list" where
  "write_slice st buf = vec_data (heap st) (mb_bytes buf)"

definition write_len :: "store \<Rightarrow> media_buffer \<Rightarrow> nat" where
  "write_len st buf = length (write_slice st buf)"

definition write_is_empty :: "store \<Rightarrow> media_buffer \<Rightarrow> bool" where
  "write_is_empty st buf \<longleftrightarrow> write_slice st buf = []"

text \<open>A source tells of a packet before it copies it, the camera of a frame that was copied.\<close>

definition ffmpeg_source_calls :: "bool \<Rightarrow> str \<Rightarrow> worker_message option \<Rightarrow> metric_call list" where
  "ffmpeg_source_calls metrics pid message =
     (case message of
        Some (PacketMessage p) \<Rightarrow>
          if metrics then [RecordCopyEvent pid FfmpegPacketToPooledBuffer (length (wp_data p))] else []
      | _ \<Rightarrow> [])"

definition camera_source_calls :: "store \<Rightarrow> bool \<Rightarrow> str \<Rightarrow> frame_message option \<Rightarrow> metric_call list" where
  "camera_source_calls st metrics pid message =
     (case message of
        Some m \<Rightarrow> if metrics then [RecordCopyEvent pid LibcameraFrameToPooledBuffer (write_len st (fm_data m))] else []
      | None \<Rightarrow> [])"

definition record_backpressure_drop :: "bool \<Rightarrow> webrtc_sink \<Rightarrow> metric_call list" where
  "record_backpressure_drop metrics sink =
     (if metrics then [RecordBackpressureDrop (ws_pipeline_id sink)] else [])"

fun enqueue_calls :: "bool \<Rightarrow> webrtc_sink \<Rightarrow> enqueue_outcome \<Rightarrow> metric_call list" where
  "enqueue_calls metrics sink (Evicted dropped) = record_backpressure_drop metrics sink"
| "enqueue_calls metrics sink Refused = record_backpressure_drop metrics sink"
| "enqueue_calls metrics sink _ = []"

definition process_calls :: "bool \<Rightarrow> webrtc_sender_config \<Rightarrow> encoded_packet \<Rightarrow> u8 list \<Rightarrow> metric_call list" where
  "process_calls metrics config packet bytes =
     (if eq_ignore_ascii_case (ep_codec packet) (sc_codec config) \<and> metrics
      then [RecordCopyEvent (sc_pipeline_id config) WebRtcPacketizerCopy (length bytes)] else [])"

section \<open>They change nothing else\<close>

lemma noop_exports [simp]: "fold noop_exporter calls m = m"
  by (induction calls) (simp_all add: noop_exporter_def)

definition is_metric :: "effect \<Rightarrow> bool" where
  "is_metric e \<longleftrightarrow> effect_calls e \<noteq> []"

definition unmeasured :: "effect list \<Rightarrow> effect list" where
  "unmeasured effects = filter (\<lambda>e. \<not> is_metric e) effects"

lemma unmeasured_simps [simp]:
  "unmeasured [] = []" "unmeasured (es @ fs) = unmeasured es @ unmeasured fs"
  "unmeasured (e # es) = (if is_metric e then unmeasured es else e # unmeasured es)"
  "\<not> is_metric (Transformed i payload)" "\<not> is_metric (Consumed payload)"
  "is_metric (Throughput pid bytes)" "is_metric (StreamError pid error)"
  by (simp_all add: unmeasured_def is_metric_def)

lemma unmeasured_calls: "concat (map effect_calls (unmeasured es)) = []"
  by (simp add: unmeasured_def is_metric_def)

lemma unmeasured_transforms: "apply_transforms i ts payload = (r, es) \<Longrightarrow> unmeasured es = es"
  by (induction ts arbitrary: i payload r es) (auto split: sum.splits prod.splits)

lemma loop_turn_metrics:
  "fst (loop_turn p True t) = fst (loop_turn p False t) \<and>
   unmeasured (snd (loop_turn p True t)) = snd (loop_turn p False t)"
  by (auto simp: loop_turn_def stream_error_def Let_def unmeasured_transforms
      split: select_outcome.split sum.split prod.split option.split)

lemma loop_metrics:
  "fst (run_pipeline_loop p True ts) = fst (run_pipeline_loop p False ts) \<and>
   unmeasured (snd (run_pipeline_loop p True ts)) = snd (run_pipeline_loop p False ts)"
proof (induction ts)
  case (Cons t ts)
  obtain r es fs where t: "loop_turn p True t = (r, es)" "loop_turn p False t = (r, fs)" "unmeasured es = fs"
    using loop_turn_metrics [of p t] by (metis prod.collapse)
  show ?case using Cons t by (cases r) (auto split: prod.split)
qed simp

lemma supervise_metrics:
  "supervise_pipeline_task p False attempts cs (h\<lparr> restarts := rs \<rparr>) =
     (case supervise_pipeline_task p True attempts cs h of (e, h') \<Rightarrow> (e, h'\<lparr> restarts := rs \<rparr>))"
proof (induction cs arbitrary: attempts h)
  case (Cons c cs)
  have pub: "publish_status pid s m (h\<lparr> restarts := rs \<rparr>) = (publish_status pid s m h)\<lparr> restarts := rs \<rparr>" for pid s m h
    by (simp add: publish_status_def send_event_def)
  have ann: "announce_running p (h\<lparr> restarts := rs \<rparr>) = (announce_running p h)\<lparr> restarts := rs \<rparr>" for h
    by (simp add: announce_running_def pub send_event_def)
  have note_r: "note_restart p False n m (h\<lparr> restarts := rs \<rparr>) = (note_restart p True n m h)\<lparr> restarts := rs \<rparr>" for n m h
    by (simp add: note_restart_def pub Let_def)
  have swap: "h\<lparr> restarts := rs, sleeps := x \<rparr> = h\<lparr> sleeps := x, restarts := rs \<rparr>" for h :: runtime_inner and x
    by (cases h) simp
  show ?case
  proof (cases rule: supervise_turn [where c = c and cs = cs and p = p and attempts = attempts])
    case (ends s m f)
    then show ?thesis by (auto simp: ann pub simp del: supervise_pipeline_task.simps)
  next
    case (panics f)
    then show ?thesis by (auto simp: ann simp del: supervise_pipeline_task.simps)
  next
    case (restart m)
    note r = supervise_restart [OF restart, unfolded Let_def]
    have "supervise_pipeline_task p False n cs ((note_restart p True n m (announce_running p h))\<lparr> restarts := rs, sleeps := x \<rparr>) =
        (case supervise_pipeline_task p True n cs ((note_restart p True n m (announce_running p h))\<lparr> sleeps := x \<rparr>) of
           (e, h') \<Rightarrow> (e, h'\<lparr> restarts := rs \<rparr>))" for n x
      using Cons.IH [of n "(note_restart p True n m (announce_running p h))\<lparr> sleeps := x \<rparr>"]
      by (simp only: swap)
    then show ?thesis
      by (simp add: r ann note_r pub del: supervise_pipeline_task.simps split: option.split)
  qed
qed simp

text \<open>
  A pipeline runs with an exporter as it does without: the loop ends the same way after the same
  transforms and deliveries, the supervisor ends the same way after the same statuses, events and
  waits, and the calls are what is left.
\<close>

theorem metrics_transparent:
  "fst (run_pipeline_loop p True ts) = fst (run_pipeline_loop p False ts) \<and>
   unmeasured (snd (run_pipeline_loop p True ts)) = snd (run_pipeline_loop p False ts) \<and>
   concat (map effect_calls (snd (run_pipeline_loop p False ts))) = [] \<and>
   supervise_pipeline_task p False attempts cs (h\<lparr> restarts := [] \<rparr>) =
     (case supervise_pipeline_task p True attempts cs h of (e, h') \<Rightarrow> (e, h'\<lparr> restarts := [] \<rparr>))"
proof (intro conjI)
  show "concat (map effect_calls (snd (run_pipeline_loop p False ts))) = []"
    using loop_metrics [of p ts] unmeasured_calls by metis
qed (simp_all add: loop_metrics supervise_metrics)

end
