(* ===== verification/Spec2Isabelle.thy ===== *)
theory Spec2Isabelle
  imports Caml_Compiler_Correct Caml_Pool_Correct Caml_H264 Caml_Runtime_Correct
    Caml_Webrtc_Correct Caml_Assembly_Correct Caml_Transcode_Correct Caml_Host_Correct
    Caml_Notify_Correct Caml_Track_Correct Caml_Path_Correct Caml_Delivery_Correct Caml_Fanout_Correct Caml_Engine_Correct Caml_Metrics
begin

text \<open>
  \<^bold>\<open>The program.\<close> CAML reads a YAML manifest of camera pipelines, compiles it against the capabilities
  of the host into a graph of compiled pipelines, and runs each pipeline as a supervised task that
  moves media from a source (FFmpeg or libcamera) to its outputs (WebRTC, recording). Paths below
  are those of the repository, \<^verbatim>\<open>core\<close> standing for \<^verbatim>\<open>crates/caml-core/src\<close>, \<^verbatim>\<open>ffmpeg\<close> for
  \<^verbatim>\<open>crates/caml-ffmpeg/src\<close>, \<^verbatim>\<open>webrtc\<close> for \<^verbatim>\<open>crates/caml-webrtc/src\<close> and \<^verbatim>\<open>linux\<close> for
  \<^verbatim>\<open>crates/caml-linux-media/src\<close>.

  \<^bold>\<open>From a manifest to a graph.\<close>
  \<^item> \<^verbatim>\<open>core/error.rs\<close> is \<open>Caml_Error\<close>, \<^verbatim>\<open>core/units.rs\<close> is \<open>Caml_Units\<close>, \<^verbatim>\<open>core/frontend.rs\<close> is
    \<open>Caml_Frontend\<close>: the data types of the manifest field by field, the parsers of its units and
    \<open>validate_manifest\<close> with its checks in their order. Loading accepts exactly the valid manifests;
    an error names the first invalid pipeline; sizes and rates survive printing and parsing.
  \<^item> \<^verbatim>\<open>core/compiler.rs\<close> is three theories: \<open>Caml_Capability\<close> (what a host offers and requires, the
    merging of probes, an interpretation of \<open>partial_join\<close>), \<open>Caml_Template\<close> (placeholders of overlay
    texts) and \<open>Caml_Compiler\<close> (\<open>compile_internal\<close> and the entry points). \<open>Caml_Compiler_Correct\<close>
    says exactly which manifests compile and to what, that the memory limit holds even where the
    64-bit estimate saturates, that a probe only gates and never changes a graph, and that every
    compiled pipeline is consistent.

  \<^bold>\<open>Running a graph.\<close>
  \<^item> \<^verbatim>\<open>core/runtime.rs\<close> is \<open>Caml_Pool\<close> (the buffer pool with its heap, raw pointers and reference
    counts; \<open>pool_step\<close> is any interleaving of its operations), \<open>Caml_Media\<close> (payloads), \<open>Caml_Runtime\<close>
    (\<open>run_pipeline_loop\<close>, \<open>supervise_pipeline_task\<close>, the statuses), \<open>Caml_Fanout\<close> (the router to several
    sinks) and the first half of \<open>Caml_Adapters\<close> (the stages of a pipeline and one run with its pool).
    \<open>Caml_Pool_Correct\<close> proves an invariant of every reachable world of handles: no panic, no aliasing,
    a reader reads what was frozen, the accounting is exact up to the slots that a writer without capacity loses; the pool is then an interpretation of the
    interface \<open>frame_pool\<close>. \<open>Caml_Runtime_Correct\<close> proves that payloads are delivered in order, that
    the statuses follow an abstract machine, and how often and after which waits a pipeline is
    restarted; the 32-bit floating-point factor of the waits is computed in \<open>Rust_Float\<close>.
  \<^item> \<open>Caml_Engine\<close> is \<open>RuntimeEngine::start\<close> with the tasks it spawns running at the same time, each
    access to the shared handle being one step. \<open>Caml_Engine_Correct\<close> shows that every pipeline of a
    compiled graph goes through the events and statuses it would go through alone, that the engine
    always comes to rest, and that \<open>shutdown\<close> then succeeds unless a factory or a stage has panicked.
  \<^item> \<open>Caml_Stages\<close> is the pipeline loop again, now with sources and sinks that have a state of their own
    and share the pool of the run, and the adapters in that form: module \<open>mock\<close> of the runtime, the
    FFmpeg source, the recording sink. \<open>Caml_Stages_Correct\<close> states what a source and a sink promise as
    the interfaces \<open>media_source\<close> and \<open>media_sink\<close>, proves once in \<open>media_path\<close> what a pipeline of any two such delivers,
    and interprets them on the adapters. \<open>Caml_Path_Correct\<close> has the results end to end: what arrives,
    that packets that fit reuse one buffer of the pool, and that restarts lose and repeat nothing.
  \<^item> \<^verbatim>\<open>core/metrics.rs\<close> is \<open>Caml_Metrics\<close>: the calls of an exporter, and that a pipeline runs with
    one as it does without.
  \<^item> \<^verbatim>\<open>src/adapters.rs\<close> is the second half of \<open>Caml_Adapters\<close>, \<^verbatim>\<open>src/builder.rs\<close> is \<open>Caml_Builder\<close>.
    \<open>Caml_Assembly_Correct\<close> shows that what the builder checks is what its adapters need, but for queue limits
    at which building panics, and how the pools of a started graph fit the memory limit it was compiled for.

  \<^bold>\<open>Sources.\<close>
  \<^item> \<^verbatim>\<open>ffmpeg/h264.rs\<close> is \<open>Caml_H264\<close> (with its theorems); \<^verbatim>\<open>device.rs\<close>, \<^verbatim>\<open>error.rs\<close>, \<^verbatim>\<open>hwaccel.rs\<close> and
    \<^verbatim>\<open>capabilities.rs\<close> are \<open>Caml_Ffmpeg\<close>; the filter graph of \<^verbatim>\<open>transcode.rs\<close> is \<open>Caml_Filter\<close>;
    \<^verbatim>\<open>worker.rs\<close> and the loops of \<^verbatim>\<open>transcode.rs\<close> are \<open>Caml_Worker\<close>, the set-up of its decoder, graph
    and encoder \<open>Caml_Transcode\<close>; the worker thread and \<^verbatim>\<open>source.rs\<close> are \<open>Caml_Source\<close>.
    \<open>Caml_Worker_Correct\<close> shows that the description of the filter graph is one linked chain, that the
    packets of the chosen stream are sent in order, when the end of the stream is sent, and exactly
    which compiled pipelines the worker takes; \<open>Caml_Transcode_Correct\<close> when the set-up succeeds and
    what the encoder's clock does to the time stamps.
  \<^item> \<^verbatim>\<open>linux/lib.rs\<close> is \<open>Caml_Linux\<close>, \<^verbatim>\<open>linux/camera\<close> is \<open>Caml_Camera\<close>. \<open>Caml_Camera_Correct\<close> shows that
    the camera's worker, its provider and the holders of frames, interleaved in any order (\<open>camera_step\<close>), refine the
    buffer pool, and that exactly the frames of the completed requests arrive;
    \<open>Caml_Host_Correct\<close> what the probe of the builder reports, and that the frames of the native camera
    and a WebRTC output do not fit together.

  \<^bold>\<open>Sinks.\<close> \<^verbatim>\<open>webrtc/lib.rs\<close> is \<open>Caml_Webrtc\<close>: \<open>webrtc_step\<close> interleaves \<open>consume\<close> and the sender task in
  any order, each locked section being one step. \<open>Caml_Webrtc_Correct\<close> bounds the queue, shows it first
  in first out up to evictions (of which key frames are the last, by the interface \<open>eviction\<close>), and
  says what a flush has sent. \<open>Caml_Notify\<close> is the same sink with the waiting it really does on tokio's
  \<open>Notify\<close>, whose documented behaviour is the hypothesis \<open>documented\<close> (and the interface
  \<open>notify_contract\<close>): \<open>Caml_Notify_Correct\<close> shows that it refines the sink, that with a dropping policy
  no wake-up is lost, and that with the blocking policy both tasks can wait for each other.
  \<open>Caml_Track\<close> adds packetizer and track: \<open>Caml_Track_Correct\<close> shows that the result of a flush is
  what happened to the track, and how far the RTP clock falls behind.

  \<^bold>\<open>All together.\<close> \<open>Caml_Live\<close> is a pipeline with a WebRTC output while it runs: \<open>live_step\<close> interleaves
  \<open>run_pipeline_loop\<close>, the steps of \<open>consume\<close> and the sender task, which share the buffer pool of the run, and says
  who drops which packet. \<open>Caml_Live_Correct\<close> has its invariant, for every \<open>media_source\<close>: who holds
  which buffer, and how what was sent, what is alive and what was dropped make up what was taken. \<open>Caml_Delivery_Correct\<close> has the
  results for the FFmpeg source and the sink as \<open>build_sink\<close> makes it: nothing panics, the
  track is where the messages of the worker bring it, the pool of a compiled pipeline never grows (for sources
  that publish, the interface \<open>publishing_source\<close>), every buffer comes back, and what the end of the stream loses.
  \<open>Caml_Router\<close> is a pipeline with several outputs while it runs: the fan-out router, its channels, the tasks of
  its actors and what their sinks keep, one step of any of them at a time (\<open>fan_step\<close>).
  \<open>Caml_Router_Correct\<close> has the invariant of that world, which counts the clones of every
  buffer; \<open>Caml_Fanout_Correct\<close> shows what every sink receives and how many buffers are in use, that a router of dropping
  sinks never waits, and that one blocking sink can stall the pipeline beyond its cancellation.

  \<^bold>\<open>The prelude.\<close> \<open>Rust_Base\<close>, \<open>Rust_String\<close> and \<open>Rust_Float\<close> hold what the crates use of Rust and its
  standard library: words of the source's widths (\<open>usize\<close> is 64 bits wide) with checked and saturating
  arithmetic, results as sums, \<open>str\<close> as the list of its UTF-8 bytes, durations as nanoseconds in
  \<open>nat\<close>, and the simplifier collections \<open>result_simps\<close> and \<open>str_simps\<close> of all proofs.

  \<^bold>\<open>How the code is modelled.\<close> An error is a value of the source's error type, with its whole text; a
  panic is \<open>None\<close> or an outcome of its own. Code that waits takes what it waits for as input (a \<open>tick\<close>
  of the pipeline loop, a \<open>cycle\<close> of the supervisor, a turn of a worker): a run that uses up its inputs
  is still running, nothing is assumed of the environment, and no fuel is needed. The two tasks of
  the WebRTC sink, the tasks of an engine, a running pipeline with its sinks, a camera with its provider and the owners of a pool are step relations. Code of other crates is a parameter:
  YAML and URL parsing, FFmpeg, libcamera, the RTP packetizer, the file system, the string hasher,
  \<open>Notify\<close>, and the channels of tokio. Of these only \<open>Notify\<close> and the channels of the router are assumed to do
  what is documented.

  \<^bold>\<open>Not modelled.\<close> \<^verbatim>\<open>Deserialize\<close> implementations that only call the parsers; re-exports; logging and
  printing; the examples; the sleeps between the turns of a worker and FFmpeg's threading options; the joining of
  threads when an FFmpeg source or a handle is dropped; receivers of runtime events that lag behind. Memory is modelled for
  the pool only: other allocations and copies, such as those of the mock adapters and of the WebRTC sender, are
  values and are not counted, and the addresses of bytes outside the pool are arbitrary.
\<close>

end
